(* ===== verification/Prelude.thy ===== *)
theory Prelude
  imports Main "HOL-Library.Word" "HOL-Library.Sublist" "HOL-Library.Multiset"
begin

section \<open>Shared vocabulary\<close>

text \<open>
  What the components share: the machine integers of the Rust sources with the
  conversions the code performs, results as sums (\<open>Inl\<close> the error, \<open>Inr\<close> the
  value) with the early return of the \<open>?\<close> operator, and lemmas on lists and maps
  that several components use.

  A \<open>usize\<close> is a natural number and an \<open>i64\<close> or \<open>i32\<close> an integer; every place
  where the code checks, saturates or wraps is written out with the limits below.
\<close>

named_theorems result_simps \<open>unfolding of results and early returns\<close>
named_theorems bound_simps \<open>machine limits as numerals\<close>

type_synonym usize = nat
type_synonym u64 = nat
type_synonym u32 = nat
type_synonym i64 = int
type_synonym i32 = int

definition usize_max :: usize where "usize_max = 2 ^ 64 - 1"
definition i64_max :: i64 where "i64_max = 2 ^ 63 - 1"
definition u32_max :: u32 where "u32_max = 2 ^ 32 - 1"

lemmas [bound_simps] = usize_max_def i64_max_def u32_max_def

text \<open>\<open>n as i64\<close> on a \<open>usize\<close>: the same 64 bits read as two's complement.\<close>

definition usize_as_i64 :: "usize \<Rightarrow> i64" where
  "usize_as_i64 n = sint (of_nat n :: 64 word)"

text \<open>\<open>usize::try_from(i)\<close> on an \<open>i64\<close> fails exactly on negative values.\<close>

definition usize_try_from :: "i64 \<Rightarrow> usize option" where
  "usize_try_from i = (if i < 0 then None else Some (nat i))"

definition checked_add_usize :: "usize \<Rightarrow> usize \<Rightarrow> usize option" where
  "checked_add_usize a b = (if a + b \<le> usize_max then Some (a + b) else None)"

definition checked_mul_usize :: "usize \<Rightarrow> usize \<Rightarrow> usize option" where
  "checked_mul_usize a b = (if a * b \<le> usize_max then Some (a * b) else None)"

definition saturating_mul_usize :: "usize \<Rightarrow> usize \<Rightarrow> usize" where
  "saturating_mul_usize a b = min (a * b) usize_max"

definition saturating_add_u32 :: "u32 \<Rightarrow> u32 \<Rightarrow> u32" where
  "saturating_add_u32 a b = min (a + b) u32_max"

definition saturating_add_i64 :: "i64 \<Rightarrow> i64 \<Rightarrow> i64" where
  "saturating_add_i64 a b = max (- i64_max - 1) (min (a + b) i64_max)"

definition saturating_sub_i64 :: "i64 \<Rightarrow> i64 \<Rightarrow> i64" where
  "saturating_sub_i64 a b = max (- i64_max - 1) (min (a - b) i64_max)"

definition checked_add_i64 :: "i64 \<Rightarrow> i64 \<Rightarrow> i64 option" where
  "checked_add_i64 a b =
     (if - i64_max - 1 \<le> a + b \<and> a + b \<le> i64_max then Some (a + b) else None)"

text \<open>\<open>a.div_ceil(b)\<close>; the code only divides by a positive number.\<close>

definition div_ceil :: "usize \<Rightarrow> usize \<Rightarrow> usize" where
  "div_ceil a b = a div b + (if a mod b = 0 then 0 else 1)"

text \<open>\<open>x.clamp(lo, hi)\<close>, for \<open>lo <= hi\<close> (Rust panics otherwise).\<close>

definition clamp_usize :: "usize \<Rightarrow> usize \<Rightarrow> usize \<Rightarrow> usize" where
  "clamp_usize lo hi x = (if x < lo then lo else if hi < x then hi else x)"

lemma clamp_usize_bounds: "lo \<le> hi \<Longrightarrow> lo \<le> clamp_usize lo hi x \<and> clamp_usize lo hi x \<le> hi"
  by (simp add: clamp_usize_def)

lemma clamp_usize_id: "lo \<le> x \<Longrightarrow> x \<le> hi \<Longrightarrow> clamp_usize lo hi x = x"
  by (simp add: clamp_usize_def)

lemma usize_as_i64_small [simp]: "n < 2 ^ 63 \<Longrightarrow> usize_as_i64 n = int n"
  by (simp add: usize_as_i64_def sint_uint unsigned_of_nat take_bit_nat_eq_self
      signed_take_bit_int_eq_self)

lemma usize_try_from_of_nat [simp]: "usize_try_from (int n) = Some n"
  by (simp add: usize_try_from_def)

lemma usize_try_from_Some: "usize_try_from i = Some n \<longleftrightarrow> 0 \<le> i \<and> n = nat i"
  by (auto simp: usize_try_from_def)

lemma div_ceil_upper: "0 < b \<Longrightarrow> a \<le> div_ceil a b * b"
proof -
  assume "0 < b"
  then have "a mod b \<le> b" by (simp add: less_imp_le)
  then have "a \<le> a div b * b + b" using div_mult_mod_eq [of a b] by linarith
  then show ?thesis using div_mult_mod_eq [of a b] by (auto simp: div_ceil_def)
qed

lemma div_ceil_pos: "0 < a \<Longrightarrow> 0 < b \<Longrightarrow> 0 < div_ceil a b"
  by (auto simp: div_ceil_def)

section \<open>Results with early return\<close>

text \<open>\<open>let x = r?; f(x)\<close>: the error is returned unchanged.\<close>

fun and_then :: "'e + 'a \<Rightarrow> ('a \<Rightarrow> 'e + 'b) \<Rightarrow> 'e + 'b" where
  "and_then (Inl e) f = Inl e"
| "and_then (Inr x) f = f x"

fun is_ok :: "'e + 'a \<Rightarrow> bool" where
  "is_ok (Inl _) = False"
| "is_ok (Inr _) = True"

definition require :: "bool \<Rightarrow> 'e \<Rightarrow> 'e + unit" where
  "require b e = (if b then Inr () else Inl e)"

definition ok_or :: "'a option \<Rightarrow> 'e \<Rightarrow> 'e + 'a" where
  "ok_or x e = (case x of None \<Rightarrow> Inl e | Some y \<Rightarrow> Inr y)"

definition map_err :: "('e \<Rightarrow> 'f) \<Rightarrow> 'e + 'a \<Rightarrow> 'f + 'a" where
  "map_err f r = (case r of Inl e \<Rightarrow> Inl (f e) | Inr x \<Rightarrow> Inr x)"

text \<open>\<open>iter.map(f).collect::<Result<Vec<_>, _>>()\<close>: stops at the first error.\<close>

fun try_map :: "('a \<Rightarrow> 'e + 'b) \<Rightarrow> 'a list \<Rightarrow> 'e + 'b list" where
  "try_map f [] = Inr []"
| "try_map f (x # xs) =
     and_then (f x) (\<lambda>y. and_then (try_map f xs) (\<lambda>ys. Inr (y # ys)))"

text \<open>\<open>iter.try_fold(init, f)\<close>.\<close>

fun try_fold :: "('b \<Rightarrow> 'a \<Rightarrow> 'e + 'b) \<Rightarrow> 'b \<Rightarrow> 'a list \<Rightarrow> 'e + 'b" where
  "try_fold f b [] = Inr b"
| "try_fold f b (x # xs) = and_then (f b x) (\<lambda>b'. try_fold f b' xs)"

lemma and_then_Inr [result_simps, simp]:
  "and_then r f = Inr y \<longleftrightarrow> (\<exists>x. r = Inr x \<and> f x = Inr y)"
  by (cases r) auto

lemma and_then_Inl [result_simps]:
  "and_then r f = Inl e \<longleftrightarrow> r = Inl e \<or> (\<exists>x. r = Inr x \<and> f x = Inl e)"
  by (cases r) auto

lemma require_simps [result_simps, simp]:
  "require b e = Inr u \<longleftrightarrow> b"
  "require b e = Inl e' \<longleftrightarrow> \<not> b \<and> e = e'"
  by (auto simp: require_def)

lemma ok_or_simps [result_simps, simp]:
  "ok_or x e = Inr y \<longleftrightarrow> x = Some y"
  "ok_or x e = Inl e' \<longleftrightarrow> x = None \<and> e = e'"
  by (auto simp: ok_or_def split: option.splits)

lemma map_err_Inr [result_simps, simp]: "map_err f r = Inr y \<longleftrightarrow> r = Inr y"
  by (auto simp: map_err_def split: sum.splits)

lemma is_ok_iff: "is_ok r \<longleftrightarrow> (\<exists>x. r = Inr x)"
  by (cases r) auto

lemma try_map_Inr: "try_map f xs = Inr ys \<longleftrightarrow> list_all2 (\<lambda>x y. f x = Inr y) xs ys"
proof (induction xs arbitrary: ys)
  case (Cons x xs)
  then show ?case by (cases ys) auto
qed auto

lemma try_map_length: "try_map f xs = Inr ys \<Longrightarrow> length ys = length xs"
  by (auto simp: try_map_Inr dest: list_all2_lengthD)

lemma try_map_total: "(\<And>x. x \<in> set xs \<Longrightarrow> f x = Inr (g x)) \<Longrightarrow> try_map f xs = Inr (map g xs)"
  by (induction xs) auto

lemma try_map_cong [fundef_cong]:
  "xs = ys \<Longrightarrow> (\<And>x. x \<in> set ys \<Longrightarrow> f x = g x) \<Longrightarrow> try_map f xs = try_map g ys"
  by (induction ys arbitrary: xs) auto

lemma try_fold_append:
  "try_fold f b (xs @ ys) = and_then (try_fold f b xs) (\<lambda>b'. try_fold f b' ys)"
proof (induction xs arbitrary: b)
  case (Cons x xs)
  then show ?case by (cases "f b x") auto
qed simp

text \<open>Invariants of a fold with early return.\<close>

lemma try_fold_invariant:
  assumes "try_fold f b xs = Inr b'" and "P b"
    and "\<And>b x c. x \<in> set xs \<Longrightarrow> P b \<Longrightarrow> f b x = Inr c \<Longrightarrow> P c"
  shows "P b'"
  using assms
proof (induction xs arbitrary: b)
  case (Cons x xs)
  then obtain c where "f b x = Inr c" "try_fold f c xs = Inr b'" by auto
  with Cons show ?case by (metis list.set_intros)
qed simp

section \<open>Lists\<close>

text \<open>\<open>v[a..b]\<close> as a value; the code's bounds checks are written where it indexes.\<close>

definition slice :: "nat \<Rightarrow> nat \<Rightarrow> 'a list \<Rightarrow> 'a list" where
  "slice a b xs = take (b - a) (drop a xs)"

lemma length_slice [simp]: "length (slice a b xs) = min b (length xs) - a"
  by (auto simp: slice_def)

lemma nth_slice [simp]: "i < b - a \<Longrightarrow> b \<le> length xs \<Longrightarrow> slice a b xs ! i = xs ! (a + i)"
  by (simp add: slice_def)

lemma slice_all [simp]: "slice 0 (length xs) xs = xs"
  by (simp add: slice_def)

lemma slice_append_slice:
  assumes "a \<le> b" "b \<le> c"
  shows "slice a b xs @ slice b c xs = slice a c xs"
proof -
  have "slice b c xs = take (c - b) (drop (b - a) (drop a xs))"
    using assms by (simp add: slice_def)
  moreover have "take (b - a) ys @ take (c - b) (drop (b - a) ys) = take (c - a) ys" for ys :: "'a list"
    using assms take_add [of "b - a" "c - b" ys] by simp
  ultimately show ?thesis by (simp only: slice_def)
qed

lemma map_slice: "map f (slice a b xs) = slice a b (map f xs)"
  by (simp add: slice_def take_map drop_map)

lemma set_slice_subset: "set (slice a b xs) \<subseteq> set xs"
  by (auto simp: slice_def dest: in_set_takeD in_set_dropD)

text \<open>\<open>v.get(i)\<close>.\<close>

definition nth_opt :: "'a list \<Rightarrow> nat \<Rightarrow> 'a option" where
  "nth_opt xs i = (if i < length xs then Some (xs ! i) else None)"

lemma nth_opt_Some: "nth_opt xs i = Some x \<longleftrightarrow> i < length xs \<and> x = xs ! i"
  by (auto simp: nth_opt_def)

text \<open>\<open>windows(2).any(|p| !(p[0] < p[1]))\<close> is the negation of a strict chain.\<close>

fun adjacent :: "('a \<Rightarrow> 'a \<Rightarrow> bool) \<Rightarrow> 'a list \<Rightarrow> bool" where
  "adjacent R (x # y # zs) \<longleftrightarrow> R x y \<and> adjacent R (y # zs)"
| "adjacent R _ \<longleftrightarrow> True"

lemma adjacent_iff_sorted_wrt: "transp R \<Longrightarrow> adjacent R xs \<longleftrightarrow> sorted_wrt R xs"
proof (induction R xs rule: adjacent.induct)
  case (1 R x y zs)
  then show ?case by (auto dest: transpD)
qed auto

lemma sorted_wrt_distinct_pair:
  "sorted_wrt R xs \<Longrightarrow> x \<in> set xs \<Longrightarrow> y \<in> set xs \<Longrightarrow> x \<noteq> y \<Longrightarrow> R x y \<or> R y x"
  by (induction xs) auto

lemma sorted_wrt_distinct: "sorted_wrt R xs \<Longrightarrow> (\<And>x. \<not> R x x) \<Longrightarrow> distinct xs"
  by (induction xs) auto

lemma list_all2_append_iff:
  "list_all2 R p (xs @ ys) \<longleftrightarrow> (\<exists>q r. p = q @ r \<and> list_all2 R q xs \<and> list_all2 R r ys)"
  by (metis list_all2_append2 list_all2_appendI)

lemma list_all2_map_eq: "list_all2 (\<lambda>x y. h y = f x) xs ys \<Longrightarrow> map h ys = map f xs"
  by (induction rule: list_all2_induct) auto

lemma list_all2_set1: "list_all2 R xs ys \<Longrightarrow> x \<in> set xs \<Longrightarrow> \<exists>y \<in> set ys. R x y"
  by (induction rule: list_all2_induct) auto

lemma list_all2_set2: "list_all2 R xs ys \<Longrightarrow> y \<in> set ys \<Longrightarrow> \<exists>x \<in> set xs. R x y"
  by (induction rule: list_all2_induct) auto

lemma list_all2_bex_iff:
  "list_all2 (\<lambda>x y. Q y \<longleftrightarrow> P x) xs ys \<Longrightarrow> (\<exists>y \<in> set ys. Q y) \<longleftrightarrow> (\<exists>x \<in> set xs. P x)"
  by (induction rule: list_all2_induct) auto

end
