(* ===== verification/Errors.thy ===== *)
theory Errors
  imports Prelude
begin

section \<open>Errors as values\<close>

text \<open>
  The two error enumerations of \<open>src/core/errors.rs\<close>. Every fallible operation of the
  model returns one of them (or an error type of its own component) on the left of a
  sum. Messages are kept where they are constant; a message the code builds with
  \<open>format!\<close> keeps its constant part.
\<close>

datatype store_error =
    Internal string
  | StoreInvalidInput string
  | NotFound string
  | Database string
  | RetryActivation string
  | StoreSerialization string
  | BatchOwnershipLost i64 string

definition is_retry_activation :: "store_error \<Rightarrow> bool" where
  "is_retry_activation e = (case e of RetryActivation _ \<Rightarrow> True | _ \<Rightarrow> False)"

definition is_batch_ownership_lost :: "store_error \<Rightarrow> bool" where
  "is_batch_ownership_lost e = (case e of BatchOwnershipLost _ _ \<Rightarrow> True | _ \<Rightarrow> False)"

definition is_database_error :: "store_error \<Rightarrow> bool" where
  "is_database_error e = (case e of Database _ \<Rightarrow> True | _ \<Rightarrow> False)"

datatype engine_error =
    Eval string
  | Build string
  | Engine string
  | InvalidInput string
  | Incompatible string
  | Io string
  | Serialization string

text \<open>The classifications are disjoint: an error is retried, propagated or counted once.\<close>

lemma store_error_classes_disjoint:
  "\<not> (is_retry_activation e \<and> is_database_error e)"
  "\<not> (is_batch_ownership_lost e \<and> is_database_error e)"
  "\<not> (is_retry_activation e \<and> is_batch_ownership_lost e)"
  by (cases e; simp add: is_retry_activation_def is_database_error_def is_batch_ownership_lost_def)+

end
