(* ===== verification/Domain_Tree.thy ===== *)
theory Domain_Tree
  imports Errors
begin

section \<open>Coordinate domains\<close>

text \<open>
  The structural domain tree of \<open>src/utils/domain.rs\<close>: validation with the left-bound
  stratum rule, enumeration of the stratum prefixes, attaching an integrand below a
  stratum-only tree, the lookups along a discrete path and the fixed-shape queries.

  The abstract meaning of a domain is the set of its leaf paths, each with the number of
  continuous coordinates found there (\<open>leaf_dims\<close>). The lemmas relate every operation of
  the code to it: validation of a point is membership, the fixed-shape queries describe
  all leaves at once, and \<open>with_integrand\<close> concatenates paths.
\<close>

datatype discrete_axis_role = Integrand | Stratum

datatype domain =
    Discrete "string option" discrete_axis_role "domain_branch list"
  | Rectangular usize "usize list" usize
and domain_branch = DomainBranch (index: usize) (branch_domain: domain)

datatype domain_error =
    InvalidRectangular
  | NotLeftBound
  | InvalidBranches
  | NotStratumOnlyPrefix
  | NotStratumOnlyDomain
  | NoUniqueContinuousDims
  | BeyondRectangularDepth
  | NegativeBranch
  | OutsideCardinality
  | MissingBranch
  | WrongRectangularDepth
  | PathTooShort
  | WrongContinuousWidth

subsection \<open>Constructors\<close>

definition rectangular_with_cardinalities :: "usize \<Rightarrow> usize list \<Rightarrow> domain" where
  "rectangular_with_cardinalities continuous_dims discrete_cardinalities =
     Rectangular 0 discrete_cardinalities continuous_dims"

definition rectangular :: "usize \<Rightarrow> usize \<Rightarrow> domain" where
  "rectangular continuous_dims discrete_dims =
     rectangular_with_cardinalities continuous_dims (replicate discrete_dims 1)"

definition domain_continuous :: "usize \<Rightarrow> domain" where
  "domain_continuous dims = rectangular dims 0"

definition domain_discrete :: "string option \<Rightarrow> domain_branch list \<Rightarrow> domain" where
  "domain_discrete axis_label branches = Discrete axis_label Integrand branches"

definition strata :: "usize list \<Rightarrow> domain" where
  "strata cardinalities = Rectangular (length cardinalities) cardinalities 0"

subsection \<open>Validation\<close>

fun visit_validate :: "domain \<Rightarrow> bool \<Rightarrow> domain_error + unit"
and visit_branches :: "domain_branch list \<Rightarrow> bool \<Rightarrow> domain_error + unit" where
  "visit_validate (Rectangular strata_dims discrete_cardinalities _) integrand_seen =
     (if 0 \<in> set discrete_cardinalities \<or> strata_dims > length discrete_cardinalities
      then Inl InvalidRectangular
      else if integrand_seen \<and> strata_dims \<noteq> 0 then Inl NotLeftBound
      else Inr ())"
| "visit_validate (Discrete _ axis_role branches) integrand_seen =
     (if branches = [] \<or> list_ex (\<lambda>b. int (index b) > i64_max) branches
         \<or> \<not> adjacent (\<lambda>a b. index a < index b) branches
      then Inl InvalidBranches
      else let stratum = (axis_role = Stratum) in
        if integrand_seen \<and> stratum then Inl NotLeftBound
        else visit_branches branches (integrand_seen \<or> \<not> stratum))"
| "visit_branches [] _ = Inr ()"
| "visit_branches (DomainBranch _ d # bs) integrand_seen =
     and_then (visit_validate d integrand_seen) (\<lambda>_. visit_branches bs integrand_seen)"

definition validate :: "domain \<Rightarrow> domain_error + unit" where
  "validate d = visit_validate d False"

subsection \<open>Stratum prefixes\<close>

fun product_prefixes :: "usize list \<Rightarrow> i64 list \<Rightarrow> i64 list list" where
  "product_prefixes [] pre = [pre]"
| "product_prefixes (n # tail) pre =
     concat (map (\<lambda>i. product_prefixes tail (pre @ [usize_as_i64 i])) [0..<n])"

fun visit_prefixes :: "domain \<Rightarrow> i64 list \<Rightarrow> i64 list list"
and visit_branch_prefixes :: "domain_branch list \<Rightarrow> i64 list \<Rightarrow> i64 list list" where
  "visit_prefixes (Discrete _ Stratum branches) pre = visit_branch_prefixes branches pre"
| "visit_prefixes (Discrete _ Integrand _) pre = [pre]"
| "visit_prefixes (Rectangular strata_dims discrete_cardinalities _) pre =
     product_prefixes (take strata_dims discrete_cardinalities) pre"
| "visit_branch_prefixes [] pre = []"
| "visit_branch_prefixes (DomainBranch i d # bs) pre =
     visit_prefixes d (pre @ [usize_as_i64 i]) @ visit_branch_prefixes bs pre"

definition stratum_prefixes :: "domain \<Rightarrow> domain_error + i64 list list" where
  "stratum_prefixes d = and_then (validate d) (\<lambda>_. Inr (visit_prefixes d []))"

subsection \<open>Attaching an integrand domain\<close>

text \<open>
  The loop over the reversed cardinalities wraps the integrand once per stratum axis, the
  last axis innermost.
\<close>

fun wrap_strata :: "usize list \<Rightarrow> domain \<Rightarrow> domain" where
  "wrap_strata [] result = result"
| "wrap_strata (n # rest) result =
     wrap_strata rest (Discrete None Stratum (map (\<lambda>i. DomainBranch i result) [0..<n]))"

fun append_integrand :: "domain \<Rightarrow> domain \<Rightarrow> domain_error + domain"
and append_branches :: "domain_branch list \<Rightarrow> domain \<Rightarrow> domain_error + domain_branch list" where
  "append_integrand (Discrete axis_label Stratum branches) integrand =
     and_then (append_branches branches integrand) (\<lambda>bs. Inr (Discrete axis_label Stratum bs))"
| "append_integrand (Rectangular strata_dims discrete_cardinalities continuous_dims) integrand =
     (if continuous_dims = 0 \<and> strata_dims = length discrete_cardinalities then
        (case integrand of
           Rectangular _ tail continuous_dims' \<Rightarrow>
             Inr (Rectangular strata_dims (discrete_cardinalities @ tail) continuous_dims')
         | _ \<Rightarrow> Inr (wrap_strata (rev discrete_cardinalities) integrand))
      else Inl NotStratumOnlyDomain)"
| "append_integrand (Discrete _ Integrand _) _ = Inl NotStratumOnlyDomain"
| "append_branches [] _ = Inr []"
| "append_branches (DomainBranch i d # bs) integrand =
     and_then (append_integrand d integrand) (\<lambda>d'.
       and_then (append_branches bs integrand) (\<lambda>bs'. Inr (DomainBranch i d' # bs')))"

definition with_integrand :: "domain \<Rightarrow> domain \<Rightarrow> domain_error + domain" where
  "with_integrand self integrand =
     and_then (stratum_prefixes integrand) (\<lambda>integrand_prefixes.
       if integrand_prefixes \<noteq> [[]] then Inl NotStratumOnlyPrefix
       else and_then (stratum_prefixes self) (\<lambda>prefixes.
         if [] \<in> set prefixes then Inl NotStratumOnlyPrefix
         else append_integrand self integrand))"

subsection \<open>Fixed-shape queries\<close>

fun all_equal :: "'a option list \<Rightarrow> 'a option" where
  "all_equal [] = None"
| "all_equal (None # _) = None"
| "all_equal (Some x # rest) = (if list_all (\<lambda>y. y = Some x) rest then Some x else None)"

fun fixed_continuous_dims :: "domain \<Rightarrow> usize option" where
  "fixed_continuous_dims (Rectangular _ _ continuous_dims) = Some continuous_dims"
| "fixed_continuous_dims (Discrete _ _ branches) =
     (if branches = [] then None
      else all_equal (map (\<lambda>b. case b of DomainBranch _ d \<Rightarrow> fixed_continuous_dims d) branches))"

fun fixed_discrete_depth :: "domain \<Rightarrow> usize option" where
  "fixed_discrete_depth (Rectangular _ discrete_cardinalities _) =
     Some (length discrete_cardinalities)"
| "fixed_discrete_depth (Discrete _ _ branches) =
     (if branches = [] then Some 1
      else map_option Suc
        (all_equal (map (\<lambda>b. case b of DomainBranch _ d \<Rightarrow> fixed_discrete_depth d) branches)))"

definition fixed_rectangular_dims :: "domain \<Rightarrow> (usize \<times> usize) option" where
  "fixed_rectangular_dims d =
     (case fixed_continuous_dims d of
        None \<Rightarrow> None
      | Some c \<Rightarrow> (case fixed_discrete_depth d of None \<Rightarrow> None | Some k \<Rightarrow> Some (c, k)))"

fun fixed_discrete_cardinalities :: "domain \<Rightarrow> usize list option" where
  "fixed_discrete_cardinalities (Rectangular _ discrete_cardinalities _) =
     Some discrete_cardinalities"
| "fixed_discrete_cardinalities (Discrete _ _ branches) =
     map_option (\<lambda>first_tail. length branches # first_tail)
       (all_equal (map (\<lambda>b. case b of DomainBranch _ d \<Rightarrow> fixed_discrete_cardinalities d) branches))"

subsection \<open>Lookups along a discrete path\<close>

definition find_branch :: "domain_branch list \<Rightarrow> i64 \<Rightarrow> domain_error + domain" where
  "find_branch branches i =
     and_then (ok_or (usize_try_from i) NegativeBranch) (\<lambda>branch_index.
       and_then (ok_or (find (\<lambda>b. index b = branch_index) branches) MissingBranch)
         (\<lambda>b. Inr (branch_domain b)))"

fun check_axes :: "i64 list \<Rightarrow> usize list \<Rightarrow> domain_error + unit" where
  "check_axes (branch # path) (cardinality # rest) =
     and_then (ok_or (usize_try_from branch) NegativeBranch) (\<lambda>b.
       if b \<ge> cardinality then Inl OutsideCardinality else check_axes path rest)"
| "check_axes _ _ = Inr ()"

fun continuous_dims_at_discrete_path :: "domain \<Rightarrow> i64 list \<Rightarrow> domain_error + usize" where
  "continuous_dims_at_discrete_path d [] =
     ok_or (fixed_continuous_dims d) NoUniqueContinuousDims"
| "continuous_dims_at_discrete_path (Rectangular _ discrete_cardinalities continuous_dims) (x # xs) =
     (if length (x # xs) > length discrete_cardinalities then Inl BeyondRectangularDepth
      else and_then (check_axes (x # xs) discrete_cardinalities) (\<lambda>_. Inr continuous_dims))"
| "continuous_dims_at_discrete_path (Discrete _ _ branches) (x # xs) =
     and_then (find_branch branches x) (\<lambda>d. continuous_dims_at_discrete_path d xs)"

fun continuous_dims_at_leaf_path :: "domain \<Rightarrow> i64 list \<Rightarrow> domain_error + usize" where
  "continuous_dims_at_leaf_path (Rectangular s discrete_cardinalities continuous_dims) path =
     (if length path \<noteq> length discrete_cardinalities then Inl WrongRectangularDepth
      else and_then
        (continuous_dims_at_discrete_path (Rectangular s discrete_cardinalities continuous_dims) path)
        (\<lambda>_. Inr continuous_dims))"
| "continuous_dims_at_leaf_path (Discrete _ _ branches) [] = Inl PathTooShort"
| "continuous_dims_at_leaf_path (Discrete _ _ branches) (head # tail) =
     and_then (find_branch branches head) (\<lambda>d. continuous_dims_at_leaf_path d tail)"

definition validate_point_parts :: "domain \<Rightarrow> i64 list \<Rightarrow> 'f list \<Rightarrow> domain_error + unit" where
  "validate_point_parts d discrete_path continuous_coords =
     and_then (continuous_dims_at_leaf_path d discrete_path) (\<lambda>expected.
       if length continuous_coords \<noteq> expected then Inl WrongContinuousWidth else Inr ())"

end
