(* ===== verification/Domain_Laws.thy ===== *)
theory Domain_Laws
  imports Domain_Tree "HOL-Library.List_Lexorder"
begin

section \<open>Laws of coordinate domains\<close>

text \<open>
  The abstract meaning of a domain (\<open>is_leaf\<close>) and the proof that the lookups, the
  fixed-shape queries, the prefix enumeration and \<open>with_integrand\<close> of
  \<open>Domain_Tree\<close> compute what it says. Lists of integers are ordered as Rust orders
  \<open>Vec<i64>\<close>: lexicographically, a proper prefix first.
\<close>

subsection \<open>The abstract leaves\<close>

inductive is_leaf :: "domain \<Rightarrow> i64 list \<Rightarrow> usize \<Rightarrow> bool" where
  leaf_rectangular:
    "list_all2 (\<lambda>x n. 0 \<le> x \<and> x < int n) path cardinalities \<Longrightarrow>
     is_leaf (Rectangular s cardinalities c) path c"
| leaf_discrete:
    "DomainBranch i d \<in> set branches \<Longrightarrow> is_leaf d path c \<Longrightarrow>
     is_leaf (Discrete l r branches) (int i # path) c"

inductive_simps leaf_rect_iff [simp]: "is_leaf (Rectangular s cardinalities c) path c'"
inductive_simps leaf_disc_iff [simp]: "is_leaf (Discrete l r branches) path c"

lemma domain_induct [case_names Rectangular Discrete]:
  assumes "\<And>s cs c. P (Rectangular s cs c)"
    and "\<And>l r bs. (\<And>i d. DomainBranch i d \<in> set bs \<Longrightarrow> P d) \<Longrightarrow> P (Discrete l r bs)"
  shows "P d"
proof (rule domain.induct [where ?P1.0 = P and ?P2.0 = "\<lambda>b. P (branch_domain b)"])
  fix l r bs
  assume "\<And>b. b \<in> set bs \<Longrightarrow> P (branch_domain b)"
  then show "P (Discrete l r bs)" by (intro assms(2)) force
qed (use assms in auto)

lemma visit_branches_iff:
  "visit_branches bs b = Inr () \<longleftrightarrow>
   (\<forall>i d. DomainBranch i d \<in> set bs \<longrightarrow> visit_validate d b = Inr ())"
proof (induction bs)
  case (Cons x bs)
  then show ?case by (cases x) auto
qed auto

lemma validate_Discrete_iff:
  "visit_validate (Discrete l r bs) b = Inr () \<longleftrightarrow>
     bs \<noteq> [] \<and> (\<forall>x \<in> set bs. int (index x) \<le> i64_max) \<and>
     sorted_wrt (\<lambda>x y. index x < index y) bs \<and> (b \<longrightarrow> r = Integrand) \<and>
     (\<forall>i d. DomainBranch i d \<in> set bs \<longrightarrow> visit_validate d (b \<or> r = Integrand) = Inr ())"
proof -
  have "transp (\<lambda>x y. index x < index y)" by (auto intro: transpI)
  then have *: "adjacent (\<lambda>x y. index x < index y) bs \<longleftrightarrow> sorted_wrt (\<lambda>x y. index x < index y) bs"
    by (rule adjacent_iff_sorted_wrt)
  show ?thesis
    by (cases r) (auto simp: * Let_def list_ex_iff visit_branches_iff not_less not_le)
qed

declare visit_validate.simps(2) [simp del]

lemma validate_weaken: "visit_validate d True = Inr () \<Longrightarrow> visit_validate d False = Inr ()"
  by (induction d rule: domain_induct) (auto simp: validate_Discrete_iff split: if_splits)

lemma validate_branch:
  "visit_validate (Discrete l r bs) b = Inr () \<Longrightarrow> DomainBranch i d \<in> set bs \<Longrightarrow>
   visit_validate d False = Inr ()"
  by (cases r; cases b) (auto simp: validate_Discrete_iff dest: validate_weaken)

lemma sorted_index_inj:
  assumes "sorted_wrt (\<lambda>x y. index x < index y) bs"
    and "x \<in> set bs" "y \<in> set bs" "index x = index y"
  shows "x = y"
  using sorted_wrt_distinct_pair [OF assms(1-3)] assms(4) by auto

lemma find_branch_iff:
  assumes "sorted_wrt (\<lambda>x y. index x < index y) bs"
  shows "find_branch bs i = Inr d \<longleftrightarrow> 0 \<le> i \<and> DomainBranch (nat i) d \<in> set bs"
proof -
  have "find (\<lambda>b. index b = n) bs = Some b \<longleftrightarrow> b \<in> set bs \<and> index b = n" for n b
  proof
    assume "find (\<lambda>b. index b = n) bs = Some b"
    then show "b \<in> set bs \<and> index b = n" by (auto simp: find_Some_iff)
  next
    assume b: "b \<in> set bs \<and> index b = n"
    then obtain b' where b': "find (\<lambda>b. index b = n) bs = Some b'"
      by (metis (mono_tags, lifting) find_None_iff not_Some_eq)
    then have "b' \<in> set bs \<and> index b' = n" by (auto simp: find_Some_iff)
    with b have "b = b'" using sorted_index_inj [OF assms] by blast
    with b' show "find (\<lambda>b. index b = n) bs = Some b" by simp
  qed
  then show ?thesis
    by (auto simp: find_branch_def usize_try_from_Some) (metis domain_branch.collapse)+
qed

lemma check_axes_iff:
  "length path = length cs \<Longrightarrow>
   check_axes path cs = Inr () \<longleftrightarrow> list_all2 (\<lambda>x n. 0 \<le> x \<and> x < int n) path cs"
proof (induction path cs rule: check_axes.induct)
  case (1 branch path cardinality rest)
  then show ?case
    by (auto simp: usize_try_from_def split: if_splits)
qed auto

text \<open>A point is accepted exactly at the leaves: for a validated domain the checked
  lookup along a complete discrete path succeeds with width \<open>c\<close> if and only if that path is
  a leaf of the tree carrying \<open>c\<close> continuous coordinates.\<close>

theorem leaf_lookup_iff:
  assumes "validate d = Inr ()"
  shows "continuous_dims_at_leaf_path d path = Inr c \<longleftrightarrow> is_leaf d path c"
  using assms unfolding validate_def
proof (induction d arbitrary: path rule: domain_induct)
  case (Rectangular s cs c)
  show ?case
    by (cases path) (auto simp: check_axes_iff dest: list_all2_lengthD simp del: check_axes.simps)
next
  case (Discrete l r bs)
  have sorted: "sorted_wrt (\<lambda>x y. index x < index y) bs"
    using Discrete.prems by (simp add: validate_Discrete_iff)
  have IH: "continuous_dims_at_leaf_path e p = Inr c \<longleftrightarrow> is_leaf e p c"
    if "DomainBranch i e \<in> set bs" for i e p
    using Discrete.IH validate_branch [OF Discrete.prems that] that by blast
  show ?case
  proof (cases path)
    case (Cons x xs)
    then show ?thesis
      using IH by (auto simp: find_branch_iff [OF sorted]) (metis int_nat_eq nat_int of_nat_0_le_iff)+
  qed simp
qed

subsection \<open>Stratum prefixes\<close>

text \<open>
  Two prefixes \<open>diverge\<close> when they differ at some coordinate and the left one is smaller
  there: it is then smaller in the order of \<open>Vec<i64>\<close> and neither is a prefix of the other.
\<close>

definition diverge :: "i64 list \<Rightarrow> i64 list \<Rightarrow> bool" where
  "diverge x y \<longleftrightarrow> x < y \<and> \<not> prefix x y"

lemma diverge_Cons [simp]: "diverge (a # x) (b # y) \<longleftrightarrow> a < b \<or> a = b \<and> diverge x y"
  by (auto simp: diverge_def)

lemma diverge_append [simp]: "diverge (p @ x) (p @ y) \<longleftrightarrow> diverge x y"
  by (induction p) auto

lemma not_diverge_Nil [simp]: "\<not> diverge [] y" "\<not> diverge x []"
  by (auto simp: diverge_def)

lemma diverge_not_prefix: "diverge x y \<Longrightarrow> \<not> prefix x y \<and> \<not> prefix y x \<and> x \<noteq> y"
proof (induction x arbitrary: y)
  case (Cons a x)
  then show ?case by (cases y) auto
qed simp

lemma diverge_extend: "diverge x y \<Longrightarrow> diverge (x @ u) (y @ v)"
proof (induction x arbitrary: y)
  case (Cons a x)
  then show ?case by (cases y) auto
qed simp

lemma sorted_wrt_concat:
  assumes "\<And>xs. xs \<in> set xss \<Longrightarrow> sorted_wrt R xs"
    and "sorted_wrt (\<lambda>xs ys. \<forall>x \<in> set xs. \<forall>y \<in> set ys. R x y) xss"
  shows "sorted_wrt R (concat xss)"
  using assms by (induction xss) (auto simp: sorted_wrt_append)

text \<open>Sizes that 63 bits can hold, so that \<open>as i64\<close> keeps the labels.\<close>

fun sizes_ok :: "domain \<Rightarrow> bool" where
  "sizes_ok (Rectangular _ cardinalities _) \<longleftrightarrow> list_all (\<lambda>n. n \<le> 2 ^ 63) cardinalities"
| "sizes_ok (Discrete _ _ branches) \<longleftrightarrow>
     list_all (\<lambda>b. case b of DomainBranch i d \<Rightarrow> sizes_ok d) branches"

lemma sizes_ok_branch:
  "sizes_ok (Discrete l r bs) \<Longrightarrow> DomainBranch i d \<in> set bs \<Longrightarrow> sizes_ok d"
  by (auto simp: list_all_iff)

lemma visit_branch_prefixes_concat:
  "visit_branch_prefixes bs p =
   concat (map (\<lambda>b. visit_prefixes (branch_domain b) (p @ [usize_as_i64 (index b)])) bs)"
proof (induction bs)
  case (Cons b bs)
  then show ?case by (cases b) simp
qed simp

lemma product_prefixes_prepend: "product_prefixes cs p = map ((@) p) (product_prefixes cs [])"
proof (induction cs arbitrary: p)
  case (Cons n cs)
  have "product_prefixes cs (q @ [x]) = map ((@) q) (product_prefixes cs [x])" for q x
    using Cons.IH [of "q @ [x]"] Cons.IH [of "[x]"] by (simp add: comp_def)
  then show ?case by (simp add: map_concat comp_def)
qed simp

lemma visit_prefixes_prepend: "visit_prefixes d p = map ((@) p) (visit_prefixes d [])"
proof (induction d arbitrary: p rule: domain_induct)
  case (Rectangular s cs c)
  show ?case using product_prefixes_prepend [of "take s cs" p] by simp
next
  case (Discrete l r bs)
  have step: "visit_prefixes (branch_domain b) (q @ [x]) =
      map ((@) q) (visit_prefixes (branch_domain b) [x])" if "b \<in> set bs" for b q x
    using Discrete.IH [of "index b" "branch_domain b"] that
    by (metis (no_types, lifting) append_assoc domain_branch.collapse map_eq_conv map_map comp_apply)
  show ?case
    by (cases r) (auto simp: visit_branch_prefixes_concat map_concat step intro!: arg_cong [where f = concat])
qed

lemma mem_visit_rect:
  "p \<in> set (visit_prefixes (Rectangular s cs c) []) \<longleftrightarrow> p \<in> set (product_prefixes (take s cs) [])"
  by simp

lemma append_singleton: "(@) [a] = (#) a"
  by (simp add: fun_eq_iff)

lemma visit_prefixes_Stratum:
  "visit_prefixes (Discrete l Stratum bs) [] =
   concat (map (\<lambda>b. map ((#) (usize_as_i64 (index b))) (visit_prefixes (branch_domain b) [])) bs)"
  unfolding visit_prefixes.simps visit_branch_prefixes_concat
  by (subst visit_prefixes_prepend) (simp add: append_singleton)

lemma product_prefixes_Cons:
  "product_prefixes (n # cs) [] =
   concat (map (\<lambda>i. map ((#) (usize_as_i64 i)) (product_prefixes cs [])) [0..<n])"
  unfolding product_prefixes.simps by (subst product_prefixes_prepend) (simp add: append_singleton)

lemma product_prefixes_mem:
  "list_all (\<lambda>n. n \<le> 2 ^ 63) cs \<Longrightarrow>
   p \<in> set (product_prefixes cs []) \<longleftrightarrow> list_all2 (\<lambda>x n. 0 \<le> x \<and> x < int n) p cs"
proof (induction cs arbitrary: p)
  case (Cons n cs)
  have cast: "usize_as_i64 i = int i" if "i < n" for i
    using Cons.prems that by simp
  show ?case
  proof (cases p)
    case (Cons x xs)
    then show ?thesis
      using Cons.IH [of xs] Cons.prems cast
      by (auto simp: product_prefixes_Cons image_iff simp del: product_prefixes.simps)
        (metis atLeastLessThan_iff le0 nat_less_iff of_nat_less_iff int_nat_eq zero_less_imp_eq_int)+
  qed (auto simp: product_prefixes_Cons simp del: product_prefixes.simps)
qed auto

lemma product_prefixes_sorted:
  "list_all (\<lambda>n. n \<le> 2 ^ 63) cs \<Longrightarrow> sorted_wrt diverge (product_prefixes cs [])"
proof (induction cs)
  case (Cons n cs)
  have "sorted_wrt (\<lambda>i j. usize_as_i64 i < usize_as_i64 j) [0..<n]"
    using Cons.prems by (auto simp: sorted_wrt_iff_nth_less)
  then show ?case
    unfolding product_prefixes_Cons using Cons
    by (intro sorted_wrt_concat) (auto simp: sorted_wrt_map elim!: sorted_wrt_mono_rel [rotated])
qed simp

lemma list_all_take: "list_all P xs \<Longrightarrow> list_all P (take n xs)"
  by (auto simp: list_all_iff dest: in_set_takeD)

lemma visit_prefixes_sorted:
  "visit_validate d False = Inr () \<Longrightarrow> sizes_ok d \<Longrightarrow> sorted_wrt diverge (visit_prefixes d [])"
proof (induction d rule: domain_induct)
  case (Rectangular s cs c)
  then have "list_all (\<lambda>n. n \<le> 2 ^ 63) (take s cs)" by (simp add: list_all_take)
  then show ?case using product_prefixes_sorted by simp
next
  case (Discrete l r bs)
  have v: "\<forall>x \<in> set bs. int (index x) \<le> i64_max" "sorted_wrt (\<lambda>x y. index x < index y) bs"
    using Discrete.prems(1) by (auto simp: validate_Discrete_iff)
  have cast: "usize_as_i64 (index x) = int (index x)" if "x \<in> set bs" for x
    using v(1) that by (intro usize_as_i64_small) (force simp: i64_max_def)
  have IH: "sorted_wrt diverge (visit_prefixes (branch_domain b) [])" if "b \<in> set bs" for b
    using Discrete.IH [of "index b" "branch_domain b"] that Discrete.prems
      validate_branch [OF Discrete.prems(1), of "index b" "branch_domain b"]
      sizes_ok_branch [OF Discrete.prems(2), of "index b" "branch_domain b"] by simp
  have "sorted_wrt (\<lambda>x y. usize_as_i64 (index x) < usize_as_i64 (index y)) bs"
    by (rule sorted_wrt_mono_rel [OF _ v(2)]) (simp add: cast)
  then show ?case
    using IH by (cases r) (auto simp: visit_prefixes_Stratum sorted_wrt_map
        intro!: sorted_wrt_concat elim!: sorted_wrt_mono_rel [rotated] simp del: visit_prefixes.simps(1))
qed

lemma leaf_has_prefix:
  "visit_validate d False = Inr () \<Longrightarrow> sizes_ok d \<Longrightarrow> is_leaf d p c \<Longrightarrow>
   \<exists>q \<in> set (visit_prefixes d []). prefix q p"
proof (induction d arbitrary: p rule: domain_induct)
  case (Rectangular s cs c')
  then have "list_all2 (\<lambda>x n. 0 \<le> x \<and> x < int n) (take s p) (take s cs)"
    by (auto intro: list_all2_takeI)
  moreover have "list_all (\<lambda>n. n \<le> 2 ^ 63) (take s cs)"
    using Rectangular.prems(2) by (simp add: list_all_take)
  ultimately show ?case
    by (auto simp: product_prefixes_mem take_is_prefix intro!: bexI [where x = "take s p"])
next
  case (Discrete l r bs)
  from Discrete.prems(3) obtain i d p' where b: "DomainBranch i d \<in> set bs" "p = int i # p'" "is_leaf d p' c"
    by auto
  have "int i \<le> i64_max"
    using Discrete.prems(1) b(1) by (force simp: validate_Discrete_iff)
  then have i: "usize_as_i64 i = int i" by (intro usize_as_i64_small) (simp add: i64_max_def)
  obtain q where "q \<in> set (visit_prefixes d [])" "prefix q p'"
    using Discrete.IH [OF b(1) _ _ b(3)] validate_branch [OF Discrete.prems(1) b(1)]
      sizes_ok_branch [OF Discrete.prems(2) b(1)] by blast
  then show ?case
    using b i by (cases r) (force simp: visit_prefixes_Stratum simp del: visit_prefixes.simps(1))+
qed

lemma stratum_prefixes_Inr:
  "stratum_prefixes d = Inr ps \<longleftrightarrow> visit_validate d False = Inr () \<and> ps = visit_prefixes d []"
  by (auto simp: stratum_prefixes_def validate_def)

text \<open>The enumeration of the joint strata of a validated domain is strictly increasing in
  the order of \<open>Vec<i64>\<close> and prefix-free: no complete stratum prefix extends another one.\<close>

theorem stratum_prefixes_increasing:
  assumes "stratum_prefixes d = Inr ps" and "sizes_ok d"
  shows "sorted_wrt (\<lambda>x y. x < y \<and> \<not> prefix x y \<and> \<not> prefix y x) ps"
proof -
  have "sorted_wrt diverge ps"
    using assms visit_prefixes_sorted by (auto simp: stratum_prefixes_Inr)
  then show ?thesis
    by (rule sorted_wrt_mono_rel [rotated]) (simp add: diverge_not_prefix, simp add: diverge_def)
qed

text \<open>C37. Every concrete point of a validated domain begins with exactly one of its stratum
  prefixes, so removing the prefix before evaluation is well defined.\<close>

theorem point_has_unique_stratum:
  assumes "stratum_prefixes d = Inr ps" and "sizes_ok d" and "is_leaf d path c"
  shows "\<exists>!q. q \<in> set ps \<and> prefix q path"
proof -
  obtain q where q: "q \<in> set ps" "prefix q path"
    using leaf_has_prefix [OF _ assms(2,3)] assms(1) by (auto simp: stratum_prefixes_Inr)
  have "q' = q" if "q' \<in> set ps" "prefix q' path" for q'
  proof (rule ccontr)
    assume "q' \<noteq> q"
    have "sorted_wrt diverge ps"
      using assms(1,2) visit_prefixes_sorted by (simp add: stratum_prefixes_Inr)
    then have "diverge q q' \<or> diverge q' q"
      by (rule sorted_wrt_distinct_pair) (use q(1) that(1) \<open>q' \<noteq> q\<close> in auto)
    then have "\<not> prefix q q' \<and> \<not> prefix q' q" using diverge_not_prefix by blast
    with q(2) that(2) show False using prefix_same_cases by blast
  qed
  with q show ?thesis by blast
qed

subsection \<open>Attaching the integrand\<close>

lemma wrap_strata_append: "wrap_strata (xs @ ys) g = wrap_strata ys (wrap_strata xs g)"
  by (induction xs arbitrary: g) auto

lemma wrap_strata_prefixes:
  "visit_prefixes g [] = [[]] \<Longrightarrow> visit_prefixes (wrap_strata (rev cs) g) [] = product_prefixes cs []"
  by (induction cs) (simp_all add: wrap_strata_append visit_prefixes_Stratum product_prefixes_Cons
      comp_def del: visit_prefixes.simps(1) product_prefixes.simps(2))

lemma leaf_range_iff:
  "is_leaf (Discrete l r (map (\<lambda>i. DomainBranch i g) [0..<n])) p c \<longleftrightarrow>
   (\<exists>x xs. p = x # xs \<and> 0 \<le> x \<and> x < int n \<and> is_leaf g xs c)" (is "?L \<longleftrightarrow> ?R")
proof
  assume ?L then show ?R by auto
next
  assume ?R
  then obtain x xs where x: "p = x # xs" "0 \<le> x" "x < int n" "is_leaf g xs c" by blast
  then have "DomainBranch (nat x) g \<in> set (map (\<lambda>i. DomainBranch i g) [0..<n])" "x = int (nat x)"
    by auto
  with x(1,4) show ?L by (metis leaf_discrete)
qed

lemma wrap_strata_leaf:
  "is_leaf (wrap_strata (rev cs) g) p c \<longleftrightarrow>
   (\<exists>q r. p = q @ r \<and> list_all2 (\<lambda>x n. 0 \<le> x \<and> x < int n) q cs \<and> is_leaf g r c)"
proof (induction cs arbitrary: p)
  case (Cons n cs)
  have "is_leaf (wrap_strata (rev (n # cs)) g) p c \<longleftrightarrow>
    (\<exists>x xs. p = x # xs \<and> 0 \<le> x \<and> x < int n \<and> is_leaf (wrap_strata (rev cs) g) xs c)"
    by (simp only: rev.simps wrap_strata_append wrap_strata.simps leaf_range_iff)
  also have "\<dots> \<longleftrightarrow> (\<exists>x q r. p = (x # q) @ r \<and> list_all2 (\<lambda>x n. 0 \<le> x \<and> x < int n) (x # q) (n # cs)
      \<and> is_leaf g r c)"
    unfolding Cons.IH by auto
  also have "\<dots> \<longleftrightarrow> (\<exists>q r. p = q @ r \<and> list_all2 (\<lambda>x n. 0 \<le> x \<and> x < int n) q (n # cs) \<and> is_leaf g r c)"
    (is "?L \<longleftrightarrow> ?R")
  proof
    assume ?R
    then obtain q r where "p = q @ r" "list_all2 (\<lambda>x n. 0 \<le> x \<and> x < int n) q (n # cs)" "is_leaf g r c"
      by blast
    then show ?L by (cases q) auto
  qed blast
  finally show ?case .
qed simp

lemma wrap_strata_valid:
  "visit_validate g False = Inr () \<Longrightarrow> 0 \<notin> set cs \<Longrightarrow> list_all (\<lambda>n. n \<le> 2 ^ 63) cs \<Longrightarrow>
   visit_validate (wrap_strata (rev cs) g) False = Inr ()"
proof (induction cs)
  case (Cons n cs)
  then show ?case
    by (auto simp: wrap_strata_append validate_Discrete_iff i64_max_def sorted_wrt_map
        sorted_wrt_iff_nth_less)
qed auto

lemma append_branches_iff:
  "append_branches bs g = Inr bs' \<longleftrightarrow>
   list_all2 (\<lambda>b b'. index b' = index b \<and>
     append_integrand (branch_domain b) g = Inr (branch_domain b')) bs bs'"
proof (induction bs arbitrary: bs')
  case (Cons b bs)
  then show ?case by (cases b; cases bs'; case_tac "hd bs'") auto
qed auto

lemma unstratified_valid:
  assumes "stratum_prefixes g = Inr [[]]"
  shows "visit_validate g True = Inr ()"
proof -
  from assms have v: "visit_validate g False = Inr ()" and p: "visit_prefixes g [] = [[]]"
    by (simp_all add: stratum_prefixes_Inr)
  show ?thesis
  proof (cases g)
    case (Rectangular s cs c)
    have "[] \<notin> set (product_prefixes (a # list) [])" for a list
      by (auto simp: product_prefixes_Cons simp del: product_prefixes.simps(2))
    with p Rectangular have "take s cs = []"
      by (metis list.exhaust list.set_intros(1) visit_prefixes.simps(3))
    with v Rectangular show ?thesis by (auto split: if_splits)
  next
    case (Discrete l r bs)
    with p have "r = Integrand"
    proof (cases r)
      case Stratum
      with p Discrete have "[] \<in> set (visit_prefixes (Discrete l Stratum bs) [])" by simp
      then show ?thesis by (auto simp: visit_prefixes_Stratum simp del: visit_prefixes.simps(1))
    qed simp
    with v Discrete show ?thesis by (simp add: validate_Discrete_iff)
  qed
qed

lemma leaf_branch_iff:
  "is_leaf (Discrete l r bs) p c \<longleftrightarrow>
   (\<exists>b \<in> set bs. \<exists>p'. p = int (index b) # p' \<and> is_leaf (branch_domain b) p' c)"
  by (force simp: Bex_def elim: domain_branch.exhaust)

declare leaf_disc_iff [simp del]

lemma all_branches_iff:
  "(\<forall>i d. DomainBranch i d \<in> set bs \<longrightarrow> P d) \<longleftrightarrow> (\<forall>b \<in> set bs. P (branch_domain b))"
  by (metis domain_branch.collapse domain_branch.sel(2))

lemma validate_Discrete_map:
  "visit_validate (Discrete l Stratum bs) False = Inr () \<longleftrightarrow>
     bs \<noteq> [] \<and> (\<forall>n \<in> set (map index bs). int n \<le> i64_max) \<and> sorted_wrt (<) (map index bs) \<and>
     (\<forall>b \<in> set bs. visit_validate (branch_domain b) False = Inr ())"
  by (simp add: validate_Discrete_iff sorted_wrt_map all_branches_iff)

lemma concat_prefix_split:
  "(\<exists>b \<in> set bs. \<exists>q s. p = (f b # q) @ s \<and> q \<in> set (h b) \<and> P s) \<longleftrightarrow>
   (\<exists>q s. p = q @ s \<and> q \<in> set (concat (map (\<lambda>b. map ((#) (f b)) (h b)) bs)) \<and> P s)"
  (is "?L \<longleftrightarrow> ?R")
proof
  assume ?L
  then obtain b q s where "b \<in> set bs" "p = (f b # q) @ s" "q \<in> set (h b)" "P s" by blast
  then show ?R by (intro exI [of _ "f b # q"] exI [of _ s]) auto
next
  assume ?R
  then obtain q s where "p = q @ s" "q \<in> set (concat (map (\<lambda>b. map ((#) (f b)) (h b)) bs))" "P s"
    by blast
  moreover then obtain b q' where "b \<in> set bs" "q' \<in> set (h b)" "q = f b # q'" by auto
  ultimately show ?L by blast
qed

lemma append_integrand_sound:
  assumes g: "stratum_prefixes g = Inr [[]]"
  shows "append_integrand s g = Inr d \<Longrightarrow> visit_validate s False = Inr () \<Longrightarrow> sizes_ok s \<Longrightarrow>
    visit_validate d False = Inr () \<and> visit_prefixes d [] = visit_prefixes s [] \<and>
    (\<forall>p c. is_leaf d p c \<longleftrightarrow> (\<exists>q r. p = q @ r \<and> q \<in> set (visit_prefixes s []) \<and> is_leaf g r c))"
proof (induction s arbitrary: d rule: domain_induct)
  case (Rectangular k cs c0)
  have gv: "visit_validate g False = Inr ()" "visit_prefixes g [] = [[]]"
    using g by (simp_all add: stratum_prefixes_Inr)
  note outer = Rectangular.prems
  have k: "k = length cs" "c0 = 0" using Rectangular.prems(1) by (auto split: if_splits)
  show ?case
  proof (cases g)
    case (Discrete l r bs)
    with Rectangular k have "d = wrap_strata (rev cs) g" by simp
    then show ?thesis
      using Rectangular.prems k gv wrap_strata_valid [of g cs]
      by (simp add: wrap_strata_prefixes wrap_strata_leaf product_prefixes_mem split: if_splits)
  next
    case (Rectangular s' cs' c')
    then have d: "d = Rectangular k (cs @ cs') c'" using Rectangular.prems(1) k by simp
    have "is_leaf d p c \<longleftrightarrow> (\<exists>q r. p = q @ r \<and>
        list_all2 (\<lambda>x n. 0 \<le> x \<and> x < int n) q cs \<and> is_leaf g r c)" for p c
      by (auto simp: d Rectangular list_all2_append_iff)
    then show ?thesis
      using outer k gv d Rectangular
      by (simp add: product_prefixes_mem split: if_splits)
  qed
next
  case (Discrete l r bs)
  have r: "r = Stratum" using Discrete.prems(1) by (cases r) auto
  with Discrete.prems(1) obtain bs' where d: "d = Discrete l Stratum bs'"
    and bs': "list_all2 (\<lambda>b b'. index b' = index b \<and>
      append_integrand (branch_domain b) g = Inr (branch_domain b')) bs bs'"
    by (auto simp: append_branches_iff)
  define good where "good s d \<longleftrightarrow> visit_validate d False = Inr () \<and>
    visit_prefixes d [] = visit_prefixes s [] \<and>
    (\<forall>p c. is_leaf d p c \<longleftrightarrow> (\<exists>q r. p = q @ r \<and> q \<in> set (visit_prefixes s []) \<and> is_leaf g r c))" for s d
  have "good (branch_domain b) (branch_domain b')"
    if "b \<in> set bs" "append_integrand (branch_domain b) g = Inr (branch_domain b')" for b b'
  proof -
    have b: "DomainBranch (index b) (branch_domain b) \<in> set bs" using that(1) by simp
    show ?thesis
      unfolding good_def
      by (rule Discrete.IH [OF b that(2) validate_branch [OF Discrete.prems(2) b]
            sizes_ok_branch [OF Discrete.prems(3) b]])
  qed
  with bs' have rel: "list_all2 (\<lambda>b b'. index b' = index b \<and> good (branch_domain b) (branch_domain b')) bs bs'"
    by (auto elim!: list.rel_mono_strong)
  have idx: "map index bs' = map index bs"
    by (rule list_all2_map_eq) (use rel in \<open>auto elim!: list.rel_mono_strong\<close>)
  have "visit_validate d False = Inr ()"
    using Discrete.prems(2) idx list_all2_set2 [OF rel]
    unfolding d r validate_Discrete_map by (force simp: good_def)
  moreover have "visit_prefixes d [] = visit_prefixes (Discrete l r bs) []"
    unfolding d r visit_prefixes_Stratum
    by (rule arg_cong [where f = concat], rule list_all2_map_eq)
      (use rel in \<open>auto simp: good_def elim!: list.rel_mono_strong\<close>)
  moreover have "is_leaf d p c \<longleftrightarrow>
      (\<exists>q s. p = q @ s \<and> q \<in> set (visit_prefixes (Discrete l r bs) []) \<and> is_leaf g s c)" for p c
  proof -
    have cast: "usize_as_i64 (index b) = int (index b)" if "b \<in> set bs" for b
      using Discrete.prems(2) that unfolding r validate_Discrete_map
      by (intro usize_as_i64_small) (force simp: i64_max_def)
    have "is_leaf d p c \<longleftrightarrow> (\<exists>b \<in> set bs. \<exists>p'. p = int (index b) # p' \<and>
        (\<exists>q s. p' = q @ s \<and> q \<in> set (visit_prefixes (branch_domain b) []) \<and> is_leaf g s c))"
      unfolding d leaf_branch_iff
      by (rule list_all2_bex_iff, rule list.rel_mono_strong [OF rel]) (simp add: good_def)
    also have "\<dots> \<longleftrightarrow> (\<exists>b \<in> set bs. \<exists>q s. p = (usize_as_i64 (index b) # q) @ s \<and>
        q \<in> set (visit_prefixes (branch_domain b) []) \<and> is_leaf g s c)"
      by (rule bex_cong) (auto simp: cast)
    also have "\<dots> \<longleftrightarrow> (\<exists>q s. p = q @ s \<and> q \<in> set (visit_prefixes (Discrete l r bs) []) \<and> is_leaf g s c)"
      unfolding r visit_prefixes_Stratum by (rule concat_prefix_split)
    finally show ?thesis .
  qed
  ultimately show ?case by blast
qed

text \<open>C38. Attaching an integrand to a stratum-only domain yields a validated domain with exactly
  the same strata, whose leaves are the strata followed by the leaves of the integrand.\<close>

theorem with_integrand_sound:
  assumes "with_integrand self integrand = Inr d" and "sizes_ok self"
  shows "validate d = Inr () \<and> stratum_prefixes d = stratum_prefixes self \<and>
    (\<forall>path c. is_leaf d path c \<longleftrightarrow>
      (\<exists>q r. path = q @ r \<and> q \<in> set (visit_prefixes self []) \<and> is_leaf integrand r c))"
  using assms append_integrand_sound [of integrand self d]
  by (auto simp: with_integrand_def validate_def stratum_prefixes_Inr stratum_prefixes_def
      split: if_splits)

subsection \<open>Fixed-shape queries and partial paths\<close>

lemma all_equal_Some: "all_equal xs = Some x \<longleftrightarrow> xs \<noteq> [] \<and> (\<forall>y \<in> set xs. y = Some x)"
proof (induction xs rule: all_equal.induct)
  case (3 y rest)
  then show ?case by (auto simp: list_all_iff)
qed auto

lemma branch_case: "(case b of DomainBranch i d \<Rightarrow> f d) = f (branch_domain b)"
  by (cases b) simp

lemma leaf_exists: "visit_validate d False = Inr () \<Longrightarrow> \<exists>p c. is_leaf d p c"
proof (induction d rule: domain_induct)
  case (Rectangular s cs c)
  then have "list_all2 (\<lambda>x n. 0 \<le> x \<and> x < int n) (map (\<lambda>_. 0) cs) cs"
    by (auto simp: list_all2_conv_all_nth set_conv_nth split: if_splits)
  then show ?case by auto
next
  case (Discrete l r bs)
  then have b: "hd bs \<in> set bs" by (simp add: validate_Discrete_iff)
  define b where "b = hd bs"
  with b have b: "b \<in> set bs" by simp
  then have "\<exists>p c. is_leaf (branch_domain b) p c"
    using Discrete.IH [of "index b" "branch_domain b"]
      validate_branch [OF Discrete.prems, of "index b" "branch_domain b"] by simp
  with b show ?case by (auto simp: leaf_branch_iff)
qed

lemma fixed_query_iff:
  assumes v: "visit_validate (Discrete l r bs) False = Inr ()"
    and IH: "\<And>b. b \<in> set bs \<Longrightarrow> q (branch_domain b) = Some v \<longleftrightarrow>
      (\<forall>p c. is_leaf (branch_domain b) p c \<longrightarrow> m p c = v)"
  shows "all_equal (map (\<lambda>b. case b of DomainBranch _ d \<Rightarrow> q d) bs) = Some v \<longleftrightarrow>
    (\<forall>b \<in> set bs. \<forall>p c. is_leaf (branch_domain b) p c \<longrightarrow> m p c = v)"
  using v IH by (auto simp: all_equal_Some branch_case validate_Discrete_iff)

lemma fixed_continuous_dims_iff:
  "visit_validate d False = Inr () \<Longrightarrow>
   fixed_continuous_dims d = Some c \<longleftrightarrow> (\<forall>p c'. is_leaf d p c' \<longrightarrow> c' = c)"
proof (induction d rule: domain_induct)
  case (Rectangular s cs c')
  then show ?case using leaf_exists [OF Rectangular] by auto
next
  case (Discrete l r bs)
  have "fixed_continuous_dims (branch_domain b) = Some c \<longleftrightarrow>
      (\<forall>p c'. is_leaf (branch_domain b) p c' \<longrightarrow> c' = c)" if "b \<in> set bs" for b
    using Discrete.IH [of "index b" "branch_domain b"] that
      validate_branch [OF Discrete.prems, of "index b" "branch_domain b"] by simp
  note q = fixed_query_iff [of l r bs fixed_continuous_dims c "\<lambda>p c. c", OF Discrete.prems this]
  have "bs \<noteq> []" using Discrete.prems by (simp add: validate_Discrete_iff)
  then have "fixed_continuous_dims (Discrete l r bs) = Some c \<longleftrightarrow>
      (\<forall>b \<in> set bs. \<forall>p c'. is_leaf (branch_domain b) p c' \<longrightarrow> c' = c)"
    using q by simp
  also have "\<dots> \<longleftrightarrow> (\<forall>p c'. is_leaf (Discrete l r bs) p c' \<longrightarrow> c' = c)"
    unfolding leaf_branch_iff by blast
  finally show ?case .
qed

lemma fixed_discrete_depth_iff:
  "visit_validate d False = Inr () \<Longrightarrow>
   fixed_discrete_depth d = Some k \<longleftrightarrow> (\<forall>p c. is_leaf d p c \<longrightarrow> length p = k)"
proof (induction d arbitrary: k rule: domain_induct)
  case (Rectangular s cs c')
  then show ?case
    using leaf_exists [OF Rectangular] by (simp, metis (no_types, lifting) list_all2_lengthD)
next
  case (Discrete l r bs)
  have IH: "fixed_discrete_depth (branch_domain b) = Some k \<longleftrightarrow>
      (\<forall>p c. is_leaf (branch_domain b) p c \<longrightarrow> length p = k)" if "b \<in> set bs" for b k
    using Discrete.IH [of "index b" "branch_domain b"] that
      validate_branch [OF Discrete.prems, of "index b" "branch_domain b"] by simp
  have ne: "bs \<noteq> []" using Discrete.prems by (simp add: validate_Discrete_iff)
  note q = fixed_query_iff [of l r bs fixed_discrete_depth _ "\<lambda>p c. length p", OF Discrete.prems IH]
  show ?case
  proof (cases k)
    case 0
    then show ?thesis
      using ne leaf_exists [OF Discrete.prems] by (auto simp: leaf_branch_iff)
  next
    case (Suc k')
    then have "fixed_discrete_depth (Discrete l r bs) = Some k \<longleftrightarrow>
        all_equal (map (\<lambda>b. case b of DomainBranch _ d \<Rightarrow> fixed_discrete_depth d) bs) = Some k'"
      using ne by auto
    also have "\<dots> \<longleftrightarrow> (\<forall>b \<in> set bs. \<forall>p c. is_leaf (branch_domain b) p c \<longrightarrow> length p = k')"
      by (rule q) auto
    also have "\<dots> \<longleftrightarrow> (\<forall>p c. is_leaf (Discrete l r bs) p c \<longrightarrow> length p = k)"
      using Suc by (fastforce simp: leaf_branch_iff)
    finally show ?thesis .
  qed
qed

text \<open>The homogeneous-shape query is exact: a validated domain reports the rectangular shape
  \<open>(c, k)\<close> if and only if every one of its leaves lies at discrete depth \<open>k\<close> and carries
  \<open>c\<close> continuous coordinates.\<close>

theorem fixed_rectangular_dims_iff:
  assumes "validate d = Inr ()"
  shows "fixed_rectangular_dims d = Some (c, k) \<longleftrightarrow>
    (\<forall>path c'. is_leaf d path c' \<longrightarrow> length path = k \<and> c' = c)"
proof -
  have v: "visit_validate d False = Inr ()" using assms by (simp add: validate_def)
  have "fixed_rectangular_dims d = Some (c, k) \<longleftrightarrow>
      fixed_continuous_dims d = Some c \<and> fixed_discrete_depth d = Some k"
    by (auto simp: fixed_rectangular_dims_def split: option.splits)
  also have "\<dots> \<longleftrightarrow> (\<forall>path c'. is_leaf d path c' \<longrightarrow> length path = k \<and> c' = c)"
    using fixed_continuous_dims_iff [OF v] fixed_discrete_depth_iff [OF v] by blast
  finally show ?thesis .
qed

text \<open>A discrete path that stops early determines the width of everything below it: when
  the partial lookup answers \<open>c\<close>, every leaf that extends the path carries \<open>c\<close> coordinates.\<close>

theorem partial_path_determines_width:
  assumes "validate d = Inr ()"
    and "continuous_dims_at_discrete_path d path = Inr c"
    and "is_leaf d (path @ rest) c'"
  shows "c' = c"
  using assms unfolding validate_def
proof (induction d path rule: continuous_dims_at_discrete_path.induct)
  case (1 d)
  then show ?case using fixed_continuous_dims_iff by auto
next
  case (3 l r bs x xs)
  then obtain e where e: "find_branch bs x = Inr e" "continuous_dims_at_discrete_path e xs = Inr c"
    by auto
  have s: "sorted_wrt (\<lambda>x y. index x < index y) bs" using "3.prems"(1) by (simp add: validate_Discrete_iff)
  from e(1) have b: "0 \<le> x" "DomainBranch (nat x) e \<in> set bs" by (simp_all add: find_branch_iff [OF s])
  from "3.prems"(3) obtain b' where b': "b' \<in> set bs" "x = int (index b')"
      "is_leaf (branch_domain b') (xs @ rest) c'"
    by (auto simp: leaf_branch_iff)
  have "b' = DomainBranch (nat x) e"
    by (rule sorted_index_inj [OF s b'(1) b(2)]) (simp add: b'(2))
  then have "branch_domain b' = e" by (simp only: domain_branch.sel)
  with b'(3) have "is_leaf e (xs @ rest) c'" by (simp only:)
  then show ?case
    using "3.IH" [OF validate_branch [OF "3.prems"(1) b(2)] e(2)] by blast
next
  case (2 s cs c0 x xs)
  then have "c = c0" by (simp split: if_splits)
  moreover have "c' = c0" using "2.prems"(3) by simp
  ultimately show ?case by simp
qed

subsection \<open>Concrete inputs\<close>

definition demo_domain :: domain where
  "demo_domain = Discrete (Some ''channel'') Stratum
     [DomainBranch 0 (Rectangular 0 [] 2), DomainBranch 3 (Rectangular 1 [2] 2)]"

lemma demo_domain_valid: "validate demo_domain = Inr ()"
  by (simp add: demo_domain_def validate_def i64_max_def visit_validate.simps(2))

lemma demo_domain_prefixes: "stratum_prefixes demo_domain = Inr [[0], [3, 0], [3, 1]]"
  by (simp add: stratum_prefixes_def demo_domain_valid) (simp add: demo_domain_def upt_rec)

lemma demo_domain_sizes: "sizes_ok demo_domain"
  by (simp add: demo_domain_def)

lemma demo_domain_leaf: "is_leaf demo_domain [3, 1] 2"
  by (simp add: demo_domain_def leaf_disc_iff)

lemma leaf_lookup_iff_witness:
  "continuous_dims_at_leaf_path demo_domain [3, 1] = Inr 2 \<longleftrightarrow> is_leaf demo_domain [3, 1] 2"
  by (rule leaf_lookup_iff [OF demo_domain_valid])

lemma stratum_prefixes_increasing_witness:
  "sorted_wrt (\<lambda>x y. x < y \<and> \<not> prefix x y \<and> \<not> prefix y x) [[0], [3, 0], [3, 1 :: i64]]"
  by (rule stratum_prefixes_increasing [OF demo_domain_prefixes demo_domain_sizes])

lemma point_has_unique_stratum_witness: "\<exists>!q. q \<in> set [[0], [3, 0], [3, 1 :: i64]] \<and> prefix q [3, 1]"
  by (rule point_has_unique_stratum [OF demo_domain_prefixes demo_domain_sizes demo_domain_leaf])

definition demo_strata :: domain where
  "demo_strata = Discrete None Stratum [DomainBranch 0 (Rectangular 1 [2] 0), DomainBranch 3 (Rectangular 0 [] 0)]"

definition demo_integrand :: domain where
  "demo_integrand = Rectangular 0 [4] 2"

lemma with_integrand_sound_witness:
  "validate (Discrete None Stratum [DomainBranch 0 (Rectangular 1 [2, 4] 2), DomainBranch 3 (Rectangular 0 [4] 2)]) = Inr ()"
proof -
  have "with_integrand demo_strata demo_integrand =
      Inr (Discrete None Stratum [DomainBranch 0 (Rectangular 1 [2, 4] 2), DomainBranch 3 (Rectangular 0 [4] 2)])"
    by (simp add: with_integrand_def stratum_prefixes_def validate_def demo_strata_def demo_integrand_def
        i64_max_def upt_rec visit_validate.simps(2))
  moreover have "sizes_ok demo_strata" by (simp add: demo_strata_def)
  ultimately show ?thesis using with_integrand_sound by blast
qed

lemma fixed_rectangular_dims_iff_witness: "fixed_rectangular_dims demo_domain \<noteq> Some (2, 1)"
proof
  assume "fixed_rectangular_dims demo_domain = Some (2, 1)"
  then have "length [3, 1 :: i64] = 1"
    using fixed_rectangular_dims_iff [OF demo_domain_valid, of 2 1] demo_domain_leaf by blast
  then show False by simp
qed

lemma partial_path_determines_width_witness: "(2 :: nat) = 2 \<and> continuous_dims_at_discrete_path demo_domain [3] = Inr 2"
proof -
  have p: "continuous_dims_at_discrete_path demo_domain [3] = Inr 2"
    by (simp add: demo_domain_def find_branch_def usize_try_from_def usize_max_def)
  have "is_leaf demo_domain ([3] @ [1]) 2" using demo_domain_leaf by simp
  from partial_path_determines_width [OF demo_domain_valid p this] p show ?thesis by simp
qed

end
