(* ===== verification/F64.thy ===== *)
theory F64
  imports Complex_Main Prelude "HOL-Library.Log_Nat"
begin

section \<open>Double-precision numbers\<close>

text \<open>
  Rust's \<open>f64\<close>: IEEE 754 binary64 with rounding to nearest, ties to even, over exact
  rationals. A finite number carries its sign bit and its magnitude, so that the two
  zeros are different values that compare equal. Every arithmetic operation is the
  exact rational operation followed by one rounding, and is executable.

  Library functions whose result the language does not fix to the last bit
  (\<open>powf\<close>, \<open>hypot\<close>) are parameters of the definitions that use them.
\<close>

datatype f64 = F_NaN | F_Inf bool | F_Num bool rat

text \<open>The exponent \<open>e\<close> with \<open>2^e \<le> m < 2^(e+1)\<close>, for a positive magnitude.\<close>

definition floor_log2 :: "rat \<Rightarrow> int" where
  "floor_log2 m =
     (let (n, d) = quotient_of m; b = bitlen n - bitlen d
      in if 2 powi b \<le> m then b else b - 1)"

definition round_half_even :: "rat \<Rightarrow> int" where
  "round_half_even x =
     (let f = \<lfloor>x\<rfloor>; r = x - of_int f
      in if r < 1 / 2 then f else if 1 / 2 < r then f + 1 else if even f then f else f + 1)"

definition f64_round :: "bool \<Rightarrow> rat \<Rightarrow> f64" where
  "f64_round s m =
     (if m = 0 then F_Num s 0
      else let q = max (floor_log2 m - 52) (- 1074);
               m' = of_int (round_half_even (m / 2 powi q)) * 2 powi q
           in if 2 ^ 1024 \<le> m' then F_Inf s else F_Num s m')"

definition f64_signed :: "bool \<Rightarrow> rat \<Rightarrow> rat" where
  "f64_signed s m = (if s then - m else m)"

definition f64_of_rat :: "rat \<Rightarrow> f64" where
  "f64_of_rat r = f64_round (r < 0) \<bar>r\<bar>"

definition f64_of_nat :: "nat \<Rightarrow> f64" where
  "f64_of_nat n = f64_of_rat (of_nat n)"

definition f64_zero :: f64 where "f64_zero = F_Num False 0"
definition f64_one :: f64 where "f64_one = F_Num False 1"
definition f64_infinity :: f64 where "f64_infinity = F_Inf False"

fun f64_is_finite :: "f64 \<Rightarrow> bool" where
  "f64_is_finite (F_Num _ _) = True"
| "f64_is_finite _ = False"

fun f64_neg :: "f64 \<Rightarrow> f64" where
  "f64_neg F_NaN = F_NaN"
| "f64_neg (F_Inf s) = F_Inf (\<not> s)"
| "f64_neg (F_Num s m) = F_Num (\<not> s) m"

fun f64_abs :: "f64 \<Rightarrow> f64" where
  "f64_abs F_NaN = F_NaN"
| "f64_abs (F_Inf _) = F_Inf False"
| "f64_abs (F_Num _ m) = F_Num False m"

fun f64_add :: "f64 \<Rightarrow> f64 \<Rightarrow> f64" where
  "f64_add F_NaN _ = F_NaN"
| "f64_add _ F_NaN = F_NaN"
| "f64_add (F_Inf s) (F_Inf t) = (if s = t then F_Inf s else F_NaN)"
| "f64_add (F_Inf s) (F_Num _ _) = F_Inf s"
| "f64_add (F_Num _ _) (F_Inf t) = F_Inf t"
| "f64_add (F_Num s m) (F_Num t n) =
     (let r = f64_signed s m + f64_signed t n
      in if r = 0 then F_Num (s \<and> t) 0 else f64_of_rat r)"

definition f64_sub :: "f64 \<Rightarrow> f64 \<Rightarrow> f64" where
  "f64_sub a b = f64_add a (f64_neg b)"

fun f64_mul :: "f64 \<Rightarrow> f64 \<Rightarrow> f64" where
  "f64_mul F_NaN _ = F_NaN"
| "f64_mul _ F_NaN = F_NaN"
| "f64_mul (F_Inf s) (F_Inf t) = F_Inf (s \<noteq> t)"
| "f64_mul (F_Inf s) (F_Num t n) = (if n = 0 then F_NaN else F_Inf (s \<noteq> t))"
| "f64_mul (F_Num s m) (F_Inf t) = (if m = 0 then F_NaN else F_Inf (s \<noteq> t))"
| "f64_mul (F_Num s m) (F_Num t n) = f64_round (s \<noteq> t) (m * n)"

fun f64_div :: "f64 \<Rightarrow> f64 \<Rightarrow> f64" where
  "f64_div F_NaN _ = F_NaN"
| "f64_div _ F_NaN = F_NaN"
| "f64_div (F_Inf _) (F_Inf _) = F_NaN"
| "f64_div (F_Inf s) (F_Num t _) = F_Inf (s \<noteq> t)"
| "f64_div (F_Num s _) (F_Inf t) = F_Num (s \<noteq> t) 0"
| "f64_div (F_Num s m) (F_Num t n) =
     (if n = 0 then (if m = 0 then F_NaN else F_Inf (s \<noteq> t))
      else f64_round (s \<noteq> t) (m / n))"

text \<open>Comparisons; every comparison with a NaN is false.\<close>

fun f64_lt :: "f64 \<Rightarrow> f64 \<Rightarrow> bool" where
  "f64_lt F_NaN _ = False"
| "f64_lt _ F_NaN = False"
| "f64_lt (F_Inf s) (F_Inf t) = (s \<and> \<not> t)"
| "f64_lt (F_Inf s) (F_Num _ _) = s"
| "f64_lt (F_Num _ _) (F_Inf t) = (\<not> t)"
| "f64_lt (F_Num s m) (F_Num t n) = (f64_signed s m < f64_signed t n)"

fun f64_eq :: "f64 \<Rightarrow> f64 \<Rightarrow> bool" where
  "f64_eq F_NaN _ = False"
| "f64_eq _ F_NaN = False"
| "f64_eq (F_Inf s) (F_Inf t) = (s = t)"
| "f64_eq (F_Inf _) (F_Num _ _) = False"
| "f64_eq (F_Num _ _) (F_Inf _) = False"
| "f64_eq (F_Num s m) (F_Num t n) = (f64_signed s m = f64_signed t n)"

definition f64_le :: "f64 \<Rightarrow> f64 \<Rightarrow> bool" where
  "f64_le a b \<longleftrightarrow> f64_lt a b \<or> f64_eq a b"

text \<open>\<open>f64::max\<close> ignores a NaN operand; \<open>clamp\<close> keeps it.\<close>

definition f64_max :: "f64 \<Rightarrow> f64 \<Rightarrow> f64" where
  "f64_max a b = (if a = F_NaN then b else if b = F_NaN then a else if f64_lt a b then b else a)"

definition f64_min :: "f64 \<Rightarrow> f64 \<Rightarrow> f64" where
  "f64_min a b = (if a = F_NaN then b else if b = F_NaN then a else if f64_lt b a then b else a)"

definition f64_clamp :: "f64 \<Rightarrow> f64 \<Rightarrow> f64 \<Rightarrow> f64" where
  "f64_clamp lo hi x = (if f64_lt x lo then lo else if f64_lt hi x then hi else x)"

text \<open>\<open>x.round()\<close>: to the nearest integer, halves away from zero.\<close>

fun f64_round_int :: "f64 \<Rightarrow> f64" where
  "f64_round_int (F_Num s m) = F_Num s (of_int \<lfloor>m + 1 / 2\<rfloor>)"
| "f64_round_int x = x"

text \<open>\<open>x as usize\<close>: truncation, saturating at the ends, zero for a NaN.\<close>

fun f64_as_usize :: "f64 \<Rightarrow> usize" where
  "f64_as_usize F_NaN = 0"
| "f64_as_usize (F_Inf s) = (if s then 0 else usize_max)"
| "f64_as_usize (F_Num s m) = (if s then 0 else min (nat \<lfloor>m\<rfloor>) usize_max)"

text \<open>Product and sum of an iterator, from the left.\<close>

definition f64_product :: "f64 list \<Rightarrow> f64" where
  "f64_product xs = foldl f64_mul f64_one xs"

text \<open>The sum starts at negative zero, the neutral element of addition.\<close>

definition f64_sum :: "f64 list \<Rightarrow> f64" where
  "f64_sum xs = foldl f64_add (F_Num True 0) xs"

subsection \<open>Laws\<close>

lemma f64_lt_irrefl [simp]: "\<not> f64_lt a a"
  by (cases a) auto

lemma f64_lt_trans: "f64_lt a b \<Longrightarrow> f64_lt b c \<Longrightarrow> f64_lt a c"
  by (cases a; cases b; cases c) auto

lemma f64_lt_le_trans: "f64_lt a b \<Longrightarrow> f64_le b c \<Longrightarrow> f64_lt a c"
  by (cases a; cases b; cases c) (auto simp: f64_le_def)

lemma f64_le_lt_trans: "f64_le a b \<Longrightarrow> f64_lt b c \<Longrightarrow> f64_lt a c"
  by (cases a; cases b; cases c) (auto simp: f64_le_def)

lemma f64_le_trans: "f64_le a b \<Longrightarrow> f64_le b c \<Longrightarrow> f64_le a c"
  by (cases a; cases b; cases c) (auto simp: f64_le_def)

lemma f64_le_refl: "f64_le a a \<longleftrightarrow> a \<noteq> F_NaN"
  by (cases a) (auto simp: f64_le_def)

lemma f64_not_lt: "a \<noteq> F_NaN \<Longrightarrow> b \<noteq> F_NaN \<Longrightarrow> \<not> f64_lt a b \<longleftrightarrow> f64_le b a"
  by (cases a; cases b) (auto simp: f64_le_def)

lemma f64_finite_not_NaN: "f64_is_finite x \<Longrightarrow> x \<noteq> F_NaN"
  by (cases x) auto

lemma f64_abs_NaN [simp]: "f64_abs x = F_NaN \<longleftrightarrow> x = F_NaN"
  by (cases x) auto

lemma f64_is_finite_zero [simp]: "f64_is_finite f64_zero"
  by (simp add: f64_zero_def)

lemma f64_as_usize_bound: "f64_as_usize x \<le> usize_max"
  by (cases x) auto

lemma round_half_even_of_int [simp]: "round_half_even (of_int k) = k"
  by (simp add: round_half_even_def)

lemma bitlen_1: "bitlen 1 = 1"
  by (simp add: bitlen_def floorlog_def)

lemma bitlen_le_of_lt: "0 < n \<Longrightarrow> n < 2 ^ k \<Longrightarrow> bitlen (int n) \<le> int k"
  by (simp add: bitlen_le_iff_power)

text \<open>Integers below \<open>2^53\<close> are exact, so counts of samples and batches convert losslessly.\<close>

lemma f64_round_nat:
  assumes "n < 2 ^ 53"
  shows "f64_round s (of_nat n) = F_Num s (of_nat n)"
proof (cases "n = 0")
  case False
  define q where "q = max (floor_log2 (of_nat n) - 52) (- 1074)"
  have "quotient_of (of_nat n) = (int n, 1)"
    using quotient_of_int [of "int n"] by (simp add: of_int_of_nat_eq flip: Rat.of_int_def)
  then have "floor_log2 (of_nat n) \<le> bitlen (int n) - 1"
    by (simp add: floor_log2_def Let_def bitlen_1)
  also have "bitlen (int n) \<le> 53" using bitlen_le_of_lt [of n 53] assms False by simp
  finally have q: "q \<le> 0" by (simp add: q_def)
  define j where "j = nat (- q)"
  have j: "(2 :: rat) powi q = inverse (2 ^ j)" using q by (simp add: power_int_def j_def power_one_over inverse_eq_divide)
  have "(of_nat n :: rat) / 2 powi q = of_int (int n * 2 ^ j)"
    by (simp add: j divide_inverse)
  then have "of_int (round_half_even (of_nat n / 2 powi q)) * (2 :: rat) powi q = of_nat n"
    by (simp only: round_half_even_of_int) (simp add: j)
  moreover have "(of_nat n :: rat) < 2 ^ 1024"
  proof -
    have "(of_nat n :: rat) < of_nat (2 ^ 53)" using assms by (simp only: of_nat_less_iff)
    also have "\<dots> \<le> 2 ^ 1024" by simp
    finally show ?thesis .
  qed
  ultimately show ?thesis
    using False by (simp add: f64_round_def q_def [symmetric] Let_def)
qed (simp add: f64_round_def)

lemma f64_of_nat_exact: "n < 2 ^ 53 \<Longrightarrow> f64_of_nat n = F_Num False (of_nat n)"
  by (simp add: f64_of_nat_def f64_of_rat_def f64_round_nat)

text \<open>Evaluation of arithmetic on small integers.\<close>

lemma f64_round_0 [simp]: "f64_round s 0 = F_Num s 0"
  by (simp add: f64_round_def)

lemma f64_round_1 [simp]: "f64_round s 1 = F_Num s 1"
  using f64_round_nat [of 1 s] by simp

lemma f64_round_numeral [simp]:
  "(numeral k :: nat) < 2 ^ 53 \<Longrightarrow> f64_round s (numeral k) = F_Num s (numeral k)"
  using f64_round_nat [of "numeral k" s] by simp

lemmas f64_eval = f64_of_rat_def f64_sub_def f64_signed_def f64_zero_def f64_one_def
  f64_infinity_def f64_le_def f64_product_def f64_sum_def

end
