(* ===== verification/Sample_Batch.thy ===== *)
theory Sample_Batch
  imports F64 Errors
begin

section \<open>Concrete points and batches\<close>

text \<open>
  The evaluator-side data of \<open>src/evaluation/batch.rs\<close>: points with labelled weight
  factors, batches, and the contribution extrema a batch reports. The extrema are an
  online maximum; the laws say that merging the extrema of two partial runs gives
  exactly the extrema of the whole run, ties included.
\<close>

record weight_factor =
  label :: string
  factor :: f64

record point =
  point_continuous :: "f64 list"
  point_discrete :: "i64 list"
  weight_factors :: "weight_factor list"

record sample_evaluation =
  integrand_value_re :: f64
  integrand_value_im :: f64
  parameterization_jacobian :: "f64 option"

record diagnostic_stratum =
  stratum_requested :: "i64 list"
  stratum_actual :: "i64 list"

record diagnostic_sample =
  sample_point :: point
  sample_eval :: "sample_evaluation option"
  sample_stratum :: "diagnostic_stratum option"

definition weight_factor_new :: "string \<Rightarrow> f64 \<Rightarrow> weight_factor" where
  "weight_factor_new l v = \<lparr>label = l, factor = v\<rparr>"

definition point_new :: "f64 list \<Rightarrow> i64 list \<Rightarrow> f64 \<Rightarrow> point" where
  "point_new continuous_coords discrete_coords sampler_weight =
     \<lparr>point_continuous = continuous_coords, point_discrete = discrete_coords,
      weight_factors = [weight_factor_new ''sampler_weight'' sampler_weight]\<rparr>"

definition total_weight :: "point \<Rightarrow> f64" where
  "total_weight p = f64_product (map factor (weight_factors p))"

definition add_weight_factor :: "point \<Rightarrow> string \<Rightarrow> f64 \<Rightarrow> point" where
  "add_weight_factor p l v =
     p\<lparr>weight_factors := weight_factors p @ [weight_factor_new l v]\<rparr>"

definition factor_value :: "point \<Rightarrow> string \<Rightarrow> f64 option" where
  "factor_value p l = map_option factor (find (\<lambda>f. label f = l) (weight_factors p))"

fun factor_product_loop :: "(string \<Rightarrow> bool) \<Rightarrow> weight_factor list \<Rightarrow> f64 \<Rightarrow> bool \<Rightarrow> f64 option" where
  "factor_product_loop predicate [] product matched = (if matched then Some product else None)"
| "factor_product_loop predicate (f # fs) product matched =
     (if predicate (label f) then factor_product_loop predicate fs (f64_mul product (factor f)) True
      else factor_product_loop predicate fs product matched)"

definition factor_product_matching :: "point \<Rightarrow> (string \<Rightarrow> bool) \<Rightarrow> f64 option" where
  "factor_product_matching p predicate =
     factor_product_loop predicate (weight_factors p) f64_one False"

definition diagnostic_sample_new ::
  "point \<Rightarrow> sample_evaluation option \<Rightarrow> (i64 list \<times> i64 list) option \<Rightarrow> diagnostic_sample" where
  "diagnostic_sample_new p evaluation stratum =
     \<lparr>sample_point = p, sample_eval = evaluation,
      sample_stratum = map_option
        (\<lambda>(requested, actual). \<lparr>stratum_requested = requested, stratum_actual = actual\<rparr>) stratum\<rparr>"

subsection \<open>Contribution extrema\<close>

record contribution_extrema =
  positive :: "(f64 \<times> diagnostic_sample) option"
  negative :: "(f64 \<times> diagnostic_sample) option"

definition extrema_default :: contribution_extrema where
  "extrema_default = \<lparr>positive = None, negative = None\<rparr>"

text \<open>\<open>slot.is_none_or(|(previous, _)| value.abs() > previous.abs())\<close>.\<close>

definition beats :: "f64 \<Rightarrow> (f64 \<times> diagnostic_sample) option \<Rightarrow> bool" where
  "beats v slot = (case slot of None \<Rightarrow> True | Some (previous, _) \<Rightarrow> f64_lt (f64_abs previous) (f64_abs v))"

definition extrema_observe ::
  "contribution_extrema \<Rightarrow> f64 \<Rightarrow> point \<Rightarrow> i64 list \<times> i64 list \<Rightarrow> contribution_extrema" where
  "extrema_observe e v p stratum =
     (if f64_le f64_zero v then
        (if beats v (positive e)
         then e\<lparr>positive := Some (v, diagnostic_sample_new p None (Some stratum))\<rparr> else e)
      else
        (if beats v (negative e)
         then e\<lparr>negative := Some (v, diagnostic_sample_new p None (Some stratum))\<rparr> else e))"

definition merge_slot ::
  "(f64 \<times> diagnostic_sample) option \<Rightarrow> (f64 \<times> diagnostic_sample) option
    \<Rightarrow> (f64 \<times> diagnostic_sample) option" where
  "merge_slot left right =
     (case right of None \<Rightarrow> left | Some (v, s) \<Rightarrow> if beats v left then Some (v, s) else left)"

definition extrema_merge ::
  "contribution_extrema \<Rightarrow> contribution_extrema \<Rightarrow> contribution_extrema" where
  "extrema_merge e other =
     e\<lparr>positive := merge_slot (positive e) (positive other),
       negative := merge_slot (negative e) (negative other)\<rparr>"

subsection \<open>Laws of the extrema\<close>

type_synonym observation = "f64 \<times> point \<times> (i64 list \<times> i64 list)"

definition observe_all :: "contribution_extrema \<Rightarrow> observation list \<Rightarrow> contribution_extrema" where
  "observe_all e obs = foldl (\<lambda>e (v, p, s). extrema_observe e v p s) e obs"

text \<open>The slot one observation occupies when nothing was seen before.\<close>

definition single :: "observation \<Rightarrow> contribution_extrema" where
  "single ob = (case ob of (v, p, s) \<Rightarrow> extrema_observe extrema_default v p s)"

lemma observe_as_merge: "extrema_observe e v p s = extrema_merge e (single (v, p, s))"
  by (cases e) (auto simp: extrema_observe_def extrema_merge_def single_def extrema_default_def
      merge_slot_def beats_def)

definition slot_ok :: "(f64 \<times> diagnostic_sample) option \<Rightarrow> bool" where
  "slot_ok slot = (case slot of None \<Rightarrow> True | Some (v, _) \<Rightarrow> v \<noteq> F_NaN)"

definition extrema_ok :: "contribution_extrema \<Rightarrow> bool" where
  "extrema_ok e \<longleftrightarrow> slot_ok (positive e) \<and> slot_ok (negative e)"

lemma merge_slot_assoc:
  assumes "slot_ok a" "slot_ok b" "slot_ok c"
  shows "merge_slot (merge_slot a b) c = merge_slot a (merge_slot b c)"
proof (cases b; cases c)
  fix y z
  assume b: "b = Some y" and c: "c = Some z"
  show ?thesis
  proof (cases a)
    case None
    with b c show ?thesis by (cases y; cases z) (auto simp: merge_slot_def beats_def)
  next
    case (Some x)
    obtain vx sx vy sy vz sz where xyz: "x = (vx, sx)" "y = (vy, sy)" "z = (vz, sz)"
      by (metis prod.exhaust)
    let ?lt = "\<lambda>u w. f64_lt (f64_abs u) (f64_abs w)"
    have nn: "vx \<noteq> F_NaN" "vy \<noteq> F_NaN" "vz \<noteq> F_NaN"
      using assms Some b c xyz by (auto simp: slot_ok_def)
    have 1: "?lt vx vy \<Longrightarrow> ?lt vy vz \<Longrightarrow> ?lt vx vz" by (rule f64_lt_trans)
    have 2: "\<not> ?lt vx vy \<Longrightarrow> \<not> ?lt vy vz \<Longrightarrow> \<not> ?lt vx vz"
      using nn f64_not_lt f64_le_trans by (metis f64_abs_NaN)
    show ?thesis using 1 2 by (auto simp: merge_slot_def beats_def Some b c xyz)
  qed
qed (auto simp: merge_slot_def beats_def)

lemma extrema_merge_assoc:
  assumes "extrema_ok a" "extrema_ok b" "extrema_ok c"
  shows "extrema_merge (extrema_merge a b) c = extrema_merge a (extrema_merge b c)"
  using assms merge_slot_assoc by (simp add: extrema_merge_def extrema_ok_def)

lemma extrema_merge_default [simp]:
  "extrema_merge e extrema_default = e" "extrema_merge extrema_default e = e"
  by (cases e; auto simp: extrema_merge_def extrema_default_def merge_slot_def beats_def
      split: option.splits)+

lemma extrema_ok_single: "fst ob \<noteq> F_NaN \<Longrightarrow> extrema_ok (single ob)"
  by (cases ob) (auto simp: single_def extrema_observe_def extrema_ok_def slot_ok_def
      extrema_default_def beats_def)

lemma extrema_ok_merge: "extrema_ok a \<Longrightarrow> extrema_ok b \<Longrightarrow> extrema_ok (extrema_merge a b)"
  by (auto simp: extrema_ok_def extrema_merge_def merge_slot_def slot_ok_def split: option.splits if_splits)

lemma extrema_ok_default [simp]: "extrema_ok extrema_default"
  by (simp add: extrema_ok_def slot_ok_def extrema_default_def)

lemma observe_all_merge:
  assumes "extrema_ok e" "\<forall>ob \<in> set obs. fst ob \<noteq> F_NaN"
  shows "observe_all e obs = extrema_merge e (observe_all extrema_default obs) \<and>
    extrema_ok (observe_all e obs)"
  using assms
proof (induction obs arbitrary: e)
  case (Cons ob obs)
  have s: "extrema_ok (single ob)" using Cons.prems extrema_ok_single by simp
  have step: "observe_all e (ob # obs) = observe_all (extrema_merge e (single ob)) obs" for e
    by (cases ob) (simp add: observe_all_def observe_as_merge)
  have nn: "\<forall>ob \<in> set obs. fst ob \<noteq> F_NaN" using Cons.prems(2) by simp
  note IH = Cons.IH [OF _ nn]
  have es: "extrema_ok (extrema_merge e (single ob))"
    using Cons.prems(1) s by (rule extrema_ok_merge)
  have "observe_all e (ob # obs) =
      extrema_merge (extrema_merge e (single ob)) (observe_all extrema_default obs)"
    unfolding step using IH [OF es] by (rule conjunct1)
  also have "\<dots> = extrema_merge e (extrema_merge (single ob) (observe_all extrema_default obs))"
    using Cons.prems(1) s conjunct2 [OF IH [OF extrema_ok_default]] by (rule extrema_merge_assoc)
  also have "extrema_merge (single ob) (observe_all extrema_default obs) = observe_all (single ob) obs"
    using conjunct1 [OF IH [OF s]] by (rule sym)
  also have "\<dots> = observe_all extrema_default (ob # obs)"
    using step [of extrema_default] by simp
  finally show ?case using conjunct2 [OF IH [OF es]] by (simp only: step simp_thms)
qed (simp add: observe_all_def)

text \<open>Merging the contribution extrema of two batches gives exactly the extrema of observing
  both batches one after the other, including which of several equal contributions is kept.\<close>

theorem extrema_merge_homomorphism:
  assumes "\<forall>ob \<in> set (xs @ ys). fst ob \<noteq> F_NaN"
  shows "observe_all extrema_default (xs @ ys) =
    extrema_merge (observe_all extrema_default xs) (observe_all extrema_default ys)"
proof -
  have "observe_all extrema_default (xs @ ys) = observe_all (observe_all extrema_default xs) ys"
    by (simp add: observe_all_def)
  then show ?thesis
    using conjunct1 [OF observe_all_merge [OF conjunct2 [OF observe_all_merge
        [OF extrema_ok_default, of xs]], of ys]] assms by simp
qed

lemma positive_none_iff:
  "positive (extrema_observe e w p st) = None \<longleftrightarrow> positive e = None \<and> \<not> f64_le f64_zero w"
  by (auto simp: extrema_observe_def beats_def split: option.splits)

lemma positive_observed:
  "(u, q, r) \<in> set obs \<Longrightarrow> f64_le f64_zero u \<Longrightarrow> positive (observe_all extrema_default obs) \<noteq> None"
proof (induction obs rule: rev_induct)
  case (snoc x xs)
  obtain w p st where x: "x = (w, p, st)" by (cases x)
  have "observe_all extrema_default (xs @ [x]) = extrema_observe (observe_all extrema_default xs) w p st"
    by (simp add: observe_all_def x)
  with snoc x show ?case by (auto simp: positive_none_iff)
qed simp

text \<open>The positive extremum is one of the observed non-negative contributions and no observed
  non-negative contribution exceeds it in magnitude.\<close>

theorem positive_extremum_is_maximal:
  assumes "\<forall>ob \<in> set obs. fst ob \<noteq> F_NaN"
    and "positive (observe_all extrema_default obs) = Some (v, s)"
  shows "(\<exists>p st. (v, p, st) \<in> set obs \<and> s = diagnostic_sample_new p None (Some st)) \<and>
    (\<forall>(u, p, st) \<in> set obs. f64_le f64_zero u \<longrightarrow> \<not> f64_lt (f64_abs v) (f64_abs u))"
  using assms
proof (induction obs arbitrary: v s rule: rev_induct)
  case (snoc ob obs)
  obtain w p st where ob: "ob = (w, p, st)" by (cases ob)
  let ?e = "observe_all extrema_default obs"
  have step: "observe_all extrema_default (obs @ [ob]) = extrema_observe ?e w p st"
    by (simp add: observe_all_def ob)
  have nn: "\<forall>ob \<in> set obs. fst ob \<noteq> F_NaN" using snoc.prems(1) by simp
  show ?case
  proof (cases "f64_le f64_zero w \<and> beats w (positive ?e)")
    case True
    then have v: "v = w" "s = diagnostic_sample_new p None (Some st)"
      using snoc.prems(2) by (simp_all add: step extrema_observe_def)
    have "\<not> f64_lt (f64_abs w) (f64_abs u)" if "(u, q, r) \<in> set obs" "f64_le f64_zero u" for u q r
    proof (cases "positive ?e")
      case None
      have "positive ?e \<noteq> None" using that by (rule positive_observed)
      with None show ?thesis by simp
    next
      case (Some y)
      obtain z t where y: "y = (z, t)" by (cases y)
      with Some snoc.IH [OF nn] that have "\<not> f64_lt (f64_abs z) (f64_abs u)" by auto
      moreover have "f64_lt (f64_abs z) (f64_abs w)" using True Some y by (simp add: beats_def)
      ultimately show ?thesis using f64_lt_trans by blast
    qed
    then show ?thesis using v ob by (cases st) auto
  next
    case False
    then have pos: "positive ?e = Some (v, s)"
      using snoc.prems(2) by (auto simp: step extrema_observe_def split: if_splits)
    with False have "f64_le f64_zero w \<Longrightarrow> \<not> f64_lt (f64_abs v) (f64_abs w)" by (simp add: beats_def)
    with snoc.IH [OF nn pos] show ?thesis by (auto simp: ob)
  qed
qed (simp add: observe_all_def extrema_default_def)

subsection \<open>Concrete inputs\<close>

definition demo_point :: "int \<Rightarrow> f64 \<Rightarrow> point" where
  "demo_point k w = point_new [w] (if k = 0 then [] else [k]) w"

lemma extrema_merge_homomorphism_witness:
  "observe_all extrema_default [(F_Num True 2, demo_point 0 f64_one, ([], [])), (F_Num False 3, demo_point 1 f64_one, ([], []))] =
   extrema_merge (observe_all extrema_default [(F_Num True 2, demo_point 0 f64_one, ([], []))])
     (observe_all extrema_default [(F_Num False 3, demo_point 1 f64_one, ([], []))])"
  using extrema_merge_homomorphism [of "[(F_Num True 2, demo_point 0 f64_one, ([], []))]"
      "[(F_Num False 3, demo_point 1 f64_one, ([], []))]"] by simp

lemma positive_extremum_is_maximal_witness:
  "\<not> f64_lt (f64_abs (F_Num False 3)) (f64_abs (F_Num False 2))"
proof -
  have "positive (observe_all extrema_default
      [(F_Num False 2, demo_point 0 f64_one, ([], [])), (F_Num False 3, demo_point 1 f64_one, ([], []))]) =
    Some (F_Num False 3, diagnostic_sample_new (demo_point 1 f64_one) None (Some ([], [])))"
    by (simp add: observe_all_def extrema_observe_def extrema_default_def beats_def f64_le_def f64_zero_def f64_signed_def)
  then show ?thesis
    using positive_extremum_is_maximal by (fastforce simp: f64_le_def f64_zero_def f64_signed_def)
qed

end
