(* ===== verification/Feedback_Values.thy ===== *)
theory Feedback_Values
  imports F64 Errors "HOL-Library.List_Lexorder"
begin

section \<open>Training feedback\<close>

text \<open>
  The feedback of \<open>src/sampling/feedback.rs\<close>: unmasked values with optional stratum
  assignments, its validation, the masked view generic samplers consume, and the
  assembly of evaluator fragments into the feedback of one draw.
\<close>

record stratum_assignments =
  prefixes :: "i64 list list"
  requested :: "usize list"
  actual :: "usize list"

record feedback =
  unmasked_values :: "f64 list"
  strata :: "stratum_assignments option"

definition feedback_default :: feedback where
  "feedback_default = \<lparr>unmasked_values = [], strata = None\<rparr>"

definition feedback_new :: "f64 list \<Rightarrow> feedback" where
  "feedback_new vs = \<lparr>unmasked_values = vs, strata = None\<rparr>"

definition feedback_len :: "feedback \<Rightarrow> usize" where
  "feedback_len f = length (unmasked_values f)"

definition feedback_values :: "feedback \<Rightarrow> f64 list" where
  "feedback_values f =
     (case strata f of
        None \<Rightarrow> unmasked_values f
      | Some s \<Rightarrow> map (\<lambda>((v, r), a). if r = a then v else f64_zero)
                  (zip (zip (unmasked_values f) (requested s)) (actual s)))"

definition prefix_table_ok :: "i64 list list \<Rightarrow> bool" where
  "prefix_table_ok ps \<longleftrightarrow>
     ps \<noteq> [] \<and> \<not> list_ex (\<lambda>p. p = [] \<or> list_ex (\<lambda>v. v < 0) p) ps \<and>
     adjacent (\<lambda>a b. \<not> (a \<ge> b \<or> prefix a b)) ps"

definition feedback_validate :: "feedback \<Rightarrow> engine_error + unit" where
  "feedback_validate f =
     (if list_ex (\<lambda>v. \<not> f64_is_finite v) (unmasked_values f)
      then Inl (Eval ''non-finite training feedback'')
      else case strata f of
        None \<Rightarrow> Inr ()
      | Some s \<Rightarrow>
          if \<not> prefix_table_ok (prefixes s)
             \<or> length (requested s) \<noteq> feedback_len f \<or> length (actual s) \<noteq> feedback_len f
             \<or> list_ex (\<lambda>k. k \<ge> length (prefixes s)) (requested s @ actual s)
          then Inl (Eval ''invalid feedback stratum assignments'') else Inr ())"

definition feedback_append :: "feedback \<Rightarrow> feedback \<Rightarrow> engine_error + feedback" where
  "feedback_append self other =
     and_then (feedback_validate other) (\<lambda>_.
       if feedback_len self = 0 then Inr other
       else case (strata self, strata other) of
         (None, None) \<Rightarrow> Inr (self\<lparr>unmasked_values := unmasked_values self @ unmasked_values other\<rparr>)
       | (Some a, Some b) \<Rightarrow>
           if prefixes a = prefixes b then
             Inr (self\<lparr>unmasked_values := unmasked_values self @ unmasked_values other,
                       strata := Some (a\<lparr>requested := requested a @ requested b,
                                        actual := actual a @ actual b\<rparr>)\<rparr>)
           else Inl (Eval ''inconsistent feedback stratum layout within a draw'')
       | _ \<Rightarrow> Inl (Eval ''inconsistent feedback stratum layout within a draw''))"

definition requested_prefixes :: "stratum_assignments \<Rightarrow> i64 list list" where
  "requested_prefixes s = map (\<lambda>i. prefixes s ! i) (requested s)"

definition actual_prefixes :: "stratum_assignments \<Rightarrow> i64 list list" where
  "actual_prefixes s = map (\<lambda>i. prefixes s ! i) (actual s)"

subsection \<open>Laws\<close>

abbreviation feedback_ok :: "feedback \<Rightarrow> bool" where
  "feedback_ok f \<equiv> feedback_validate f = Inr ()"

lemma feedback_ok_iff:
  "feedback_ok f \<longleftrightarrow> (\<forall>v \<in> set (unmasked_values f). f64_is_finite v) \<and>
     (case strata f of None \<Rightarrow> True | Some s \<Rightarrow>
        prefix_table_ok (prefixes s) \<and> length (requested s) = feedback_len f \<and>
        length (actual s) = feedback_len f \<and>
        (\<forall>k \<in> set (requested s) \<union> set (actual s). k < length (prefixes s)))"
  by (force simp: feedback_validate_def list_ex_iff not_le not_less split: option.splits)

lemma feedback_values_length: "feedback_ok f \<Longrightarrow> length (feedback_values f) = feedback_len f"
  by (auto simp: feedback_ok_iff feedback_values_def feedback_len_def split: option.splits)

lemma feedback_values_nth:
  assumes "feedback_ok f" and "i < feedback_len f" and "strata f = Some s"
  shows "feedback_values f ! i =
    (if requested s ! i = actual s ! i then unmasked_values f ! i else f64_zero)"
  using assms by (auto simp: feedback_ok_iff feedback_values_def feedback_len_def)

lemma feedback_empty_values [simp]: "feedback_len f = 0 \<Longrightarrow> feedback_values f = []"
  by (auto simp: feedback_len_def feedback_values_def split: option.splits)

lemma feedback_default_laws [simp]:
  "feedback_ok feedback_default" "feedback_len feedback_default = 0"
  by (simp_all add: feedback_ok_iff feedback_default_def feedback_len_def)

lemma feedback_append_laws:
  assumes "feedback_append f g = Inr h" and "feedback_ok f"
  shows "feedback_ok h" and "feedback_ok g"
    and "unmasked_values h = unmasked_values f @ unmasked_values g"
    and "feedback_values h = feedback_values f @ feedback_values g"
    and "feedback_len h = feedback_len f + feedback_len g"
proof -
  show g: "feedback_ok g" using assms(1) by (simp add: feedback_append_def)
  note defs = feedback_append_def feedback_ok_iff feedback_len_def feedback_values_def
  show "feedback_ok h" and "unmasked_values h = unmasked_values f @ unmasked_values g"
    and "feedback_values h = feedback_values f @ feedback_values g"
    and "feedback_len h = feedback_len f + feedback_len g"
    using assms g by (auto simp: defs zip_append split: option.splits if_splits)
qed

text \<open>Appending a fragment accepts only a valid fragment and yields valid feedback whose
  unmasked values and whose masked view are both the concatenation of the two parts.\<close>

theorem feedback_append_concatenates:
  assumes "feedback_ok f" and "feedback_append f g = Inr h"
  shows "feedback_ok h \<and> unmasked_values h = unmasked_values f @ unmasked_values g \<and>
    feedback_values h = feedback_values f @ feedback_values g"
  using feedback_append_laws [OF assms(2,1)] by simp

subsection \<open>Concrete inputs\<close>

lemma feedback_append_concatenates_witness:
  "feedback_ok \<lparr>unmasked_values = [f64_one, f64_zero], strata = Some \<lparr>prefixes = [[0], [1]], requested = [0, 1], actual = [0, 0]\<rparr>\<rparr>"
proof -
  let ?s = "\<lambda>r a. Some \<lparr>prefixes = [[0], [1]], requested = [r], actual = [a]\<rparr>"
  let ?f = "\<lparr>unmasked_values = [f64_one], strata = ?s 0 0\<rparr>" and ?g = "\<lparr>unmasked_values = [f64_zero], strata = ?s 1 0\<rparr>"
  have f: "feedback_ok ?f" and g: "feedback_ok ?g"
    by (simp_all add: feedback_ok_iff feedback_len_def f64_one_def f64_zero_def prefix_table_ok_def)
  then have "feedback_append ?f ?g =
      Inr \<lparr>unmasked_values = [f64_one, f64_zero], strata = Some \<lparr>prefixes = [[0], [1]], requested = [0, 1], actual = [0, 0]\<rparr>\<rparr>"
    by (simp add: feedback_append_def feedback_len_def)
  from feedback_append_concatenates [OF f this] show ?thesis by simp
qed

end
