(* ===== verification/Latent_Batch.thy ===== *)
theory Latent_Batch
  imports Sample_Batch
begin

section \<open>Latent batches\<close>

text \<open>
  The sampler-to-queue value of \<open>src/sampling/latent_batch.rs\<close>: the indexed layout built
  row by row (\<open>IndexedBatchBuilder\<close>), the replayable Havana payload, slicing at a
  generation cursor, shape validation and decoding. The state of the random number
  generator is a type parameter: the sources only store and copy it.

  A slice index out of range and an overflowing \<open>usize\<close> addition panic in the
  code; the model returns \<open>Panicked\<close> there.
\<close>

datatype batch_error = Layout string | Panicked

definition rng_checkpoint_stride :: usize where
  "rng_checkpoint_stride = 1024"

datatype 'r latent_payload =
    IndexedBatch (discrete_signatures: "i64 list list") (discrete_map: "usize list")
      (continuous_layouts: "usize list") (continuous_values: "f64 list") (weights: "f64 list")
  | HavanaInference (rng_states: "'r list") (offset: usize)

record 'r latent_batch =
  nr_samples :: usize
  payload :: "'r latent_payload"

text \<open>Panicking slice \<open>v[a..b]\<close>, and an overflow-checked sum.\<close>

definition slice_or_panic :: "nat \<Rightarrow> nat \<Rightarrow> 'a list \<Rightarrow> batch_error + 'a list" where
  "slice_or_panic a b xs = (if a \<le> b \<and> b \<le> length xs then Inr (slice a b xs) else Inl Panicked)"

definition usize_or_panic :: "nat \<Rightarrow> batch_error + usize" where
  "usize_or_panic n = (if n \<le> usize_max then Inr n else Inl Panicked)"

subsection \<open>The builder\<close>

record indexed_batch_builder =
  b_signatures :: "i64 list list"
  b_index :: "i64 list \<rightharpoonup> usize"
  b_empty_signature :: "usize option"
  b_map :: "usize list"
  b_layouts :: "usize list"
  b_values :: "f64 list"
  b_weights :: "f64 list"

definition builder_new :: indexed_batch_builder where
  "builder_new = \<lparr>b_signatures = [], b_index = Map.empty, b_empty_signature = None,
     b_map = [], b_layouts = [], b_values = [], b_weights = []\<rparr>"

definition push_discrete :: "indexed_batch_builder \<Rightarrow> i64 list \<Rightarrow> indexed_batch_builder" where
  "push_discrete b d =
     (let idx = length (b_signatures b) in
      if d = [] then
        (case b_empty_signature b of
           Some i \<Rightarrow> b\<lparr>b_map := b_map b @ [i]\<rparr>
         | None \<Rightarrow> b\<lparr>b_signatures := b_signatures b @ [[]], b_empty_signature := Some idx,
                     b_map := b_map b @ [idx]\<rparr>)
      else
        (case b_index b d of
           Some i \<Rightarrow> b\<lparr>b_map := b_map b @ [i]\<rparr>
         | None \<Rightarrow> b\<lparr>b_index := (b_index b)(d \<mapsto> idx), b_signatures := b_signatures b @ [d],
                     b_map := b_map b @ [idx]\<rparr>))"

definition builder_push ::
  "indexed_batch_builder \<Rightarrow> i64 list \<Rightarrow> f64 list \<Rightarrow> f64 \<Rightarrow> indexed_batch_builder" where
  "builder_push b d c w =
     (let b = push_discrete b d in
      b\<lparr>b_layouts := b_layouts b @ [length c], b_values := b_values b @ c,
        b_weights := b_weights b @ [w]\<rparr>)"

definition builder_finish :: "indexed_batch_builder \<Rightarrow> 'r latent_payload" where
  "builder_finish b =
     IndexedBatch (b_signatures b) (b_map b) (b_layouts b) (b_values b) (b_weights b)"

text \<open>\<open>discrete.chunks_exact(k)\<close> for a positive \<open>k\<close>: a short rest is dropped.\<close>

function chunks_exact :: "nat \<Rightarrow> 'a list \<Rightarrow> 'a list list" where
  "chunks_exact k xs =
     (if k = 0 \<or> length xs < k then [] else take k xs # chunks_exact k (drop k xs))"
  by pat_completeness auto
termination
  by (relation "measure (\<lambda>(k, xs). length xs)") auto

declare chunks_exact.simps [simp del]

definition from_homogeneous ::
  "i64 list \<Rightarrow> usize \<Rightarrow> f64 list \<Rightarrow> usize \<Rightarrow> f64 list \<Rightarrow> 'r latent_payload" where
  "from_homogeneous discrete_coords discrete_dims continuous_vals continuous_dims ws =
     (let n = length ws;
          b = builder_new\<lparr>b_values := continuous_vals,
                b_layouts := replicate n continuous_dims, b_weights := ws\<rparr>
      in builder_finish
        (if discrete_dims = 0
         then b\<lparr>b_signatures := b_signatures b @ [[]], b_map := replicate n 0\<rparr>
         else foldl push_discrete b (chunks_exact discrete_dims discrete_coords)))"

text \<open>\<open>from_batch\<close>; a point without a \<open>sampler_weight\<close> factor panics (\<open>expect\<close>).\<close>

fun from_batch_loop :: "indexed_batch_builder \<Rightarrow> point list \<Rightarrow> batch_error + indexed_batch_builder" where
  "from_batch_loop b [] = Inr b"
| "from_batch_loop b (p # ps) =
     (case factor_value p ''sampler_weight'' of
        None \<Rightarrow> Inl Panicked
      | Some w \<Rightarrow> from_batch_loop (builder_push b (point_discrete p) (point_continuous p) w) ps)"

definition payload_from_batch :: "point list \<Rightarrow> batch_error + 'r latent_payload" where
  "payload_from_batch batch = and_then (from_batch_loop builder_new batch) (\<lambda>b. Inr (builder_finish b))"

definition latent_from_batch :: "point list \<Rightarrow> batch_error + 'r latent_batch" where
  "latent_from_batch batch =
     and_then (payload_from_batch batch) (\<lambda>p. Inr \<lparr>nr_samples = length batch, payload = p\<rparr>)"

subsection \<open>Decoding\<close>

fun decode_loop ::
  "i64 list list \<Rightarrow> f64 list \<Rightarrow> (usize \<times> usize \<times> f64) list \<Rightarrow> usize
    \<Rightarrow> batch_error + (point list \<times> usize)" where
  "decode_loop sigs vals [] off = Inr ([], off)"
| "decode_loop sigs vals ((m, len, w) # rows) off =
     and_then (ok_or (nth_opt sigs m) (Layout ''points to missing signature'')) (\<lambda>d.
     and_then (ok_or (checked_add_usize off len) (Layout ''indexed latent batch continuous offset overflow'')) (\<lambda>next.
       if next > length vals then Inl (Layout ''indexed latent batch continuous values too short'')
       else and_then (decode_loop sigs vals rows next) (\<lambda>(ps, e).
         Inr (point_new (slice off next vals) d w # ps, e))))"

definition decode_indexed_batch ::
  "i64 list list \<Rightarrow> usize list \<Rightarrow> usize list \<Rightarrow> f64 list \<Rightarrow> f64 list \<Rightarrow> batch_error + point list" where
  "decode_indexed_batch sigs dmap layouts vals ws =
     (if length dmap \<noteq> length ws \<or> length layouts \<noteq> length ws
      then Inl (Layout ''indexed latent batch shape mismatch'')
      else and_then (decode_loop sigs vals (zip dmap (zip layouts ws)) 0) (\<lambda>(ps, e).
        if e \<noteq> length vals then Inl (Layout ''indexed latent batch continuous values have trailing data'')
        else Inr ps))"

fun into_batch :: "'r latent_payload \<Rightarrow> batch_error + point list" where
  "into_batch (IndexedBatch sigs dmap layouts vals ws) = decode_indexed_batch sigs dmap layouts vals ws"
| "into_batch (HavanaInference _ _) =
     Inl (Layout ''havana_inference latent payload must be materialized by a materializer'')"

subsection \<open>Validation\<close>

definition validate_nr_samples :: "'r latent_batch \<Rightarrow> batch_error + unit" where
  "validate_nr_samples b =
     (let n = nr_samples b in
      if n = 0 then Inl (Layout ''latent batch nr_samples must be greater than zero'')
      else case payload b of
        IndexedBatch sigs dmap layouts vals ws \<Rightarrow>
          if length ws \<noteq> n then Inl (Layout ''latent batch nr_samples mismatch'')
          else if length dmap \<noteq> n \<or> length layouts \<noteq> n
          then Inl (Layout ''latent batch indexed shape mismatch'')
          else and_then (usize_or_panic (sum_list layouts)) (\<lambda>expected.
            if length vals \<noteq> expected then Inl (Layout ''latent batch continuous payload mismatch'')
            else Inr ())
      | HavanaInference states off \<Rightarrow>
          if off \<ge> rng_checkpoint_stride
          then Inl (Layout ''invalid RNG checkpoints or sample offset'')
          else and_then (ok_or (checked_add_usize n off) (Layout ''RNG sample count overflow'')) (\<lambda>total.
            if length states \<noteq> div_ceil total rng_checkpoint_stride
            then Inl (Layout ''invalid RNG checkpoints or sample offset'') else Inr ()))"

subsection \<open>Slicing\<close>

text \<open>The loop over \<open>discrete_map[start..end]\<close> that renumbers the signatures in order of
  first use; \<open>remap\<close> is the \<open>HashMap\<close> of the code.\<close>

fun remap_loop ::
  "i64 list list \<Rightarrow> (usize \<rightharpoonup> usize) \<Rightarrow> i64 list list \<Rightarrow> usize list
    \<Rightarrow> batch_error + (i64 list list \<times> usize list)" where
  "remap_loop sigs remap out [] = Inr (out, [])"
| "remap_loop sigs remap out (i # is) =
     and_then (ok_or (nth_opt sigs i) (Layout ''generated batch references a missing discrete signature'')) (\<lambda>s.
       case remap i of
         Some k \<Rightarrow> and_then (remap_loop sigs remap out is) (\<lambda>(out', ks). Inr (out', k # ks))
       | None \<Rightarrow> and_then (remap_loop sigs (remap(i \<mapsto> length out)) (out @ [s]) is)
                  (\<lambda>(out', ks). Inr (out', length out # ks)))"

definition slice_at :: "'r latent_batch \<Rightarrow> usize \<Rightarrow> usize \<Rightarrow> usize \<Rightarrow> batch_error + 'r latent_batch" where
  "slice_at b start samples coordinate_start =
     and_then
       (ok_or (case checked_add_usize start samples of
                 None \<Rightarrow> None
               | Some e \<Rightarrow> if e \<le> nr_samples b then Some e else None)
          (Layout ''generated batch slice out of bounds'')) (\<lambda>stop.
       if samples = 0 then Inl (Layout ''generated batch slice is empty'')
       else case payload b of
         HavanaInference states off \<Rightarrow>
           and_then (usize_or_panic (off + stop)) (\<lambda>_.
           let first = (off + start) div rng_checkpoint_stride;
               last = (off + stop - 1) div rng_checkpoint_stride
           in and_then (ok_or (if last < length states then Some (slice first (Suc last) states) else None)
                (Layout ''missing RNG checkpoint'')) (\<lambda>states'.
              Inr \<lparr>nr_samples = samples,
                   payload = HavanaInference states' ((off + start) mod rng_checkpoint_stride)\<rparr>))
       | IndexedBatch sigs dmap layouts vals ws \<Rightarrow>
           and_then (slice_or_panic start stop dmap) (\<lambda>indices.
           and_then (remap_loop sigs Map.empty [] indices) (\<lambda>(signatures, maps).
           and_then (slice_or_panic start stop layouts) (\<lambda>layouts'.
           and_then (usize_or_panic (coordinate_start + sum_list layouts')) (\<lambda>coordinate_end.
           and_then (slice_or_panic coordinate_start coordinate_end vals) (\<lambda>vals'.
           and_then (slice_or_panic start stop ws) (\<lambda>ws'.
             Inr \<lparr>nr_samples = samples,
                  payload = IndexedBatch signatures maps layouts' vals' ws'\<rparr>)))))))"

end
