(* ===== verification/Latent_Laws.thy ===== *)
theory Latent_Laws
  imports Latent_Batch
begin

section \<open>Laws of latent batches\<close>

text \<open>
  A latent batch stands for a list of samples: concrete points for the indexed layout,
  and for the Havana payload a checkpoint together with the number of draws to replay
  from it. Building, decoding and slicing are proved against this abstraction.
\<close>

datatype 'r sample = Concrete point | Replay 'r nat

subsection \<open>The abstract samples\<close>

fun row_points :: "f64 list \<Rightarrow> (i64 list \<times> usize \<times> f64) list \<Rightarrow> point list" where
  "row_points vals [] = []"
| "row_points vals ((d, len, w) # rows) =
     point_new (take len vals) d w # row_points (drop len vals) rows"

definition resolve :: "i64 list list \<Rightarrow> usize list \<Rightarrow> i64 list list" where
  "resolve sigs dmap = map (\<lambda>i. sigs ! i) dmap"

fun payload_samples :: "nat \<Rightarrow> 'r latent_payload \<Rightarrow> 'r sample list" where
  "payload_samples n (IndexedBatch sigs dmap layouts vals ws) =
     map Concrete (row_points vals (zip (resolve sigs dmap) (zip layouts ws)))"
| "payload_samples n (HavanaInference states off) =
     map (\<lambda>i. Replay (states ! ((off + i) div rng_checkpoint_stride))
              ((off + i) mod rng_checkpoint_stride)) [0..<n]"

definition samples_of :: "'r latent_batch \<Rightarrow> 'r sample list" where
  "samples_of b = payload_samples (nr_samples b) (payload b)"

fun payload_refs_ok :: "'r latent_payload \<Rightarrow> bool" where
  "payload_refs_ok (IndexedBatch sigs dmap _ _ _) \<longleftrightarrow> (\<forall>m \<in> set dmap. m < length sigs)"
| "payload_refs_ok (HavanaInference _ _) \<longleftrightarrow> True"

definition latent_ok :: "'r latent_batch \<Rightarrow> bool" where
  "latent_ok b \<longleftrightarrow> validate_nr_samples b = Inr () \<and> payload_refs_ok (payload b) \<and>
     nr_samples b \<le> usize_max"

text \<open>The position of sample \<open>i\<close> in the flat coordinate array.\<close>

fun payload_cursor :: "'r latent_payload \<Rightarrow> usize \<Rightarrow> usize" where
  "payload_cursor (IndexedBatch _ _ layouts _ _) i = sum_list (take i layouts)"
| "payload_cursor (HavanaInference _ _) i = 0"

fun payload_width :: "'r latent_payload \<Rightarrow> usize" where
  "payload_width (IndexedBatch _ _ _ vals _) = length vals"
| "payload_width (HavanaInference _ _) = 0"

fun widths :: "('a \<times> usize \<times> 'b) list \<Rightarrow> usize" where
  "widths [] = 0"
| "widths ((_, len, _) # rows) = len + widths rows"

lemma length_row_points [simp]: "length (row_points vals rows) = length rows"
  by (induction vals rows rule: row_points.induct) auto

lemma row_points_take: "take n (row_points vals rows) = row_points vals (take n rows)"
proof (induction vals rows arbitrary: n rule: row_points.induct)
  case (2 vals d len w rows)
  then show ?case by (cases n) auto
qed simp

lemma row_points_drop:
  "drop n (row_points vals rows) =
   row_points (drop (widths (take n rows)) vals) (drop n rows)"
proof (induction vals rows arbitrary: n rule: row_points.induct)
  case (2 vals d len w rows)
  then show ?case by (cases n) (auto simp: add.commute)
qed simp

lemma row_points_take_vals:
  "widths rows \<le> k \<Longrightarrow> row_points (take k vals) rows = row_points vals rows"
proof (induction vals rows arbitrary: k rule: row_points.induct)
  case (2 vals d len w rows)
  then have "row_points (take (k - len) (drop len vals)) rows = row_points (drop len vals) rows"
    by simp
  then show ?case using 2 by (simp add: min_absorb1 drop_take)
qed simp

lemma row_points_append:
  "row_points (vals @ c) (rows @ [(d, length c, w)]) =
   row_points vals rows @ [point_new c d w]" if "widths rows = length vals"
  using that
proof (induction vals rows rule: row_points.induct)
  case (2 vals d' len w' rows)
  then show ?case by (simp add: add.commute)
qed simp

lemma widths_zip: "length a = length b \<Longrightarrow> length b = length c \<Longrightarrow>
  widths (zip a (zip b c)) = sum_list b"
  by (induction a b c rule: list_induct3) auto

subsection \<open>Decoding\<close>

lemma decode_loop_rows:
  assumes "off \<le> length vals"
  shows "decode_loop sigs vals rows off = Inr (ps, e) \<longleftrightarrow>
    (\<forall>r \<in> set rows. fst r < length sigs) \<and> e = off + widths rows \<and>
    e \<le> length vals \<and> (rows = [] \<or> e \<le> usize_max) \<and>
    ps = row_points (drop off vals) (map (\<lambda>(m, r). (sigs ! m, r)) rows)"
  using assms
proof (induction sigs vals rows off arbitrary: ps e rule: decode_loop.induct)
  case (2 sigs vals m len w rows off)
  show ?case
  proof (cases "m < length sigs \<and> off + len \<le> usize_max \<and> off + len \<le> length vals")
    case True
    have IH: "decode_loop sigs vals rows (off + len) = Inr (ps', e') \<longleftrightarrow>
        (\<forall>r \<in> set rows. fst r < length sigs) \<and> e' = off + len + widths rows \<and>
        e' \<le> length vals \<and> (rows = [] \<or> e' \<le> usize_max) \<and>
        ps' = row_points (drop (len + off) vals) (map (\<lambda>(m, r). (sigs ! m, r)) rows)" for ps' e'
      using True by (subst "2.IH") (auto simp: add.commute [of off len])
    show ?thesis using True
      by (auto simp: IH nth_opt_def ok_or_def checked_add_usize_def slice_def add.assoc)
  next
    case False
    then show ?thesis
      by (auto simp: nth_opt_Some checked_add_usize_def ok_or_def split: option.splits if_splits)
  qed
qed auto

lemma decode_indexed_iff:
  "decode_indexed_batch sigs dmap layouts vals ws = Inr ps \<longleftrightarrow>
   length dmap = length ws \<and> length layouts = length ws \<and> (\<forall>m \<in> set dmap. m < length sigs) \<and>
   sum_list layouts = length vals \<and> (ws = [] \<or> length vals \<le> usize_max) \<and>
   ps = row_points vals (zip (resolve sigs dmap) (zip layouts ws))"
proof (cases "length dmap = length ws \<and> length layouts = length ws")
  case True
  then have "map (\<lambda>(m, r). (sigs ! m, r)) (zip dmap (zip layouts ws)) =
      zip (resolve sigs dmap) (zip layouts ws)"
    by (simp add: resolve_def zip_map1 case_prod_unfold)
  moreover have "(\<forall>r \<in> set (zip dmap (zip layouts ws)). fst r < length sigs) \<longleftrightarrow>
      (\<forall>m \<in> set dmap. m < length sigs)"
  proof -
    have "map fst (zip dmap (zip layouts ws)) = dmap" using True by simp
    then have "set dmap = fst ` set (zip dmap (zip layouts ws))" by (metis list.set_map)
    then show ?thesis by simp
  qed
  moreover have "zip dmap (zip layouts ws) = [] \<longleftrightarrow> ws = []"
    using True by (cases ws; cases dmap; cases layouts) auto
  ultimately show ?thesis
    using True by (auto simp: decode_indexed_batch_def decode_loop_rows widths_zip)
qed (auto simp: decode_indexed_batch_def)

lemma validate_indexed_iff:
  "validate_nr_samples \<lparr>nr_samples = n, payload = IndexedBatch sigs dmap layouts vals ws\<rparr> = Inr () \<longleftrightarrow>
   0 < n \<and> length ws = n \<and> length dmap = n \<and> length layouts = n \<and>
   sum_list layouts = length vals \<and> length vals \<le> usize_max"
  by (auto simp: validate_nr_samples_def usize_or_panic_def Let_def)

lemma validate_havana_iff:
  "validate_nr_samples \<lparr>nr_samples = n, payload = HavanaInference states off\<rparr> = Inr () \<longleftrightarrow>
   0 < n \<and> off < rng_checkpoint_stride \<and> n + off \<le> usize_max \<and>
   length states = div_ceil (n + off) rng_checkpoint_stride"
  by (auto simp: validate_nr_samples_def checked_add_usize_def Let_def ok_or_def not_le)

text \<open>A validated indexed batch decodes into exactly one point per declared sample, and
  decoding succeeds precisely when, besides the shape, every discrete reference is in range.\<close>

theorem validated_batch_decodes:
  assumes "validate_nr_samples b = Inr ()" and "payload b = IndexedBatch sigs dmap layouts vals ws"
  shows "(\<exists>ps. into_batch (payload b) = Inr ps \<and> length ps = nr_samples b \<and>
      samples_of b = map Concrete ps) \<longleftrightarrow> (\<forall>m \<in> set dmap. m < length sigs)"
proof -
  obtain n where b: "b = \<lparr>nr_samples = n, payload = IndexedBatch sigs dmap layouts vals ws\<rparr>"
    using assms(2) by (cases b) auto
  then show ?thesis
    using assms(1) by (auto simp: validate_indexed_iff decode_indexed_iff samples_of_def resolve_def)
qed

subsection \<open>Slicing\<close>

lemma remap_loop_total:
  assumes "\<forall>i \<in> set is. i < length sigs"
    and "\<And>i k. remap i = Some k \<Longrightarrow> k < length out \<and> out ! k = sigs ! i"
  shows "\<exists>ext ks. remap_loop sigs remap out is = Inr (out @ ext, ks) \<and>
    (\<forall>k \<in> set ks. k < length (out @ ext)) \<and> resolve (out @ ext) ks = resolve sigs is"
  using assms
proof (induction "is" arbitrary: remap out)
  case (Cons i "is")
  show ?case
  proof (cases "remap i")
    case (Some k)
    obtain ext ks where "remap_loop sigs remap out is = Inr (out @ ext, ks)"
      "\<forall>k \<in> set ks. k < length (out @ ext)" "resolve (out @ ext) ks = resolve sigs is"
      using Cons.IH [of remap out] Cons.prems by auto
    moreover have "k < length out" "out ! k = sigs ! i" using Cons.prems(2) Some by auto
    ultimately show ?thesis
      using Some Cons.prems(1)
      by (intro exI [of _ ext] exI [of _ "k # ks"]) (auto simp: nth_opt_def ok_or_def resolve_def nth_append)
  next
    case None
    have "\<And>j k. (remap(i \<mapsto> length out)) j = Some k \<Longrightarrow>
        k < length (out @ [sigs ! i]) \<and> (out @ [sigs ! i]) ! k = sigs ! j"
      using Cons.prems(2) by (force simp: nth_append split: if_splits)
    then obtain ext ks where
      "remap_loop sigs (remap(i \<mapsto> length out)) (out @ [sigs ! i]) is = Inr ((out @ [sigs ! i]) @ ext, ks)"
      "\<forall>k \<in> set ks. k < length ((out @ [sigs ! i]) @ ext)"
      "resolve ((out @ [sigs ! i]) @ ext) ks = resolve sigs is"
      using Cons.IH [of "remap(i \<mapsto> length out)" "out @ [sigs ! i]"] Cons.prems(1)
      by (metis (no_types, lifting) list.set_intros(2))
    then show ?thesis
      using None Cons.prems(1)
      by (intro exI [of _ "sigs ! i # ext"] exI [of _ "length out # ks"])
        (auto simp: nth_opt_def ok_or_def resolve_def nth_append)
  qed
qed (simp add: resolve_def)

lemma sum_list_slice:
  "a \<le> b \<Longrightarrow> sum_list (take a xs) + sum_list (slice a b xs) = sum_list (take b (xs :: nat list))"
  using slice_append_slice [of 0 a b xs] by (simp add: slice_def flip: sum_list_append)

lemma slice_zip: "slice a b (zip xs ys) = zip (slice a b xs) (slice a b ys)"
  by (simp add: slice_def take_zip drop_zip)

lemma resolve_slice: "resolve sigs (slice a b dmap) = slice a b (resolve sigs dmap)"
  by (simp add: resolve_def map_slice)

lemma row_points_slice:
  assumes "length ds = length layouts" "length layouts = length ws" "sum_list layouts \<le> length vals"
    and "a \<le> b" "b \<le> length ws"
  shows "row_points (slice (sum_list (take a layouts)) (sum_list (take b layouts)) vals)
      (zip (slice a b ds) (zip (slice a b layouts) (slice a b ws))) =
    slice a b (row_points vals (zip ds (zip layouts ws)))"
proof -
  let ?rows = "zip ds (zip layouts ws)"
  have w: "widths (take a ?rows) = sum_list (take a layouts)"
    using assms by (simp add: take_zip widths_zip)
  have w': "widths (slice a b ?rows) = sum_list (slice a b layouts)"
    using assms by (simp add: slice_zip widths_zip)
  have "slice a b (row_points vals ?rows) = row_points (drop (sum_list (take a layouts)) vals) (slice a b ?rows)"
    by (simp add: slice_def row_points_drop row_points_take w)
  also have "\<dots> = row_points (slice (sum_list (take a layouts)) (sum_list (take b layouts)) vals) (slice a b ?rows)"
    unfolding slice_def [of "sum_list (take a layouts)"]
    using w' sum_list_slice [OF assms(4), of layouts] by (intro row_points_take_vals [symmetric]) simp
  finally show ?thesis by (simp add: slice_zip)
qed

lemma havana_slice_count:
  fixes off start stop :: nat
  assumes "start < stop" "stride > 0"
  shows "Suc ((off + stop - 1) div stride) - (off + start) div stride =
    div_ceil (stop - start + (off + start) mod stride) stride"
proof -
  let ?f = "(off + start) div stride" and ?o = "(off + start) mod stride"
  have o: "off + stop - 1 = ?f * stride + (?o + (stop - start) - 1)"
    using assms(1) div_mult_mod_eq [of "off + start" stride] by linarith
  have "(off + stop - 1) div stride = ?f + (?o + (stop - start) - 1) div stride"
    unfolding o using assms(2) by simp
  moreover have "div_ceil (Suc k) stride = Suc (k div stride)" for k
    by (simp add: div_ceil_def div_Suc)
  then have "div_ceil n stride = Suc ((n - 1) div stride)" if "0 < n" for n
    using that by (metis Suc_pred')
  ultimately show ?thesis using assms(1) by (simp add: add.commute)
qed

lemma slice_at_indexed:
  assumes b: "b = \<lparr>nr_samples = N, payload = IndexedBatch sigs dmap layouts vals ws\<rparr>"
    and ok: "latent_ok b" and n: "0 < n" "start + n \<le> N"
  shows "\<exists>s. slice_at b start n (sum_list (take start layouts)) = Inr s \<and> latent_ok s \<and> nr_samples s = n \<and>
    samples_of s = slice start (start + n) (samples_of b) \<and>
    sum_list (take start layouts) + payload_width (payload s) = sum_list (take (start + n) layouts)"
proof -
  have sh: "length ws = N" "length dmap = N" "length layouts = N" "sum_list layouts = length vals"
    "length vals \<le> usize_max" "\<forall>m \<in> set dmap. m < length sigs"
    using ok by (auto simp: b latent_ok_def validate_indexed_iff)
  let ?e = "start + n" and ?a = "sum_list (take start layouts)" and ?z = "sum_list (take (start + n) layouts)"
  have az: "?a + sum_list (slice start ?e layouts) = ?z" by (intro sum_list_slice) simp
  have zv: "?z \<le> length vals"
    using sh(4) by (metis append_take_drop_id le_add1 sum_list_append)
  have N: "N \<le> usize_max" using ok by (simp add: b latent_ok_def)
  have "\<forall>i \<in> set (slice start ?e dmap). i < length sigs"
    using sh(6) set_slice_subset by fastforce
  then obtain out ks where r: "remap_loop sigs Map.empty [] (slice start ?e dmap) = Inr (out, ks)"
    "\<forall>k \<in> set ks. k < length out" "resolve out ks = resolve sigs (slice start ?e dmap)"
    using remap_loop_total [of "slice start ?e dmap" sigs Map.empty "[]"] by auto
  have ks: "length ks = n"
    using r(3) sh n by (metis resolve_def length_map length_slice add_diff_cancel_left' min.absorb1)
  let ?s = "\<lparr>nr_samples = n, payload = IndexedBatch out ks (slice start ?e layouts)
      (slice ?a ?z vals) (slice start ?e ws)\<rparr>"
  have "slice_at b start n ?a = Inr ?s"
    using n N sh az zv r(1) by (simp add: slice_at_def b checked_add_usize_def ok_or_def
        slice_or_panic_def usize_or_panic_def)
  moreover have "latent_ok ?s"
    using n N sh zv az r(2) ks by (auto simp: latent_ok_def validate_indexed_iff)
  moreover have "samples_of ?s = slice start ?e (samples_of b)"
  proof -
    have "row_points (slice ?a ?z vals) (zip (resolve out ks) (zip (slice start ?e layouts) (slice start ?e ws)))
      = slice start ?e (row_points vals (zip (resolve sigs dmap) (zip layouts ws)))"
      unfolding r(3) resolve_slice
      by (rule row_points_slice) (use sh n in \<open>auto simp: resolve_def\<close>)
    then show ?thesis by (simp add: samples_of_def b map_slice)
  qed
  moreover have "?a + payload_width (payload ?s) = ?z" using az zv by simp
  ultimately show ?thesis by auto
qed

lemma slice_at_havana:
  assumes b: "b = \<lparr>nr_samples = N, payload = HavanaInference states off\<rparr>"
    and ok: "latent_ok b" and n: "0 < n" "start + n \<le> N"
  shows "\<exists>s. slice_at b start n c = Inr s \<and> latent_ok s \<and> nr_samples s = n \<and>
    samples_of s = slice start (start + n) (samples_of b) \<and> payload_width (payload s) = 0"
proof -
  let ?S = rng_checkpoint_stride
  let ?f = "(off + start) div ?S" and ?l = "(off + (start + n) - 1) div ?S" and ?o = "(off + start) mod ?S"
  have S: "0 < ?S" by (simp add: rng_checkpoint_stride_def)
  have sh: "off < ?S" "N + off \<le> usize_max" "length states = div_ceil (N + off) ?S"
    using ok by (auto simp: b latent_ok_def validate_havana_iff)
  have total: "Suc ((off + N - 1) div ?S) = length states"
    using havana_slice_count [of 0 N ?S off] n sh(1,3) S by simp
  have "?l \<le> (off + N - 1) div ?S" using n by (intro div_le_mono) simp
  then have l: "?l < length states" using total by simp
  have count: "Suc ?l - ?f = div_ceil (n + ?o) ?S"
    using havana_slice_count [of start "start + n" ?S off] n S by simp
  let ?s = "\<lparr>nr_samples = n, payload = HavanaInference (slice ?f (Suc ?l) states) ?o\<rparr>"
  have no: "n + ?o \<le> usize_max"
    using n sh(2) mod_less_eq_dividend [of "off + start" ?S] by linarith
  have "slice_at b start n c = Inr ?s"
    using n sh(2) l by (simp add: slice_at_def b checked_add_usize_def ok_or_def
        usize_or_panic_def Let_def)
  moreover have "latent_ok ?s"
    using n no S l count by (simp add: latent_ok_def validate_havana_iff)
  moreover have "samples_of ?s = slice start (start + n) (samples_of b)"
  proof (rule nth_equalityI)
    show "length (samples_of ?s) = length (slice start (start + n) (samples_of b))"
      using n by (simp add: samples_of_def b)
  next
    fix i assume "i < length (samples_of ?s)"
    then have i: "i < n" by (simp add: samples_of_def)
    have d: "(off + (start + i)) div ?S = ?f + (?o + i) div ?S"
    proof -
      have "off + (start + i) = ?f * ?S + (?o + i)"
        using div_mult_mod_eq [of "off + start" ?S] by linarith
      then show ?thesis using S by (metis add.commute div_mult_self3 less_not_refl)
    qed
    have "(off + (start + i)) div ?S \<le> ?l" using i by (intro div_le_mono) simp
    then have "slice ?f (Suc ?l) states ! ((?o + i) div ?S) = states ! ((off + (start + i)) div ?S)"
      using l d by simp
    moreover have "(?o + i) mod ?S = (off + (start + i)) mod ?S"
      by (simp add: mod_add_left_eq add.assoc)
    ultimately show "samples_of ?s ! i = slice start (start + n) (samples_of b) ! i"
      using i n by (simp add: samples_of_def b)
  qed
  ultimately show ?thesis by auto
qed

lemma slice_at_sound:
  assumes "latent_ok b" "0 < n" "start + n \<le> nr_samples b"
  shows "\<exists>s. slice_at b start n (payload_cursor (payload b) start) = Inr s \<and> latent_ok s \<and>
    nr_samples s = n \<and> samples_of s = slice start (start + n) (samples_of b) \<and>
    payload_cursor (payload b) start + payload_width (payload s) = payload_cursor (payload b) (start + n)"
proof (cases "payload b")
  case (IndexedBatch sigs dmap layouts vals ws)
  then have "b = \<lparr>nr_samples = nr_samples b, payload = IndexedBatch sigs dmap layouts vals ws\<rparr>"
    by (cases b) simp
  from slice_at_indexed [OF this assms] IndexedBatch show ?thesis by simp
next
  case (HavanaInference states off)
  then have "b = \<lparr>nr_samples = nr_samples b, payload = HavanaInference states off\<rparr>"
    by (cases b) simp
  from slice_at_havana [OF this assms] HavanaInference show ?thesis by simp
qed

lemma samples_of_length: "latent_ok b \<Longrightarrow> length (samples_of b) = nr_samples b"
  by (cases b; cases "payload b")
    (auto simp: samples_of_def latent_ok_def validate_indexed_iff resolve_def)

text \<open>C34. Slicing a well-formed latent batch at any in-range position succeeds, stays well formed,
  and stands for exactly the corresponding contiguous samples; for the replayable payload each
  sample keeps its checkpoint and the number of draws to replay.\<close>

theorem slice_at_selects_samples:
  assumes "latent_ok b" and "0 < n" and "start + n \<le> nr_samples b"
  shows "\<exists>s. slice_at b start n (payload_cursor (payload b) start) = Inr s \<and> latent_ok s \<and>
    samples_of s = slice start (start + n) (samples_of b)"
  using slice_at_sound [OF assms] by blast

subsection \<open>Building and decoding\<close>

text \<open>The signature table of the builder: no duplicates, and the index maps exactly the stored
  signatures to their positions.\<close>

definition table_ok :: "indexed_batch_builder \<Rightarrow> bool" where
  "table_ok b \<longleftrightarrow> distinct (b_signatures b) \<and>
     (\<forall>d i. d \<noteq> [] \<longrightarrow> (b_index b d = Some i \<longleftrightarrow> i < length (b_signatures b) \<and> b_signatures b ! i = d)) \<and>
     (\<forall>i. b_empty_signature b = Some i \<longleftrightarrow> i < length (b_signatures b) \<and> b_signatures b ! i = [])"

definition builder_inv :: "indexed_batch_builder \<Rightarrow> (i64 list \<times> f64 list \<times> f64) list \<Rightarrow> bool" where
  "builder_inv b rows \<longleftrightarrow> table_ok b \<and> (\<forall>m \<in> set (b_map b). m < length (b_signatures b)) \<and>
     resolve (b_signatures b) (b_map b) = map fst rows \<and>
     b_layouts b = map (length \<circ> fst \<circ> snd) rows \<and>
     b_values b = concat (map (fst \<circ> snd) rows) \<and> b_weights b = map (snd \<circ> snd) rows"

lemma resolve_snoc:
  "\<forall>m \<in> set ms. m < length sigs \<Longrightarrow> resolve (sigs @ ext) ms = resolve sigs ms"
  by (auto simp: resolve_def nth_append)

lemma table_ok_lookup:
  assumes "table_ok b"
  shows "(if d = [] then b_empty_signature b else b_index b d) = Some i \<longleftrightarrow>
    i < length (b_signatures b) \<and> b_signatures b ! i = d"
  using assms by (auto simp: table_ok_def)

lemma push_discrete_laws:
  assumes t: "table_ok b" and m: "\<forall>m \<in> set (b_map b). m < length (b_signatures b)"
  shows "table_ok (push_discrete b d)"
    and "\<forall>m \<in> set (b_map (push_discrete b d)). m < length (b_signatures (push_discrete b d))"
    and "resolve (b_signatures (push_discrete b d)) (b_map (push_discrete b d)) =
      resolve (b_signatures b) (b_map b) @ [d]"
    and "b_layouts (push_discrete b d) = b_layouts b" "b_values (push_discrete b d) = b_values b"
      "b_weights (push_discrete b d) = b_weights b"
proof -
  let ?look = "if d = [] then b_empty_signature b else b_index b d"
  have new: "?look = None \<Longrightarrow> d \<notin> set (b_signatures b)"
    using table_ok_lookup [OF t, of d] by (metis in_set_conv_nth option.distinct(1))
  have old: "?look = Some i \<Longrightarrow> i < length (b_signatures b) \<and> b_signatures b ! i = d" for i
    using table_ok_lookup [OF t, of d] by blast
  show "table_ok (push_discrete b d)"
  proof (cases ?look)
    case None
    then show ?thesis
      using t new by (auto simp: push_discrete_def Let_def table_ok_def nth_append less_Suc_eq
          split: option.splits if_splits)
  next
    case (Some i)
    then show ?thesis using t by (auto simp: push_discrete_def Let_def table_ok_def)
  qed
  show "\<forall>m \<in> set (b_map (push_discrete b d)). m < length (b_signatures (push_discrete b d))"
    and "resolve (b_signatures (push_discrete b d)) (b_map (push_discrete b d)) =
      resolve (b_signatures b) (b_map b) @ [d]"
    using m old resolve_snoc [OF m, of "[d]"]
    by (auto simp: push_discrete_def Let_def resolve_def less_SucI split: option.splits if_splits)
  show "b_layouts (push_discrete b d) = b_layouts b" "b_values (push_discrete b d) = b_values b"
      "b_weights (push_discrete b d) = b_weights b"
    by (auto simp: push_discrete_def Let_def split: option.splits)
qed

lemma builder_new_inv: "builder_inv builder_new []"
  by (simp add: builder_inv_def builder_new_def table_ok_def resolve_def)

lemma builder_push_inv:
  assumes "builder_inv b rows"
  shows "builder_inv (builder_push b d c w) (rows @ [(d, c, w)])"
proof -
  have t: "table_ok b" and m: "\<forall>m \<in> set (b_map b). m < length (b_signatures b)"
    using assms by (auto simp: builder_inv_def)
  have "table_ok (builder_push b d c w)"
    using push_discrete_laws(1) [OF t m, of d] by (simp add: builder_push_def Let_def table_ok_def)
  then show ?thesis
    using assms push_discrete_laws(2-6) [OF t m, of d]
    by (simp add: builder_inv_def builder_push_def Let_def)
qed

lemma builder_rows:
  "row_points (concat (map (fst \<circ> snd) rows))
     (zip (map fst rows) (zip (map (length \<circ> fst \<circ> snd) rows) (map (snd \<circ> snd) rows))) =
   map (\<lambda>(d, c, w). point_new c d w) rows"
  by (induction rows) auto

lemma builder_inv_decodes:
  assumes "builder_inv b rows" and "length (b_values b) \<le> usize_max"
  shows "into_batch (builder_finish b) = Inr (map (\<lambda>(d, c, w). point_new c d w) rows)"
proof -
  have "length (b_map b) = length rows"
    using assms(1) by (metis builder_inv_def length_map resolve_def)
  then show ?thesis
    using assms builder_rows [of rows]
    by (simp add: builder_finish_def decode_indexed_iff builder_inv_def length_concat comp_def)
qed

text \<open>The part of a point that survives the queue: coordinates and sampling weight.\<close>

definition canonical_point :: "f64 \<Rightarrow> point \<Rightarrow> point" where
  "canonical_point w p = point_new (point_continuous p) (point_discrete p) w"

definition sampler_weight :: "point \<Rightarrow> f64" where
  "sampler_weight p = the (factor_value p ''sampler_weight'')"

lemma from_batch_loop_inv:
  assumes "builder_inv b rows" and "\<forall>p \<in> set ps. factor_value p ''sampler_weight'' \<noteq> None"
  shows "\<exists>b'. from_batch_loop b ps = Inr b' \<and>
    builder_inv b' (rows @ map (\<lambda>p. (point_discrete p, point_continuous p, sampler_weight p)) ps)"
  using assms
proof (induction ps arbitrary: b rows)
  case (Cons p ps)
  then obtain w where w: "factor_value p ''sampler_weight'' = Some w" by auto
  have "builder_inv (builder_push b (point_discrete p) (point_continuous p) w)
      (rows @ [(point_discrete p, point_continuous p, w)])"
    using Cons.prems(1) by (rule builder_push_inv)
  from Cons.IH [OF this] Cons.prems(2) w show ?case by (auto simp: sampler_weight_def)
qed simp

text \<open>Points built from coordinates and a weight come back unchanged.\<close>

lemma latent_from_new_points:
  assumes "batch = map (\<lambda>(d, c, w). point_new c d w) rows"
    and "sum_list (map (length \<circ> fst \<circ> snd) rows) \<le> usize_max"
  shows "\<exists>lb. latent_from_batch batch = Inr (lb :: 'r latent_batch) \<and> nr_samples lb = length batch \<and>
    into_batch (payload lb) = Inr batch"
proof -
  have weights: "\<forall>p \<in> set batch. factor_value p ''sampler_weight'' \<noteq> None"
    and rows: "map (\<lambda>p. (point_discrete p, point_continuous p, sampler_weight p)) batch = rows"
    unfolding assms(1)
    by (auto simp: factor_value_def point_new_def weight_factor_new_def sampler_weight_def intro!: map_idI)
  obtain b where b: "from_batch_loop builder_new batch = Inr b" "builder_inv b rows"
    using from_batch_loop_inv [OF builder_new_inv weights] rows by auto
  have "length (b_values b) \<le> usize_max"
    using b(2) assms(2) by (simp add: builder_inv_def length_concat comp_def)
  from builder_inv_decodes [OF b(2) this] b assms(1) show ?thesis
    by (auto simp: latent_from_batch_def payload_from_batch_def)
qed

text \<open>C33. Encoding a batch into the indexed layout and decoding it again restores every point, in
  order, with its coordinates and its sampling weight; the signature table has no duplicates.\<close>

theorem encode_decode_roundtrip:
  assumes "\<forall>p \<in> set batch. factor_value p ''sampler_weight'' \<noteq> None"
    and "sum_list (map (length \<circ> point_continuous) batch) \<le> usize_max"
  shows "\<exists>lb. latent_from_batch batch = Inr (lb :: 'r latent_batch) \<and> nr_samples lb = length batch \<and>
    distinct (discrete_signatures (payload lb)) \<and>
    into_batch (payload lb) = Inr (map (\<lambda>p. canonical_point (sampler_weight p) p) batch)"
proof -
  let ?rows = "map (\<lambda>p. (point_discrete p, point_continuous p, sampler_weight p)) batch"
  obtain b where b: "from_batch_loop builder_new batch = Inr b" "builder_inv b ?rows"
    using from_batch_loop_inv [OF builder_new_inv assms(1)] by auto
  have "length (b_values b) \<le> usize_max"
    using b(2) assms(2) by (simp add: builder_inv_def length_concat comp_def)
  from builder_inv_decodes [OF b(2) this] b show ?thesis
    by (auto simp: latent_from_batch_def payload_from_batch_def builder_finish_def
        canonical_point_def comp_def builder_inv_def table_ok_def)
qed

subsection \<open>Concrete inputs\<close>

definition demo_latent :: "nat latent_batch" where
  "demo_latent = \<lparr>nr_samples = 3, payload = IndexedBatch [[], [7]] [1, 0, 1] [1, 2, 0] [f64_one, f64_zero, f64_one]
     [f64_one, f64_one, f64_one]\<rparr>"

lemma demo_latent_valid: "validate_nr_samples demo_latent = Inr ()"
  by (simp add: demo_latent_def validate_nr_samples_def usize_or_panic_def usize_max_def)

lemma demo_latent_ok: "latent_ok demo_latent"
  using demo_latent_valid by (simp add: latent_ok_def) (simp add: demo_latent_def usize_max_def)

lemma validated_batch_decodes_witness:
  "\<exists>ps. into_batch (payload demo_latent) = Inr ps \<and> length ps = 3"
  using validated_batch_decodes [OF demo_latent_valid, of "[[], [7]]" "[1, 0, 1]" "[1, 2, 0]"
      "[f64_one, f64_zero, f64_one]" "[f64_one, f64_one, f64_one]"]
  by (auto simp: demo_latent_def)

lemma slice_at_selects_samples_witness:
  "\<exists>s. slice_at demo_latent 1 2 1 = Inr s \<and> samples_of s = slice 1 3 (samples_of demo_latent)"
  using slice_at_selects_samples [OF demo_latent_ok, of 2 1] by (auto simp: demo_latent_def numeral_3_eq_3)

lemma encode_decode_roundtrip_witness:
  "\<exists>lb. latent_from_batch [demo_point 0 f64_one, demo_point 5 f64_one] = Inr (lb :: nat latent_batch) \<and> nr_samples lb = 2"
  using encode_decode_roundtrip [of "[demo_point 0 f64_one, demo_point 5 f64_one]"]
  by (auto simp: demo_point_def factor_value_def point_new_def weight_factor_new_def usize_max_def)

end
