(* ===== verification/Generation.thy ===== *)
theory Generation
  imports Latent_Laws Feedback_Values
begin

section \<open>The generation buffer\<close>

text \<open>
  \<open>GenerationBuffer\<close> of \<open>src/sampling/generation.rs\<close>: one buffered draw that is handed
  out in evaluator-sized fragments, and the queue of training groups that reassembles the
  feedback of each draw. What the buffer needs of a latent batch is the interface
  \<open>draw_slicing\<close>; the laws of the splitting loop are proved there once and reach the
  buffer through the interpretation on \<open>slice_at\<close>.

  An error of these operations fails the runner, which never uses the buffer again, so
  an error carries no state.
\<close>

record 'r buffered_draw =
  draw_batch :: "'r latent_batch"
  next_sample :: usize
  next_coordinate :: "usize option"
  draw_training_remaining :: "usize option"

record training_group =
  samples :: usize
  group_feedback :: feedback

record 'r generation_buffer =
  pending :: "'r buffered_draw option"
  training_groups :: "training_group list"
  finished :: bool

subsection \<open>Operations\<close>

definition has_pending :: "'r generation_buffer \<Rightarrow> bool" where
  "has_pending g \<longleftrightarrow> pending g \<noteq> None"

definition training_remaining :: "'r generation_buffer \<Rightarrow> usize option" where
  "training_remaining g =
     (case pending g of None \<Rightarrow> None
      | Some d \<Rightarrow> map_option (\<lambda>r. r - next_sample d) (draw_training_remaining d))"

definition requires_feedback :: "'r generation_buffer \<Rightarrow> bool" where
  "requires_feedback g =
     (case pending g of None \<Rightarrow> False | Some d \<Rightarrow> draw_training_remaining d \<noteq> None)"

definition engine_of_batch :: "batch_error \<Rightarrow> engine_error" where
  "engine_of_batch e = Engine (case e of Layout m \<Rightarrow> m | Panicked \<Rightarrow> ''panic'')"

definition buffer_draw ::
  "'r generation_buffer \<Rightarrow> 'r latent_batch \<Rightarrow> usize option \<Rightarrow> engine_error + 'r generation_buffer" where
  "buffer_draw g batch remaining =
     (if pending g \<noteq> None then Inl (Engine ''cannot overwrite an undispatched draw'')
      else and_then (map_err engine_of_batch (validate_nr_samples batch)) (\<lambda>_.
        Inr (g\<lparr>pending := Some \<lparr>draw_batch = batch, next_sample = 0, next_coordinate = Some 0,
                 draw_training_remaining = remaining\<rparr>\<rparr>)))"

text \<open>\<open>next_coordinate\<close> is not serialized: a restored buffer validates the draw again and
  recomputes the position of the cursor in the flat coordinates.\<close>

definition restored_coordinate :: "'r buffered_draw \<Rightarrow> engine_error + usize" where
  "restored_coordinate d =
     (case next_coordinate d of
        Some c \<Rightarrow> Inr c
      | None \<Rightarrow>
          and_then (map_err engine_of_batch (validate_nr_samples (draw_batch d))) (\<lambda>_.
            case payload (draw_batch d) of
              IndexedBatch _ _ layouts _ _ \<Rightarrow>
                if next_sample d > length layouts
                then Inl (Engine ''invalid buffered generation cursor'')
                else Inr (sum_list (take (next_sample d) layouts))
            | HavanaInference _ _ \<Rightarrow> Inr 0))"

text \<open>The splitting loop, over the three operations it uses of a batch: its size, the width
  of a fragment in the flat coordinates, and the cut at a cursor.\<close>

fun take_loop ::
  "('b \<Rightarrow> usize) \<Rightarrow> ('b \<Rightarrow> usize) \<Rightarrow> ('b \<Rightarrow> usize \<Rightarrow> usize \<Rightarrow> usize \<Rightarrow> 'e + 'b)
    \<Rightarrow> 'b \<Rightarrow> usize \<Rightarrow> usize \<Rightarrow> usize \<Rightarrow> usize \<Rightarrow> 'e + ('b list \<times> usize \<times> usize)" where
  "take_loop sz width cutf b 0 chunk_size next coord = Inr ([], next, coord)"
| "take_loop sz width cutf b (Suc slots) chunk_size next coord =
     (let n = min chunk_size (sz b - next) in
      if n = 0 then Inr ([], next, coord)
      else and_then (cutf b next n coord) (\<lambda>c.
        and_then (take_loop sz width cutf b slots chunk_size (next + n) (coord + width c))
          (\<lambda>(cs, next', coord'). Inr (c # cs, next', coord'))))"

definition take_batches ::
  "'r generation_buffer \<Rightarrow> usize \<Rightarrow> usize \<Rightarrow> engine_error + ('r latent_batch list \<times> 'r generation_buffer)" where
  "take_batches g slots chunk_size =
     (if chunk_size = 0 then Inl (Engine ''evaluator chunk size is zero'')
      else case pending g of
        None \<Rightarrow> Inr ([], g)
      | Some d \<Rightarrow> and_then (restored_coordinate d) (\<lambda>coord.
          if slots > 0 \<and> next_sample d = 0 \<and> chunk_size \<ge> nr_samples (draw_batch d)
          then Inr ([draw_batch d], g\<lparr>pending := None\<rparr>)
          else if next_sample d \<ge> nr_samples (draw_batch d)
          then Inl (Engine ''invalid buffered generation cursor'')
          else and_then
            (map_err engine_of_batch
              (take_loop nr_samples (\<lambda>b. payload_width (payload b)) slice_at
                 (draw_batch d) slots chunk_size (next_sample d) coord)) (\<lambda>(batches, next, coord').
            Inr (batches,
              g\<lparr>pending := if next = nr_samples (draw_batch d) then None
                 else Some (d\<lparr>next_sample := next, next_coordinate := Some coord'\<rparr>)\<rparr>))))"

definition pending_samples :: "'r generation_buffer \<Rightarrow> usize" where
  "pending_samples g =
     (case pending g of None \<Rightarrow> 0 | Some d \<Rightarrow> nr_samples (draw_batch d) - next_sample d)"

definition has_outstanding :: "'r generation_buffer \<Rightarrow> bool" where
  "has_outstanding g \<longleftrightarrow> pending g \<noteq> None \<or> training_groups g \<noteq> []"

definition buffer_is_empty :: "'r generation_buffer \<Rightarrow> bool" where
  "buffer_is_empty g \<longleftrightarrow> \<not> finished g \<and> \<not> has_outstanding g"

definition record_draw :: "'r generation_buffer \<Rightarrow> usize \<Rightarrow> 'r generation_buffer" where
  "record_draw g n =
     g\<lparr>training_groups := training_groups g @ [\<lparr>samples = n, group_feedback = feedback_default\<rparr>]\<rparr>"

text \<open>\<open>gr.samples - gr.feedback.len()\<close> cannot underflow while \<open>groups_ok\<close> holds.\<close>

definition accept_feedback ::
  "'r generation_buffer \<Rightarrow> feedback \<Rightarrow> engine_error + (feedback option \<times> 'r generation_buffer)" where
  "accept_feedback g vs =
     (case training_groups g of
        [] \<Rightarrow> Inl (Engine ''training result has no matching generated batch'')
      | gr # rest \<Rightarrow>
          if feedback_len vs > samples gr - feedback_len (group_feedback gr)
          then Inl (Engine ''training result crosses a generation boundary'')
          else and_then (feedback_append (group_feedback gr) vs) (\<lambda>f.
            if feedback_len f = samples gr
            then Inr (Some f, g\<lparr>training_groups := rest\<rparr>)
            else Inr (None, g\<lparr>training_groups := gr\<lparr>group_feedback := f\<rparr> # rest\<rparr>)))"

end
