(* ===== verification/Generation_Laws.thy ===== *)
theory Generation_Laws
  imports Generation
begin

section \<open>Laws of the generation buffer\<close>

text \<open>
  The interface the buffer relies on, the laws of the splitting loop under it, and the
  two guarantees of the buffer: the samples of a draw leave it once, in order, in
  fragments of bounded size, across a checkpoint too; and the feedback of a draw is
  delivered once, complete and in draw order.
\<close>

subsection \<open>The slicing interface\<close>

locale draw_slicing =
  fixes ok :: "'b \<Rightarrow> bool"
    and sz :: "'b \<Rightarrow> usize"
    and content :: "'b \<Rightarrow> 's list"
    and cursor :: "'b \<Rightarrow> usize \<Rightarrow> usize"
    and width :: "'b \<Rightarrow> usize"
    and cutf :: "'b \<Rightarrow> usize \<Rightarrow> usize \<Rightarrow> usize \<Rightarrow> 'e + 'b"
  assumes content_length: "ok b \<Longrightarrow> length (content b) = sz b"
    and cut_sound: "ok b \<Longrightarrow> 0 < n \<Longrightarrow> start + n \<le> sz b \<Longrightarrow>
      \<exists>c. cutf b start n (cursor b start) = Inr c \<and> ok c \<and> sz c = n \<and>
        content c = slice start (start + n) (content b) \<and>
        cursor b start + width c = cursor b (start + n)"
begin

lemma take_loop_sound:
  assumes "ok b" "0 < chunk" "next \<le> sz b"
  shows "\<exists>cs next'. take_loop sz width cutf b slots chunk next (cursor b next) = Inr (cs, next', cursor b next')
    \<and> next' = min (sz b) (next + slots * chunk) \<and> length cs \<le> slots
    \<and> (\<forall>c \<in> set cs. ok c \<and> 0 < sz c \<and> sz c \<le> chunk)
    \<and> concat (map content cs) = slice next next' (content b)"
  using assms(3)
proof (induction slots arbitrary: "next")
  case 0
  then show ?case by (auto simp: slice_def)
next
  case (Suc slots)
  define n where "n = min chunk (sz b - next)"
  show ?case
  proof (cases "n = 0")
    case True
    with Suc.prems assms(2) have "next = sz b" by (auto simp: n_def)
    then show ?thesis using True by (auto simp: n_def [symmetric] slice_def Let_def)
  next
    case False
    have le: "next + n \<le> sz b" using Suc.prems by (simp add: n_def)
    from cut_sound [OF assms(1) _ le] False obtain c where c:
      "cutf b next n (cursor b next) = Inr c" "ok c" "sz c = n"
      "content c = slice next (next + n) (content b)" "cursor b next + width c = cursor b (next + n)"
      by blast
    from Suc.IH [OF le] obtain cs next' where cs:
      "take_loop sz width cutf b slots chunk (next + n) (cursor b (next + n)) = Inr (cs, next', cursor b next')"
      "next' = min (sz b) (next + n + slots * chunk)" "length cs \<le> slots"
      "\<forall>c \<in> set cs. ok c \<and> 0 < sz c \<and> sz c \<le> chunk"
      "concat (map content cs) = slice (next + n) next' (content b)"
      by blast
    have "next' = min (sz b) (next + Suc slots * chunk)"
      using cs(2) Suc.prems by (auto simp: n_def)
    moreover have "take_loop sz width cutf b (Suc slots) chunk next (cursor b next) =
        Inr (c # cs, next', cursor b next')"
      using False c(1,5) cs(1) by (simp add: n_def [symmetric] Let_def)
    moreover have "concat (map content (c # cs)) = slice next next' (content b)"
      using c(4) cs(5) slice_append_slice [of "next" "next + n" next' "content b"] cs(2) le by simp
    ultimately show ?thesis
      using c cs(3,4) False
      by (intro exI [of _ "c # cs"] exI [of _ next']) (auto simp: n_def)
  qed
qed

end

interpretation latent: draw_slicing latent_ok nr_samples samples_of
  "\<lambda>b. payload_cursor (payload b)" "\<lambda>b. payload_width (payload b)" slice_at
  by unfold_locales (rule samples_of_length slice_at_sound; assumption)+

subsection \<open>Handing out a draw\<close>

definition draw_ok :: "'r buffered_draw \<Rightarrow> bool" where
  "draw_ok d \<longleftrightarrow> latent_ok (draw_batch d) \<and> next_sample d < nr_samples (draw_batch d) \<and>
     (next_coordinate d = None \<or>
      next_coordinate d = Some (payload_cursor (payload (draw_batch d)) (next_sample d)))"

definition buffer_ok :: "'r generation_buffer \<Rightarrow> bool" where
  "buffer_ok g \<longleftrightarrow> (case pending g of None \<Rightarrow> True | Some d \<Rightarrow> draw_ok d)"

text \<open>The samples the buffer still holds.\<close>

definition held :: "'r generation_buffer \<Rightarrow> 'r sample list" where
  "held g = (case pending g of None \<Rightarrow> []
     | Some d \<Rightarrow> slice (next_sample d) (nr_samples (draw_batch d)) (samples_of (draw_batch d)))"

lemma restored_coordinate_ok:
  assumes "draw_ok d"
  shows "restored_coordinate d = Inr (payload_cursor (payload (draw_batch d)) (next_sample d))"
proof (cases "next_coordinate d")
  case None
  have v: "validate_nr_samples (draw_batch d) = Inr ()" using assms by (simp add: draw_ok_def latent_ok_def)
  show ?thesis
  proof (cases "payload (draw_batch d)")
    case (IndexedBatch sigs dmap layouts vals ws)
    then have "draw_batch d = \<lparr>nr_samples = nr_samples (draw_batch d),
        payload = IndexedBatch sigs dmap layouts vals ws\<rparr>" by simp
    then have "length layouts = nr_samples (draw_batch d)"
      using v by (metis validate_indexed_iff)
    with None v assms IndexedBatch show ?thesis
      by (simp add: restored_coordinate_def map_err_def draw_ok_def)
  qed (use None v in \<open>simp add: restored_coordinate_def map_err_def\<close>)
qed (use assms in \<open>simp add: restored_coordinate_def draw_ok_def\<close>)

lemma buffer_draw_laws:
  assumes "buffer_draw g b r = Inr g'" and "latent_ok b"
  shows "buffer_ok g'" and "held g' = samples_of b" and "pending g = None"
proof -
  have g': "g' = g\<lparr>pending := Some \<lparr>draw_batch = b, next_sample = 0, next_coordinate = Some 0,
      draw_training_remaining = r\<rparr>\<rparr>" and none: "pending g = None"
    using assms(1) by (auto simp: buffer_draw_def split: if_splits)
  have n: "0 < nr_samples b"
    using assms(2) by (cases "nr_samples b = 0") (auto simp: latent_ok_def validate_nr_samples_def)
  have l: "length (samples_of b) = nr_samples b" using assms(2) by (rule latent.content_length)
  have "payload_cursor (payload b) 0 = 0" by (cases "payload b") auto
  then show "buffer_ok g'" using assms(2) n by (simp add: g' buffer_ok_def draw_ok_def)
  show "held g' = samples_of b" using slice_all [of "samples_of b"] l by (simp add: g' held_def)
  show "pending g = None" by (rule none)
qed

lemma take_batches_sound:
  assumes "buffer_ok g" "0 < chunk"
  shows "\<exists>bs g'. take_batches g slots chunk = Inr (bs, g') \<and> buffer_ok g' \<and>
    concat (map samples_of bs) @ held g' = held g \<and> length bs \<le> slots \<and>
    (\<forall>b \<in> set bs. latent_ok b \<and> nr_samples b \<le> chunk) \<and>
    length (concat (map samples_of bs)) = min (length (held g)) (slots * chunk) \<and>
    training_groups g' = training_groups g \<and> finished g' = finished g"
proof (cases "pending g")
  case None
  then show ?thesis using assms by (simp add: take_batches_def buffer_ok_def held_def)
next
  case (Some d)
  let ?b = "draw_batch d" and ?n = "nr_samples (draw_batch d)"
  have d: "draw_ok d" using assms(1) Some by (simp add: buffer_ok_def)
  then have ok: "latent_ok ?b" and lt: "next_sample d < ?n" by (auto simp: draw_ok_def)
  have len: "length (samples_of ?b) = ?n" using ok by (rule latent.content_length)
  have h: "length (held g) = ?n - next_sample d" by (simp add: held_def Some len)
  show ?thesis
  proof (cases "slots > 0 \<and> next_sample d = 0 \<and> chunk \<ge> ?n")
    case True
    have "?n \<le> slots * chunk" using True assms(2) by (metis One_nat_def Suc_leI le_trans mult_le_mono1 nat_mult_1)
    then show ?thesis
      using True assms(2) restored_coordinate_ok [OF d] Some ok slice_all [of "samples_of ?b"] len h
      by (simp add: take_batches_def buffer_ok_def held_def)
  next
    case False
    from latent.take_loop_sound [OF ok assms(2) less_imp_le [OF lt], of slots] obtain cs next' where cs:
      "take_loop nr_samples (\<lambda>b. payload_width (payload b)) slice_at ?b slots chunk (next_sample d)
        (payload_cursor (payload ?b) (next_sample d)) = Inr (cs, next', payload_cursor (payload ?b) next')"
      "next' = min ?n (next_sample d + slots * chunk)" "length cs \<le> slots"
      "\<forall>c \<in> set cs. latent_ok c \<and> 0 < nr_samples c \<and> nr_samples c \<le> chunk"
      "concat (map samples_of cs) = slice (next_sample d) next' (samples_of ?b)" by blast
    let ?g = "g\<lparr>pending := if next' = ?n then None
        else Some (d\<lparr>next_sample := next', next_coordinate := Some (payload_cursor (payload ?b) next')\<rparr>)\<rparr>"
    have "(chunk = 0) = False" "(?n \<le> next_sample d) = False"
      "(slots > 0 \<and> next_sample d = 0 \<and> chunk \<ge> ?n) = False"
      using False assms(2) lt by auto
    then have "take_batches g slots chunk = Inr (cs, ?g)"
      using Some restored_coordinate_ok [OF d] cs(1)
      by (simp only: take_batches_def option.case and_then.simps map_err_def sum.case prod.case if_False)
    moreover have "buffer_ok ?g" using ok cs(2) by (auto simp: buffer_ok_def draw_ok_def)
    moreover have "concat (map samples_of cs) @ held ?g = held g"
      using slice_append_slice [of "next_sample d" next' ?n "samples_of ?b"] cs(2,5) lt
      by (auto simp: held_def Some slice_def)
    moreover have "length (concat (map samples_of cs)) = min (length (held g)) (slots * chunk)"
      using cs(2,5) lt h len by simp
    ultimately show ?thesis using cs(3,4) by auto
  qed
qed

text \<open>C30. Splitting a buffered draw never fails, loses, repeats or reorders a sample: the emitted
  fragments followed by what stays buffered are the samples held before, every fragment fits the
  requested size and slot count, and as many samples leave as slots and size allow.\<close>

theorem take_batches_preserves_samples:
  assumes "buffer_ok g" and "0 < chunk"
  shows "\<exists>bs g'. take_batches g slots chunk = Inr (bs, g') \<and> buffer_ok g' \<and>
    concat (map samples_of bs) @ held g' = held g \<and> length bs \<le> slots \<and>
    (\<forall>b \<in> set bs. nr_samples b \<le> chunk) \<and>
    length (concat (map samples_of bs)) = min (length (held g)) (slots * chunk)"
  using take_batches_sound [OF assms] by blast

text \<open>What a checkpoint forgets: the cached coordinate cursor.\<close>

definition checkpointed :: "'r generation_buffer \<Rightarrow> 'r generation_buffer" where
  "checkpointed g = g\<lparr>pending := map_option (\<lambda>d. d\<lparr>next_coordinate := None\<rparr>) (pending g)\<rparr>"

text \<open>C31. A buffer restored from a checkpoint, which does not store the coordinate cursor, emits
  the same fragments and is in the same state afterwards as the buffer that was saved.\<close>

theorem restored_buffer_continues:
  assumes "buffer_ok g"
  shows "take_batches (checkpointed g) slots chunk = take_batches g slots chunk"
proof (cases "pending g")
  case None
  then have "checkpointed g = g" by (simp add: checkpointed_def)
  then show ?thesis by simp
next
  case (Some d)
  let ?d = "d\<lparr>next_coordinate := None\<rparr>"
  have d: "draw_ok d" "draw_ok ?d" using assms(1) Some by (auto simp: buffer_ok_def draw_ok_def)
  then have c: "restored_coordinate ?d = restored_coordinate d"
    by (simp add: restored_coordinate_ok)
  show ?thesis
    by (simp add: take_batches_def checkpointed_def Some c cong: if_cong)
qed

subsection \<open>Reassembling feedback\<close>

definition groups_ok :: "training_group list \<Rightarrow> bool" where
  "groups_ok gs \<longleftrightarrow>
     (\<forall>gr \<in> set gs. feedback_ok (group_feedback gr) \<and> feedback_len (group_feedback gr) < samples gr) \<and>
     (\<forall>gr \<in> set (tl gs). feedback_len (group_feedback gr) = 0)"

text \<open>Values received for the front draw so far.\<close>

definition partial :: "training_group list \<Rightarrow> f64 list" where
  "partial gs = (case gs of [] \<Rightarrow> [] | gr # _ \<Rightarrow> unmasked_values (group_feedback gr))"

fun accept_all ::
  "'r generation_buffer \<Rightarrow> feedback list \<Rightarrow> engine_error + (feedback list \<times> 'r generation_buffer)" where
  "accept_all g [] = Inr ([], g)"
| "accept_all g (v # vs) =
     and_then (accept_feedback g v) (\<lambda>(r, g'). and_then (accept_all g' vs) (\<lambda>(outs, g'').
       Inr (case r of None \<Rightarrow> outs | Some f \<Rightarrow> f # outs, g'')))"

lemma partial_tail: "groups_ok (gr # gs) \<Longrightarrow> groups_ok gs \<and> partial gs = []"
  by (cases gs) (auto simp: groups_ok_def partial_def feedback_len_def)

lemma record_draw_groups_ok:
  "groups_ok (training_groups g) \<Longrightarrow> 0 < n \<Longrightarrow> groups_ok (training_groups (record_draw g n))"
  by (cases "training_groups g") (auto simp: groups_ok_def record_draw_def)

lemma accept_feedback_step:
  assumes "groups_ok (training_groups g)" and "accept_feedback g v = Inr (r, g')"
  shows "groups_ok (training_groups g') \<and> pending g' = pending g \<and>
    (case r of
       None \<Rightarrow> map samples (training_groups g') = map samples (training_groups g) \<and>
         partial (training_groups g') = partial (training_groups g) @ unmasked_values v
     | Some f \<Rightarrow> feedback_ok f \<and> feedback_len f = samples (hd (training_groups g)) \<and>
         training_groups g \<noteq> [] \<and> training_groups g' = tl (training_groups g) \<and>
         unmasked_values f = partial (training_groups g) @ unmasked_values v \<and>
         partial (training_groups g') = [])"
proof -
  obtain gr rest where gs: "training_groups g = gr # rest"
    using assms(2) by (cases "training_groups g") (auto simp: accept_feedback_def)
  have gr: "feedback_ok (group_feedback gr)" "feedback_len (group_feedback gr) < samples gr"
    using assms(1) by (auto simp: gs groups_ok_def)
  obtain f where f: "feedback_append (group_feedback gr) v = Inr f"
    "feedback_len v \<le> samples gr - feedback_len (group_feedback gr)"
    using assms(2) by (auto simp: accept_feedback_def gs split: if_splits)
  note laws = feedback_append_laws [OF f(1) gr(1)]
  show ?thesis
  proof (cases "feedback_len f = samples gr")
    case True
    then have "r = Some f" "g' = g\<lparr>training_groups := rest\<rparr>"
      using assms(2) f by (auto simp: accept_feedback_def gs split: if_splits)
    then show ?thesis
      using laws True partial_tail [of gr rest] assms(1) by (simp add: gs partial_def)
  next
    case False
    then have "r = None" "g' = g\<lparr>training_groups := gr\<lparr>group_feedback := f\<rparr> # rest\<rparr>"
      using assms(2) f by (auto simp: accept_feedback_def gs split: if_splits)
    moreover have "feedback_len f < samples gr" using laws(5) f(2) gr(2) False by simp
    ultimately show ?thesis
      using laws assms(1) by (auto simp: gs partial_def groups_ok_def)
  qed
qed

lemma accept_all_sound:
  assumes "groups_ok (training_groups g)" and "accept_all g vs = Inr (outs, g')"
  shows "concat (map unmasked_values outs) @ partial (training_groups g') =
      partial (training_groups g) @ concat (map unmasked_values vs) \<and>
    map samples (training_groups g) = map feedback_len outs @ map samples (training_groups g') \<and>
    groups_ok (training_groups g') \<and> (\<forall>f \<in> set outs. feedback_ok f)"
  using assms
proof (induction vs arbitrary: g outs)
  case (Cons v vs)
  obtain r g1 outs1 where s: "accept_feedback g v = Inr (r, g1)" "accept_all g1 vs = Inr (outs1, g')"
    "outs = (case r of None \<Rightarrow> outs1 | Some f \<Rightarrow> f # outs1)"
    using Cons.prems(2) by auto
  note step = accept_feedback_step [OF Cons.prems(1) s(1)]
  note IH = Cons.IH [OF conjunct1 [OF step] s(2)]
  show ?case
  proof (cases r)
    case None
    with step IH s(3) show ?thesis by simp
  next
    case (Some f)
    with step IH s(3) show ?thesis by (cases "training_groups g") auto
  qed
qed simp


subsection \<open>Concrete inputs\<close>

definition demo_buffer :: "nat generation_buffer" where
  "demo_buffer = \<lparr>pending = Some \<lparr>draw_batch = demo_latent, next_sample = 1, next_coordinate = Some 1,
     draw_training_remaining = None\<rparr>, training_groups = [], finished = False\<rparr>"

lemma demo_buffer_ok: "buffer_ok demo_buffer"
  using demo_latent_ok by (simp add: buffer_ok_def demo_buffer_def draw_ok_def) (simp add: demo_latent_def)

lemma take_batches_preserves_samples_witness:
  "\<exists>bs g'. take_batches demo_buffer 1 1 = Inr (bs, g') \<and> concat (map samples_of bs) @ held g' = held demo_buffer"
  using take_batches_preserves_samples [OF demo_buffer_ok, of 1 1] by auto

lemma restored_buffer_continues_witness:
  "take_batches (checkpointed demo_buffer) 2 1 = take_batches demo_buffer 2 1"
  by (rule restored_buffer_continues [OF demo_buffer_ok])


end
