(* ===== verification/Batch_Ids.thy ===== *)
theory Batch_Ids
  imports Prelude
begin

section \<open>Batch identifiers\<close>

text \<open>
  The generator of \<open>src/core/batch_ids.rs\<close>. The wall clock is an argument: one reading in
  milliseconds per identifier, in the order the loop takes them. Readings may stall or go
  backwards; the laws below need only that they fit the 41 bits the layout leaves them.
\<close>

unbundle bit_operations_syntax

definition batch_id_counter_bits :: nat where "batch_id_counter_bits = 6"
definition batch_id_process_entropy_bits :: nat where "batch_id_process_entropy_bits = 16"
definition batch_id_suffix_bits :: nat where
  "batch_id_suffix_bits = batch_id_counter_bits + batch_id_process_entropy_bits"
definition batch_id_counter_mask :: nat where
  "batch_id_counter_mask = 2 ^ batch_id_counter_bits - 1"

lemmas batch_id_layout = batch_id_counter_bits_def batch_id_process_entropy_bits_def
  batch_id_suffix_bits_def batch_id_counter_mask_def

record batch_id_generator =
  last_millis :: u64
  id_counter :: nat
  process_entropy :: nat

definition generator_new :: "nat \<Rightarrow> batch_id_generator" where
  "generator_new entropy = \<lparr>last_millis = 0, id_counter = 0, process_entropy = entropy\<rparr>"

definition saturating_add_u64 :: "u64 \<Rightarrow> u64 \<Rightarrow> u64" where
  "saturating_add_u64 a b = min (a + b) (2 ^ 64 - 1)"

definition saturating_add_u16 :: "nat \<Rightarrow> nat \<Rightarrow> nat" where
  "saturating_add_u16 a b = min (a + b) (2 ^ 16 - 1)"

definition tick :: "batch_id_generator \<Rightarrow> u64 \<Rightarrow> batch_id_generator" where
  "tick g now_millis =
     (if now_millis > last_millis g then g\<lparr>last_millis := now_millis, id_counter := 0\<rparr>
      else if id_counter g \<ge> batch_id_counter_mask
      then g\<lparr>last_millis := saturating_add_u64 (last_millis g) 1, id_counter := 0\<rparr>
      else g)"

text \<open>The shifts act on the 64-bit pattern; bits shifted out are lost.\<close>

definition id_of :: "batch_id_generator \<Rightarrow> i64" where
  "id_of g = sint
     ((push_bit batch_id_suffix_bits (of_nat (last_millis g)) OR
       push_bit batch_id_counter_bits (of_nat (process_entropy g)) OR
       of_nat (id_counter g)) :: 64 word)"

fun next_ids :: "batch_id_generator \<Rightarrow> u64 list \<Rightarrow> i64 list \<times> batch_id_generator" where
  "next_ids g [] = ([], g)"
| "next_ids g (now # clock) =
     (let g1 = tick g now;
          (ids, g2) = next_ids (g1\<lparr>id_counter := saturating_add_u16 (id_counter g1) 1\<rparr>) clock
      in (id_of g1 # ids, g2))"

subsection \<open>The bit layout\<close>

definition generator_ok :: "batch_id_generator \<Rightarrow> bool" where
  "generator_ok g \<longleftrightarrow> id_counter g \<le> batch_id_counter_mask \<and> process_entropy g < 2 ^ 16"

lemma or_push_bit_word:
  fixes b :: "64 word"
  assumes "unat b < 2 ^ n" "a * 2 ^ n + unat b < 2 ^ 64"
  shows "unat (push_bit n (of_nat a) OR b) = a * 2 ^ n + unat b"
proof -
  let ?x = "push_bit n (of_nat a) :: 64 word"
  have "take_bit n b = b"
    using assms(1) by (intro word_unat_eq_iff [THEN iffD2]) (simp add: unsigned_take_bit_eq take_bit_nat_eq_self)
  then have "bit b m \<Longrightarrow> m < n" for m by (metis bit_take_bit_iff)
  then have disj: "?x AND b = 0" by (intro bit_eqI) (auto simp: bit_simps simp flip: not_less)
  have p: "?x = of_nat (a * 2 ^ n)" by (simp add: push_bit_eq_mult)
  have x: "unat ?x = a * 2 ^ n"
    using assms(2) unfolding p unsigned_of_nat by (simp add: take_bit_nat_eq_self)
  have "?x OR b = ?x + b" using disj by (simp add: disjunctive_add_eq_or)
  then show ?thesis using x assms(2) by (simp add: unat_add_lem [THEN iffD1])
qed

lemma sint_small:
  fixes w :: "64 word"
  assumes "unat w < 2 ^ 63"
  shows "sint w = int (unat w)"
proof -
  have "int (unat w) < int (2 ^ 63)" using assms by (simp only: of_nat_less_iff)
  then have "uint w < 2 ^ 63" by simp
  moreover have "- (2 ^ 63) \<le> uint w" by (rule order_trans [OF _ uint_ge_0]) simp
  ultimately show ?thesis by (simp add: sint_uint signed_take_bit_int_eq_self)
qed

lemma id_of_value:
  assumes "generator_ok g" and "last_millis g < 2 ^ 41"
  shows "id_of g = int (last_millis g * 2 ^ 22 + process_entropy g * 2 ^ 6 + id_counter g)"
proof -
  let ?c = "of_nat (id_counter g) :: 64 word"
  let ?e = "push_bit 6 (of_nat (process_entropy g)) OR ?c"
  have b: "id_counter g < 2 ^ 6" "process_entropy g < 2 ^ 16"
    using assms(1) by (auto simp: generator_ok_def batch_id_layout)
  have c: "unat ?c = id_counter g" using b by (simp add: unsigned_of_nat take_bit_nat_eq_self)
  have e: "unat ?e = process_entropy g * 2 ^ 6 + id_counter g"
    using or_push_bit_word [of ?c 6 "process_entropy g"] b c by simp
  have "unat (push_bit 22 (of_nat (last_millis g)) OR ?e) =
      last_millis g * 2 ^ 22 + (process_entropy g * 2 ^ 6 + id_counter g)"
    using or_push_bit_word [of ?e 22 "last_millis g"] e b assms(2) by simp
  then have u: "unat (push_bit 22 (of_nat (last_millis g)) OR ?e) =
      last_millis g * 2 ^ 22 + process_entropy g * 2 ^ 6 + id_counter g" by simp
  have "id_of g = int (unat (push_bit 22 (of_nat (last_millis g)) OR ?e))"
    unfolding id_of_def batch_id_layout using u b assms(2) by (simp add: sint_small)
  then show ?thesis using u by simp
qed

subsection \<open>Order and disjointness\<close>

lemma layout_field:
  fixes e c :: nat
  assumes "e < 2 ^ 16" "c < 2 ^ 6"
  shows "(m * 2 ^ 22 + e * 2 ^ 6 + c) div 2 ^ 6 mod 2 ^ 16 = e"
proof -
  have "m * 2 ^ 22 + e * 2 ^ 6 + c = c + (m * 2 ^ 16 + e) * 2 ^ 6" by simp
  then have "(m * 2 ^ 22 + e * 2 ^ 6 + c) div 2 ^ 6 = m * 2 ^ 16 + e"
    using assms(2) by (simp only: div_mult_self1) simp
  then show ?thesis using assms(1) by simp
qed

lemma int_div_mod: "int x div 2 ^ 6 mod 2 ^ 16 = int (x div 2 ^ 6 mod 2 ^ 16)"
  by (simp add: zdiv_int zmod_int)

text \<open>Where the generator stands: a lower bound of everything it will emit.\<close>

definition stand :: "batch_id_generator \<Rightarrow> int" where
  "stand g = int (last_millis g * 2 ^ 22 + process_entropy g * 2 ^ 6 + id_counter g)"

lemma tick_laws:
  assumes "generator_ok g" "now \<le> m" "last_millis g \<le> m" "m + 1 < 2 ^ 41"
  shows "generator_ok (tick g now) \<and> last_millis (tick g now) \<le> m + 1 \<and>
    process_entropy (tick g now) = process_entropy g \<and> stand g \<le> stand (tick g now) \<and>
    id_counter (tick g now) < 2 ^ 6 - 1"
  using assms
  by (auto simp: generator_ok_def tick_def batch_id_layout saturating_add_u64_def stand_def min_def)

lemma next_ids_sound:
  assumes "generator_ok g" "\<forall>now \<in> set clock. now \<le> m" "last_millis g \<le> m" "m + length clock < 2 ^ 41"
    and "next_ids g clock = (ids, g')"
  shows "length ids = length clock \<and> sorted_wrt (<) ids \<and>
    (\<forall>i \<in> set ids. stand g \<le> i \<and> i < stand g' \<and> i div 2 ^ 6 mod 2 ^ 16 = int (process_entropy g)) \<and>
    stand g \<le> stand g' \<and> generator_ok g' \<and> process_entropy g' = process_entropy g \<and>
    last_millis g' \<le> m + length clock"
  using assms
proof (induction clock arbitrary: g m ids)
  case Nil
  then show ?case by auto
next
  case (Cons now clock)
  let ?g1 = "tick g now"
  let ?h = "?g1\<lparr>id_counter := saturating_add_u16 (id_counter ?g1) 1\<rparr>"
  have t: "generator_ok ?g1" "last_millis ?g1 \<le> m + 1" "process_entropy ?g1 = process_entropy g"
    "stand g \<le> stand ?g1" "id_counter ?g1 < 2 ^ 6 - 1"
    using tick_laws [of g now m] Cons.prems by auto
  obtain rest where rest: "next_ids ?h clock = (rest, g')" "ids = id_of ?g1 # rest"
    using Cons.prems(5) by (auto simp: Let_def split: prod.splits)
  have id: "id_of ?g1 = stand ?g1"
    using id_of_value [OF t(1)] t(2) Cons.prems(4) by (simp add: stand_def)
  have h: "generator_ok ?h" "stand ?h = stand ?g1 + 1" "last_millis ?h \<le> m + 1"
    using t by (auto simp: generator_ok_def stand_def saturating_add_u16_def batch_id_layout)
  have field: "stand ?g1 div 2 ^ 6 mod 2 ^ 16 = int (process_entropy g)"
  proof -
    have e: "process_entropy g < 2 ^ 16" using t(1,3) by (simp add: generator_ok_def)
    have c: "id_counter ?g1 < 2 ^ 6" using t(5) by simp
    have "(last_millis ?g1 * 2 ^ 22 + process_entropy g * 2 ^ 6 + id_counter ?g1) div 2 ^ 6 mod 2 ^ 16
        = process_entropy g"
      using e c by (rule layout_field)
    then show ?thesis unfolding stand_def t(3) int_div_mod by (simp only:)
  qed
  have "\<forall>now \<in> set clock. now \<le> m + 1" using Cons.prems(2) by auto
  note IH = Cons.IH [OF h(1) this h(3) _ rest(1)]
  have IH': "length rest = length clock \<and> sorted_wrt (<) rest \<and>
    (\<forall>i \<in> set rest. stand ?h \<le> i \<and> i < stand g' \<and> i div 2 ^ 6 mod 2 ^ 16 = int (process_entropy ?h)) \<and>
    stand ?h \<le> stand g' \<and> generator_ok g' \<and> process_entropy g' = process_entropy ?h \<and>
    last_millis g' \<le> m + 1 + length clock"
    by (rule IH) (use Cons.prems(4) in simp)
  show ?case using IH' rest(2) id h(2) t field by auto
qed

text \<open>C35. Identifiers leave one generator in strictly increasing order, across calls too and for any
  clock that stalls or goes backwards, so no two batches of a process share an identifier.\<close>

theorem batch_ids_strictly_increase:
  assumes "generator_ok g" and "next_ids g clock1 = (ids1, g1)" and "next_ids g1 clock2 = (ids2, g2)"
    and "last_millis g \<le> m" and "\<forall>now \<in> set (clock1 @ clock2). now \<le> m"
    and "m + length clock1 + length clock2 < 2 ^ 41"
  shows "sorted_wrt (<) (ids1 @ ids2) \<and> length ids1 = length clock1 \<and> length ids2 = length clock2"
proof -
  have a: "\<forall>now \<in> set clock1. now \<le> m" "\<forall>now \<in> set clock2. now \<le> m + length clock1"
    using assms(5) by (auto intro: trans_le_add1)
  have b: "m + length clock1 < 2 ^ 41" using assms(6) by simp
  note one = next_ids_sound [OF assms(1) a(1) assms(4) b assms(2)]
  have c: "m + length clock1 + length clock2 < 2 ^ 41" by (rule assms(6))
  have d: "generator_ok g1" "last_millis g1 \<le> m + length clock1" using one by auto
  note two = next_ids_sound [OF d(1) a(2) d(2) c assms(3)]
  show ?thesis using one two by (fastforce simp: sorted_wrt_append)
qed

lemma batch_ids_strictly_increase_witness:
  "sorted_wrt (<) (fst (next_ids (generator_new 7) [5, 5, 4]) @
     fst (next_ids (snd (next_ids (generator_new 7) [5, 5, 4])) [3]))"
  using batch_ids_strictly_increase [of "generator_new 7" "[5, 5, 4]"
      "fst (next_ids (generator_new 7) [5, 5, 4])" "snd (next_ids (generator_new 7) [5, 5, 4])" "[3]"
      "fst (next_ids (snd (next_ids (generator_new 7) [5, 5, 4])) [3])"
      "snd (next_ids (snd (next_ids (generator_new 7) [5, 5, 4])) [3])" 5]
  by (simp del: next_ids.simps add: generator_ok_def generator_new_def batch_id_layout)

text \<open>Processes that drew different entropy never produce a common identifier, whatever their
  clocks: the entropy field of the layout can be read back from every identifier.\<close>

theorem generators_never_collide:
  assumes "generator_ok g" "generator_ok h" and "process_entropy g \<noteq> process_entropy h"
    and "last_millis g \<le> m" "last_millis h \<le> m" "\<forall>now \<in> set (clock1 @ clock2). now \<le> m"
    and "m + length clock1 + length clock2 < 2 ^ 41"
  shows "set (fst (next_ids g clock1)) \<inter> set (fst (next_ids h clock2)) = {}"
proof -
  have b: "m + length clock1 < 2 ^ 41" "m + length clock2 < 2 ^ 41" using assms(7) by simp_all
  have "\<forall>i \<in> set (fst (next_ids g clock1)). i div 2 ^ 6 mod 2 ^ 16 = int (process_entropy g)"
    using next_ids_sound [OF assms(1) _ assms(4) b(1), of "fst (next_ids g clock1)" "snd (next_ids g clock1)"]
      assms(6) by simp
  moreover have "\<forall>i \<in> set (fst (next_ids h clock2)). i div 2 ^ 6 mod 2 ^ 16 = int (process_entropy h)"
    using next_ids_sound [OF assms(2) _ assms(5) b(2), of "fst (next_ids h clock2)" "snd (next_ids h clock2)"]
      assms(6) by simp
  ultimately show ?thesis using assms(3) by fastforce
qed

lemma generators_never_collide_witness:
  "set (fst (next_ids (generator_new 1) [5, 5])) \<inter> set (fst (next_ids (generator_new 2) [5, 5])) = {}"
  using generators_never_collide [of "generator_new 1" "generator_new 2" 5 "[5, 5]" "[5, 5]"]
  by (simp del: next_ids.simps add: generator_ok_def generator_new_def batch_id_layout)

end
