(* ===== verification/Text_Codec.thy ===== *)
theory Text_Codec
  imports Prelude
begin

section \<open>Text of integers, splitting and joining\<close>

text \<open>
  The string operations of the Rust standard library the configuration code uses, on
  lists of characters: \<open>to_string\<close> and \<open>parse\<close> of integers, \<open>split(',')\<close>,
  \<open>join(",")\<close> and \<open>trim\<close>. White space is the Unicode white space below code point 256.
\<close>

definition is_whitespace :: "char \<Rightarrow> bool" where
  "is_whitespace c \<longleftrightarrow> of_char c \<in> {9, 10, 11, 12, 13, 32, 133, 160 :: nat}"

definition trim :: "string \<Rightarrow> string" where
  "trim s = rev (dropWhile is_whitespace (rev (dropWhile is_whitespace s)))"

definition digit_char :: "nat \<Rightarrow> char" where
  "digit_char d = char_of (48 + d)"

definition digit_value :: "char \<Rightarrow> nat option" where
  "digit_value c = (if 48 \<le> (of_char c :: nat) \<and> of_char c \<le> (57 :: nat) then Some (of_char c - 48) else None)"

fun show_nat :: "nat \<Rightarrow> string" where
  "show_nat n = (if n < 10 then [digit_char n] else show_nat (n div 10) @ [digit_char (n mod 10)])"

declare show_nat.simps [simp del]

definition show_int :: "int \<Rightarrow> string" where
  "show_int i = (if i < 0 then CHR ''-'' # show_nat (nat (- i)) else show_nat (nat i))"

fun digits_value :: "nat \<Rightarrow> string \<Rightarrow> nat option" where
  "digits_value acc [] = Some acc"
| "digits_value acc (c # cs) =
     (case digit_value c of None \<Rightarrow> None | Some d \<Rightarrow> digits_value (acc * 10 + d) cs)"

text \<open>An empty digit sequence and a lone sign are rejected; \<open>+\<close> is accepted.\<close>

definition parse_digits :: "string \<Rightarrow> nat option" where
  "parse_digits s = (if s = [] then None else digits_value 0 s)"

definition strip_sign :: "char \<Rightarrow> string \<Rightarrow> string option" where
  "strip_sign sign s = (case s of [] \<Rightarrow> None | c # t \<Rightarrow> if c = sign then Some t else None)"

definition parse_unsigned :: "nat \<Rightarrow> string \<Rightarrow> nat option" where
  "parse_unsigned limit s =
     (case parse_digits (case strip_sign CHR ''+'' s of Some t \<Rightarrow> t | None \<Rightarrow> s) of
        None \<Rightarrow> None | Some n \<Rightarrow> if n \<le> limit then Some n else None)"

definition parse_usize :: "string \<Rightarrow> usize option" where
  "parse_usize = parse_unsigned usize_max"

definition parse_i64 :: "string \<Rightarrow> i64 option" where
  "parse_i64 s =
     (case strip_sign CHR ''-'' s of
        Some t \<Rightarrow>
          (case parse_digits t of None \<Rightarrow> None
           | Some n \<Rightarrow> if int n \<le> i64_max + 1 then Some (- int n) else None)
      | None \<Rightarrow> map_option int (parse_unsigned (nat i64_max) s))"

fun split_on :: "char \<Rightarrow> string \<Rightarrow> string list" where
  "split_on sep [] = [[]]"
| "split_on sep (c # cs) =
     (if c = sep then [] # split_on sep cs
      else case split_on sep cs of [] \<Rightarrow> [[c]] | p # ps \<Rightarrow> (c # p) # ps)"

fun join_with :: "char \<Rightarrow> string list \<Rightarrow> string" where
  "join_with sep [] = []"
| "join_with sep [p] = p"
| "join_with sep (p # q # ps) = p @ sep # join_with sep (q # ps)"

subsection \<open>Laws\<close>

lemma of_char_digit: "d < 10 \<Longrightarrow> (of_char (digit_char d) :: nat) = 48 + d"
  by (simp add: digit_char_def)

lemma digit_value_char [simp]: "d < 10 \<Longrightarrow> digit_value (digit_char d) = Some d"
  by (simp add: digit_value_def of_char_digit)

lemma digits_value_append:
  "digits_value acc (xs @ ys) = (case digits_value acc xs of None \<Rightarrow> None | Some v \<Rightarrow> digits_value v ys)"
  by (induction xs arbitrary: acc) (auto split: option.splits)

lemma digits_value_show: "digits_value 0 (show_nat n) = Some n"
proof (induction n rule: show_nat.induct)
  case (1 n)
  then show ?case
    by (subst show_nat.simps) (auto simp: digits_value_append)
qed

lemma show_nat_digits: "c \<in> set (show_nat n) \<Longrightarrow> \<exists>d < 10. c = digit_char d"
proof (induction n rule: show_nat.induct)
  case (1 n)
  then show ?case
    by (subst (asm) (2) show_nat.simps) (auto split: if_splits intro: exI [of _ "n mod 10"])
qed

lemma show_nat_not_Nil [simp]: "show_nat n \<noteq> []"
  by (subst show_nat.simps) auto

lemma digit_char_neq: "d < 10 \<Longrightarrow> (of_char c :: nat) < 48 \<Longrightarrow> digit_char d \<noteq> c"
  using of_char_digit by fastforce

lemma show_nat_head:
  obtains d cs where "d < 10" "show_nat n = digit_char d # cs"
  using show_nat_digits [of _ n] show_nat_not_Nil [of n] by (cases "show_nat n") auto

lemma strip_sign_show:
  "(of_char c :: nat) < 48 \<Longrightarrow> strip_sign c (show_nat n) = None"
  by (rule show_nat_head [of n]) (use digit_char_neq in \<open>auto simp: strip_sign_def\<close>)

lemma parse_unsigned_show: "n \<le> limit \<Longrightarrow> parse_unsigned limit (show_nat n) = Some n"
  by (simp add: parse_unsigned_def strip_sign_show parse_digits_def digits_value_show)

lemma parse_i64_show: "0 \<le> i \<Longrightarrow> i \<le> i64_max \<Longrightarrow> parse_i64 (show_int i) = Some i"
  by (simp add: parse_i64_def show_int_def strip_sign_show parse_unsigned_show)

lemma split_on_not_Nil [simp]: "split_on sep s \<noteq> []"
  by (induction s) (auto split: list.splits)

lemma split_on_plain: "sep \<notin> set s \<Longrightarrow> split_on sep s = [s]"
  by (induction s) auto

lemma split_on_append:
  "sep \<notin> set p \<Longrightarrow> split_on sep (p @ sep # s) = p # split_on sep s"
  by (induction p) (auto split: list.splits)

lemma split_join:
  "ps \<noteq> [] \<Longrightarrow> \<forall>p \<in> set ps. sep \<notin> set p \<Longrightarrow> split_on sep (join_with sep ps) = ps"
proof (induction sep ps rule: join_with.induct)
  case (2 sep p)
  then show ?case by (simp add: split_on_plain)
next
  case (3 sep p q ps)
  then show ?case by (simp add: split_on_append)
qed simp

lemma comma_not_in_show: "0 \<le> i \<Longrightarrow> CHR '','' \<notin> set (show_int i)"
  using show_nat_digits [of "CHR '',''" "nat i"] digit_char_neq [of _ "CHR '',''"]
  by (auto simp: show_int_def dest: sym)

end
