(* ===== verification/Accumulator_Config.thy ===== *)
theory Accumulator_Config
  imports Text_Codec
begin

section \<open>Accumulator configuration\<close>

text \<open>
  \<open>AccumulatorConfig\<close> of \<open>src/core/run_spec.rs\<close> and the discrete projections of
  \<open>src/core/tasks.rs\<close>: validation and the two wire forms (human readable and binary).
  Error messages keep their constant parts. A \<open>BTreeSet\<close> used to detect repetitions is a
  list of what was inserted; a \<open>BTreeMap\<close> is its entries in key order.
\<close>

datatype normalization = Contribution | ConditionalMean

record named_discrete_projection =
  projection_name :: string
  projection_dims :: "usize list"
  fixed_dims :: "(string \<times> i64) list"

record discrete_projection_config =
  projection_normalization :: normalization
  streams :: "string list"
  projection_items :: "named_discrete_projection list"

datatype moment_config = MaxOrder2 | MaxOrder4

datatype training_projection = Component string | Norm

datatype accumulator_config =
    Empty
  | Vector (vector_components: "string list") (projection: training_projection)
      (discrete_part: "discrete_projection_config option") (moment_part: moment_config)
  | Gammaloop
  | FullVector "string list"

subsection \<open>Discrete projections\<close>

fun check_dims :: "usize list \<Rightarrow> usize list \<Rightarrow> string + usize list" where
  "check_dims seen [] = Inr seen"
| "check_dims seen (d # ds) =
     (if d \<in> set seen then Inl ''repeats dims entry'' else check_dims (d # seen) ds)"

fun check_fixed :: "usize list \<Rightarrow> string list \<Rightarrow> string + unit" where
  "check_fixed seen [] = Inr ()"
| "check_fixed seen (k # ks) =
     (case parse_usize k of
        None \<Rightarrow> Inl ''is not a non-negative integer dimension index''
      | Some d \<Rightarrow> if d \<in> set seen then Inl ''uses dimension in both dims and fixed_dims''
                  else check_fixed seen ks)"

definition named_projection_validate :: "named_discrete_projection \<Rightarrow> string + unit" where
  "named_projection_validate p =
     (let trimmed = trim (projection_name p) in
      if trimmed = [] then Inl ''items.name must be non-empty''
      else if trimmed \<noteq> projection_name p then Inl ''items.name cannot have leading/trailing whitespace''
      else if projection_dims p = [] then Inl ''items.dims must contain at least one dimension''
      else and_then (check_dims [] (projection_dims p)) (\<lambda>seen.
        check_fixed seen (map fst (fixed_dims p))))"

fun check_streams :: "string list \<Rightarrow> string list \<Rightarrow> string + unit" where
  "check_streams seen [] = Inr ()"
| "check_streams seen (s # ss) =
     (let trimmed = trim s in
      if trimmed = [] then Inl ''streams must not contain empty names''
      else if trimmed \<noteq> s then Inl ''streams entries cannot have leading/trailing whitespace''
      else if s \<in> set seen then Inl ''streams contains duplicate name''
      else check_streams (s # seen) ss)"

fun check_items :: "string list \<Rightarrow> named_discrete_projection list \<Rightarrow> string + unit" where
  "check_items names [] = Inr ()"
| "check_items names (p # ps) =
     and_then (named_projection_validate p) (\<lambda>_.
       if projection_name p \<in> set names then Inl ''items contains duplicate name''
       else check_items (projection_name p # names) ps)"

definition discrete_projection_validate :: "discrete_projection_config \<Rightarrow> string + unit" where
  "discrete_projection_validate c =
     (if projection_items c = [] then Inl ''items must contain at least one entry''
      else and_then (check_streams [] (streams c)) (\<lambda>_. check_items [] (projection_items c)))"

subsection \<open>Accumulators\<close>

definition scalar_components :: "string list" where
  "scalar_components = [''value'']"

definition accumulator_vector :: "string list \<Rightarrow> training_projection \<Rightarrow> accumulator_config" where
  "accumulator_vector cs p = Vector cs p None MaxOrder2"

definition accumulator_scalar :: accumulator_config where
  "accumulator_scalar = accumulator_vector scalar_components (Component ''value'')"

fun accumulator_components :: "accumulator_config \<Rightarrow> string list option" where
  "accumulator_components (Vector cs _ _ _) = Some cs"
| "accumulator_components (FullVector cs) = Some cs"
| "accumulator_components _ = None"

definition is_scalar :: "accumulator_config \<Rightarrow> bool" where
  "is_scalar c \<longleftrightarrow> (case accumulator_components c of None \<Rightarrow> False | Some cs \<Rightarrow> cs = [''value''])"

fun discrete_projections :: "accumulator_config \<Rightarrow> discrete_projection_config option" where
  "discrete_projections (Vector _ _ d _) = d"
| "discrete_projections _ = None"

fun moments :: "accumulator_config \<Rightarrow> moment_config" where
  "moments (Vector _ _ _ m) = m"
| "moments _ = MaxOrder2"

fun check_component_names :: "string list \<Rightarrow> string list \<Rightarrow> string + unit" where
  "check_component_names seen [] = Inr ()"
| "check_component_names seen (n # ns) =
     (if trim n = [] \<or> n = ''training_projection'' \<or> n \<in> set seen
      then Inl ''accumulator component names must be non-empty, unique, and not training_projection''
      else check_component_names (n # seen) ns)"

fun check_stream_refs :: "string list \<Rightarrow> string list \<Rightarrow> string + unit" where
  "check_stream_refs cs [] = Inr ()"
| "check_stream_refs cs (s # ss) =
     (if s \<noteq> ''training_projection'' \<and> s \<notin> set cs
      then Inl ''discrete_projections.streams references unknown vector stream''
      else check_stream_refs cs ss)"

definition accumulator_validate :: "accumulator_config \<Rightarrow> string + unit" where
  "accumulator_validate c =
     and_then
       (case accumulator_components c of
          None \<Rightarrow> Inr ()
        | Some cs \<Rightarrow> if cs = [] then Inl ''accumulator components must not be empty''
                    else check_component_names [] cs) (\<lambda>_.
     case c of
       Vector cs p d m \<Rightarrow>
         and_then
           (case p of
              Component n \<Rightarrow> require (n \<in> set cs) ''training projection references unknown component''
            | Norm \<Rightarrow> Inr ()) (\<lambda>_.
           case d of
             None \<Rightarrow> Inr ()
           | Some cfg \<Rightarrow> and_then (discrete_projection_validate cfg) (\<lambda>_. check_stream_refs cs (streams cfg)))
     | _ \<Rightarrow> Inr ())"

subsection \<open>Wire forms\<close>

datatype accumulator_input =
    InEmpty
  | InScalar "discrete_projection_config option" moment_config
  | InVector "string list" "training_projection option" "discrete_projection_config option" moment_config
  | InGammaloop
  | InFullVector "string list"

datatype human_input = Named string | Rich accumulator_input

text \<open>A bare name is read as an object with only its \<open>kind\<close>, the other fields at their defaults.\<close>

definition named_input :: "string \<Rightarrow> string + accumulator_input" where
  "named_input n =
     (if n = ''empty'' then Inr InEmpty
      else if n = ''scalar'' then Inr (InScalar None MaxOrder2)
      else if n = ''vector'' then Inr (InVector scalar_components None None MaxOrder2)
      else if n = ''gammaloop'' then Inr InGammaloop
      else if n = ''full_vector'' then Inr (InFullVector scalar_components)
      else Inl ''unknown variant'')"

fun write_human :: "accumulator_config \<Rightarrow> human_input" where
  "write_human Empty = Rich InEmpty"
| "write_human Gammaloop = Rich InGammaloop"
| "write_human (FullVector cs) = Rich (InFullVector cs)"
| "write_human (Vector cs p d m) = Rich (InVector cs (Some p) d m)"

fun accumulator_of_input :: "accumulator_input \<Rightarrow> string + accumulator_config" where
  "accumulator_of_input InEmpty = Inr Empty"
| "accumulator_of_input InGammaloop = Inr Gammaloop"
| "accumulator_of_input (InFullVector cs) = Inr (FullVector cs)"
| "accumulator_of_input (InScalar d m) = Inr (Vector scalar_components (Component ''value'') d m)"
| "accumulator_of_input (InVector cs p d m) =
     and_then
       (case p of Some q \<Rightarrow> Inr q
        | None \<Rightarrow> (case cs of [] \<Rightarrow> Inl ''accumulator components must not be empty''
                  | c # _ \<Rightarrow> Inr (Component c)))
       (\<lambda>q. Inr (Vector cs q d m))"

definition read_human :: "human_input \<Rightarrow> string + accumulator_config" where
  "read_human i =
     and_then (case i of Rich r \<Rightarrow> Inr r | Named n \<Rightarrow> named_input n) (\<lambda>r.
     and_then (accumulator_of_input r) (\<lambda>c.
     and_then (accumulator_validate c) (\<lambda>_. Inr c)))"

datatype binary_projection = BinComponent string | BinNorm

datatype binary_accumulator =
    BinEmpty
  | BinVector "string list" binary_projection "discrete_projection_config option" moment_config
  | BinGammaloop
  | BinFullVector "string list"

fun write_binary :: "accumulator_config \<Rightarrow> binary_accumulator" where
  "write_binary Empty = BinEmpty"
| "write_binary Gammaloop = BinGammaloop"
| "write_binary (FullVector cs) = BinFullVector cs"
| "write_binary (Vector cs p d m) =
     BinVector cs (case p of Component n \<Rightarrow> BinComponent n | Norm \<Rightarrow> BinNorm) d m"

fun accumulator_of_binary :: "binary_accumulator \<Rightarrow> accumulator_config" where
  "accumulator_of_binary BinEmpty = Empty"
| "accumulator_of_binary BinGammaloop = Gammaloop"
| "accumulator_of_binary (BinFullVector cs) = FullVector cs"
| "accumulator_of_binary (BinVector cs p d m) =
     Vector cs (case p of BinComponent n \<Rightarrow> Component n | BinNorm \<Rightarrow> Norm) d m"

definition read_binary :: "binary_accumulator \<Rightarrow> string + accumulator_config" where
  "read_binary b =
     (let c = accumulator_of_binary b in and_then (accumulator_validate c) (\<lambda>_. Inr c))"

subsection \<open>What a valid configuration is\<close>

lemma check_dims_iff: "check_dims seen ds = Inr r \<longleftrightarrow> distinct ds \<and> set ds \<inter> set seen = {} \<and> r = rev ds @ seen"
  by (induction ds arbitrary: seen) auto

lemma check_fixed_iff:
  "check_fixed seen ks = Inr u \<longleftrightarrow> (\<forall>k \<in> set ks. \<exists>d. parse_usize k = Some d \<and> d \<notin> set seen)"
  by (induction ks) (auto split: option.splits)

lemma check_streams_iff:
  "check_streams seen ss = Inr u \<longleftrightarrow>
   (\<forall>s \<in> set ss. s \<noteq> [] \<and> trim s = s) \<and> distinct ss \<and> set ss \<inter> set seen = {}"
  by (induction ss arbitrary: seen) (auto simp: Let_def)

lemma check_items_iff:
  "check_items names ps = Inr u \<longleftrightarrow>
   (\<forall>p \<in> set ps. named_projection_validate p = Inr ()) \<and> distinct (map projection_name ps) \<and>
   set (map projection_name ps) \<inter> set names = {}"
  by (induction ps arbitrary: names) auto

lemma check_component_names_iff:
  "check_component_names seen ns = Inr u \<longleftrightarrow>
   (\<forall>n \<in> set ns. trim n \<noteq> [] \<and> n \<noteq> ''training_projection'') \<and> distinct ns \<and> set ns \<inter> set seen = {}"
  by (induction ns arbitrary: seen) auto

lemma check_stream_refs_iff:
  "check_stream_refs cs ss = Inr u \<longleftrightarrow> set ss \<subseteq> insert ''training_projection'' (set cs)"
  by (induction ss) auto

definition named_projection_ok :: "named_discrete_projection \<Rightarrow> bool" where
  "named_projection_ok p \<longleftrightarrow> projection_name p \<noteq> [] \<and> trim (projection_name p) = projection_name p \<and>
     projection_dims p \<noteq> [] \<and> distinct (projection_dims p) \<and>
     (\<forall>k \<in> set (map fst (fixed_dims p)). \<exists>d. parse_usize k = Some d \<and> d \<notin> set (projection_dims p))"

definition discrete_projection_ok :: "string list \<Rightarrow> discrete_projection_config \<Rightarrow> bool" where
  "discrete_projection_ok cs c \<longleftrightarrow> projection_items c \<noteq> [] \<and>
     (\<forall>s \<in> set (streams c). s \<noteq> [] \<and> trim s = s \<and> (s = ''training_projection'' \<or> s \<in> set cs)) \<and>
     distinct (streams c) \<and> (\<forall>p \<in> set (projection_items c). named_projection_ok p) \<and>
     distinct (map projection_name (projection_items c))"

definition names_ok :: "string list \<Rightarrow> bool" where
  "names_ok cs \<longleftrightarrow> cs \<noteq> [] \<and> distinct cs \<and> (\<forall>n \<in> set cs. trim n \<noteq> [] \<and> n \<noteq> ''training_projection'')"

fun accumulator_ok :: "accumulator_config \<Rightarrow> bool" where
  "accumulator_ok Empty = True"
| "accumulator_ok Gammaloop = True"
| "accumulator_ok (FullVector cs) = names_ok cs"
| "accumulator_ok (Vector cs p d m) =
     (names_ok cs \<and> (\<forall>n. p = Component n \<longrightarrow> n \<in> set cs) \<and>
      (\<forall>c. d = Some c \<longrightarrow> discrete_projection_ok cs c))"

lemma named_projection_validate_iff:
  "named_projection_validate p = Inr () \<longleftrightarrow> named_projection_ok p"
  unfolding named_projection_validate_def named_projection_ok_def Let_def
  by (auto simp: check_dims_iff check_fixed_iff)

lemma discrete_projection_validate_iff:
  "discrete_projection_validate c = Inr () \<and> check_stream_refs cs (streams c) = Inr () \<longleftrightarrow>
   discrete_projection_ok cs c"
  unfolding discrete_projection_validate_def discrete_projection_ok_def
  by (auto simp: check_streams_iff check_items_iff named_projection_validate_iff check_stream_refs_iff)

lemma accumulator_validate_iff: "accumulator_validate c = Inr () \<longleftrightarrow> accumulator_ok c"
proof (cases c)
  case (Vector cs p d m)
  then show ?thesis
    using discrete_projection_validate_iff [of "the d" cs]
    by (auto simp: accumulator_validate_def check_component_names_iff names_ok_def
        split: training_projection.splits option.splits if_splits)
qed (auto simp: accumulator_validate_def check_component_names_iff names_ok_def)

text \<open>A configuration is accepted exactly when its component names are unique, non-blank and not the
  reserved stream, the projection and the discrete streams name known components, and every
  discrete projection has a trimmed unique name over distinct free and fixed dimensions.\<close>

theorem accumulator_validate_spec: "is_ok (accumulator_validate c) = accumulator_ok c"
proof -
  have "is_ok (accumulator_validate c) \<longleftrightarrow> accumulator_validate c = Inr ()" by (auto simp: is_ok_iff)
  then show ?thesis by (simp add: accumulator_validate_iff)
qed

lemma read_valid:
  "read_human i = Inr c \<Longrightarrow> accumulator_ok c"
  "read_binary b = Inr c \<Longrightarrow> accumulator_ok c"
  by (auto simp: read_human_def read_binary_def Let_def accumulator_validate_iff)

text \<open>C40. Both wire forms restore exactly the configurations that validate: writing and reading back
  gives the same configuration if it is valid and an error otherwise.\<close>

theorem accumulator_wire_roundtrip:
  "(read_human (write_human c) = Inr c \<longleftrightarrow> accumulator_ok c) \<and>
   (read_binary (write_binary c) = Inr c \<longleftrightarrow> accumulator_ok c) \<and>
   is_ok (read_human (write_human c)) = accumulator_ok c \<and>
   is_ok (read_binary (write_binary c)) = accumulator_ok c"
proof -
  have h: "read_human (write_human c) = and_then (accumulator_validate c) (\<lambda>_. Inr c)"
    by (cases c) (simp_all add: read_human_def)
  have "accumulator_of_binary (write_binary c) = c"
    by (cases c) (simp_all split: training_projection.splits)
  then have b: "read_binary (write_binary c) = and_then (accumulator_validate c) (\<lambda>_. Inr c)"
    by (simp add: read_binary_def)
  show ?thesis unfolding h b by (auto simp: is_ok_iff accumulator_validate_iff)
qed

end
