(* ===== verification/Stratification.thy ===== *)
theory Stratification
  imports Domain_Laws Accumulator_Config Sample_Batch
begin

section \<open>Output-space stratification\<close>

text \<open>
  \<open>StratificationConfig\<close> and \<open>StratificationPlan\<close> of \<open>src/core/stratification.rs\<close>, and
  the removal of the stratum prefix before evaluation from
  \<open>src/evaluation/stratification.rs\<close>. The centers, a \<open>BTreeMap\<close>, are its entries in key
  order. The \<open>hypot\<close> of the platform's C library is the parameter \<open>hyp\<close>.
\<close>

datatype estimator = Pooled | Stratified

record stratification_config =
  voronoi_domain :: domain
  centers :: "(i64 list \<times> f64 list) list"
  scales :: "f64 list option"

record stratification_plan =
  proposal_id :: string
  partition :: stratification_config
  probabilities :: "f64 list option"
  plan_components :: "string list"

definition engine_of_domain :: "domain_error \<Rightarrow> engine_error" where
  "engine_of_domain e = InvalidInput ''invalid domain''"

text \<open>\<open>centers.values().next().map_or(0, Vec::len)\<close>\<close>

definition center_width :: "stratification_config \<Rightarrow> usize" where
  "center_width c = (case centers c of [] \<Rightarrow> 0 | (_, v) # _ \<Rightarrow> length v)"

text \<open>Equality of \<open>Vec<f64>\<close> is element-wise \<open>==\<close>.\<close>

definition f64_list_eq :: "f64 list \<Rightarrow> f64 list \<Rightarrow> bool" where
  "f64_list_eq = list_all2 f64_eq"

fun some_repeated :: "f64 list list \<Rightarrow> f64 list list \<Rightarrow> bool" where
  "some_repeated old [] = False"
| "some_repeated old (c # cs) = (list_ex (\<lambda>o'. f64_list_eq o' c) old \<or> some_repeated (old @ [c]) cs)"

definition config_validate :: "stratification_config \<Rightarrow> engine_error + unit" where
  "config_validate c =
     and_then (map_err engine_of_domain (stratum_prefixes (voronoi_domain c))) (\<lambda>prefixes.
     and_then (map_err engine_of_domain (with_integrand (voronoi_domain c) (domain_continuous 0))) (\<lambda>_.
       let vals = map snd (centers c); width = center_width c in
       if map fst (centers c) \<noteq> prefixes
       then Inl (InvalidInput ''Voronoi centers must exactly cover all complete stratum prefixes in the domain'')
       else if width = 0 \<or> list_ex (\<lambda>v. length v \<noteq> width \<or> list_ex (\<lambda>x. \<not> f64_is_finite x) v) vals
       then Inl (InvalidInput ''Voronoi centers must be nonempty finite vectors of equal width'')
       else if some_repeated [] vals then Inl (InvalidInput ''Voronoi centers must be distinct'')
       else if (case scales c of None \<Rightarrow> False
                | Some s \<Rightarrow> length s \<noteq> width \<or> list_ex (\<lambda>v. \<not> f64_is_finite v \<or> f64_le v f64_zero) s)
       then Inl (InvalidInput ''Voronoi scales must match the output width and be finite and positive'')
       else Inr ()))"

definition config_components :: "accumulator_config \<Rightarrow> engine_error + string list" where
  "config_components a =
     (case a of
        Vector cs _ _ _ \<Rightarrow> Inr cs
      | Gammaloop \<Rightarrow> Inr [''real'', ''imag'']
      | _ \<Rightarrow> Inl (InvalidInput
          ''stratification requires a statistical scalar/vector or GammaLoop accumulator''))"

definition validate_accumulator :: "stratification_config \<Rightarrow> accumulator_config \<Rightarrow> engine_error + unit" where
  "validate_accumulator c a =
     and_then (config_validate c) (\<lambda>_. and_then (config_components a) (\<lambda>comps.
       if length comps \<noteq> center_width c
       then Inl (InvalidInput ''Voronoi center width must match the evaluator output components'')
       else Inr ()))"

definition config_prefixes :: "stratification_config \<Rightarrow> i64 list list" where
  "config_prefixes c = map fst (centers c)"

text \<open>\<open>expect("validated stratum label")\<close>: None is the panic.\<close>

definition config_prefix :: "stratification_config \<Rightarrow> usize \<Rightarrow> i64 list option" where
  "config_prefix c k = nth_opt (config_prefixes c) k"

fun position :: "('a \<Rightarrow> bool) \<Rightarrow> 'a list \<Rightarrow> usize option" where
  "position P [] = None"
| "position P (x # xs) = (if P x then Some 0 else map_option Suc (position P xs))"

definition config_label :: "stratification_config \<Rightarrow> i64 list \<Rightarrow> engine_error + usize" where
  "config_label c p = ok_or (position (\<lambda>q. q = p) (config_prefixes c)) (Eval ''unknown stratum prefix'')"

definition sampling_domain :: "stratification_config \<Rightarrow> domain \<Rightarrow> engine_error + domain" where
  "sampling_domain c integrand =
     and_then (config_validate c) (\<lambda>_. map_err engine_of_domain (with_integrand (voronoi_domain c) integrand))"

subsection \<open>Classification\<close>

text \<open>\<open>s[j]\<close> panics beyond the scales; a validated configuration never gets there.\<close>

definition scale_at :: "f64 list option \<Rightarrow> usize \<Rightarrow> engine_error + f64" where
  "scale_at s j = (case s of None \<Rightarrow> Inr f64_one | Some xs \<Rightarrow> ok_or (nth_opt xs j) (Engine ''panic''))"

fun distance_loop ::
  "(f64 \<Rightarrow> f64 \<Rightarrow> f64) \<Rightarrow> f64 list option \<Rightarrow> usize \<Rightarrow> f64 \<Rightarrow> (f64 \<times> f64) list \<Rightarrow> engine_error + f64" where
  "distance_loop hyp s j acc [] = Inr acc"
| "distance_loop hyp s j acc ((v, c) # rest) =
     and_then (scale_at s j) (\<lambda>scale.
       let delta = f64_div (f64_sub v c) scale in
       if \<not> f64_is_finite delta then Inl (Eval ''Voronoi distance overflow'')
       else distance_loop hyp s (Suc j) (hyp acc delta) rest)"

definition distance :: "(f64 \<Rightarrow> f64 \<Rightarrow> f64) \<Rightarrow> f64 list option \<Rightarrow> f64 list \<Rightarrow> f64 list \<Rightarrow> engine_error + f64" where
  "distance hyp s vals center =
     and_then (distance_loop hyp s 0 f64_zero (zip vals center)) (\<lambda>d.
       if f64_is_finite d then Inr d else Inl (Eval ''Voronoi distance overflow''))"

fun nearest_loop ::
  "('c \<Rightarrow> engine_error + f64) \<Rightarrow> usize \<Rightarrow> usize \<times> f64 \<Rightarrow> 'c list \<Rightarrow> engine_error + (usize \<times> f64)" where
  "nearest_loop dst k best [] = Inr best"
| "nearest_loop dst k best (c # cs) =
     and_then (dst c) (\<lambda>d. nearest_loop dst (Suc k) (if f64_lt d (snd best) then (k, d) else best) cs)"

definition classify :: "(f64 \<Rightarrow> f64 \<Rightarrow> f64) \<Rightarrow> stratification_config \<Rightarrow> f64 list \<Rightarrow> engine_error + usize" where
  "classify hyp c vals =
     (if length vals \<noteq> center_width c \<or> list_ex (\<lambda>v. \<not> f64_is_finite v) vals
      then Inl (Eval ''invalid Voronoi classification values'')
      else and_then (nearest_loop (distance hyp (scales c) vals) 0 (0, f64_infinity) (map snd (centers c)))
        (\<lambda>best. Inr (fst best)))"

subsection \<open>Plans\<close>

definition plan_validate :: "stratification_plan \<Rightarrow> engine_error + unit" where
  "plan_validate p =
     (if proposal_id p = [] then Inl (InvalidInput ''stratification plan requires a proposal identity'')
      else and_then (config_validate (partition p)) (\<lambda>_.
        if length (plan_components p) \<noteq> center_width (partition p)
        then Inl (InvalidInput ''stratification plan component layout mismatch'')
        else case probabilities p of None \<Rightarrow> Inr ()
        | Some ps \<Rightarrow>
            if length ps \<noteq> length (centers (partition p))
               \<or> list_ex (\<lambda>x. \<not> f64_is_finite x \<or> f64_le x f64_zero \<or> f64_lt f64_one x) ps
               \<or> f64_lt (f64_of_rat (1 / 10 ^ 12)) (f64_abs (f64_sub (f64_sum ps) f64_one))
            then Inl (InvalidInput ''stratum probabilities must be finite, positive, complete and normalized'')
            else Inr ()))"

definition plan_matches ::
  "(f64 \<Rightarrow> f64 \<Rightarrow> f64) \<Rightarrow> stratification_plan \<Rightarrow> usize \<Rightarrow> f64 list \<Rightarrow> engine_error + bool" where
  "plan_matches hyp p k vals =
     (if k \<ge> length (centers (partition p)) then Inl (Eval ''invalid stratum label'')
      else and_then (classify hyp (partition p) vals) (\<lambda>l. Inr (l = k)))"

subsection \<open>Canonical prefix keys\<close>

definition encode_prefix :: "i64 list \<Rightarrow> string" where
  "encode_prefix p = join_with CHR '','' (map show_int p)"

definition decode_prefix :: "string \<Rightarrow> string + i64 list" where
  "decode_prefix key =
     and_then (try_map (\<lambda>s. ok_or (parse_i64 s) ''invalid digit found in string'') (split_on CHR '','' key)) (\<lambda>p.
       if list_ex (\<lambda>v. v < 0) p \<or> encode_prefix p \<noteq> key
       then Inl ''stratum keys must be canonical comma-separated nonnegative integers''
       else Inr p)"

subsection \<open>Removing the stratum prefix\<close>

definition starts_with :: "i64 list \<Rightarrow> i64 list \<Rightarrow> bool" where
  "starts_with xs p \<longleftrightarrow> take (length p) xs = p"

fun strip_points :: "i64 list list \<Rightarrow> point list \<Rightarrow> engine_error + (point list \<times> usize list)" where
  "strip_points ps [] = Inr ([], [])"
| "strip_points ps (x # xs) =
     and_then (ok_or (position (starts_with (point_discrete x)) ps) (Eval ''missing or invalid stratum prefix'')) (\<lambda>k.
     and_then (strip_points ps xs) (\<lambda>(ys, ks).
       Inr (x\<lparr>point_discrete := drop (length (ps ! k)) (point_discrete x)\<rparr> # ys, k # ks)))"

definition integrand_batch ::
  "point list \<Rightarrow> stratification_plan \<Rightarrow> engine_error + (point list \<times> usize list)" where
  "integrand_batch batch p =
     and_then (plan_validate p) (\<lambda>_. strip_points (config_prefixes (partition p)) batch)"

subsection \<open>Laws of positions\<close>

lemma position_Some:
  "position P xs = Some k \<longleftrightarrow> k < length xs \<and> P (xs ! k) \<and> (\<forall>j < k. \<not> P (xs ! j))"
proof (induction xs arbitrary: k)
  case (Cons x xs)
  show ?case
  proof (cases "P x")
    case False
    then show ?thesis by (cases k) (auto simp: Cons.IH All_less_Suc2)
  qed (cases k; auto)
qed simp

lemma position_exists: "x \<in> set xs \<Longrightarrow> P x \<Longrightarrow> \<exists>k. position P xs = Some k"
  by (induction xs) auto

lemma starts_with_prefix: "starts_with xs p \<longleftrightarrow> prefix p xs"
  by (auto simp: starts_with_def prefix_def) (metis append_take_drop_id)

subsection \<open>What validation establishes\<close>

lemma config_validate_facts:
  assumes "config_validate c = Inr ()"
  shows "stratum_prefixes (voronoi_domain c) = Inr (config_prefixes c)"
    and "[] \<notin> set (config_prefixes c)"
    and "0 < center_width c"
    and "v \<in> set (map snd (centers c)) \<Longrightarrow> length v = center_width c \<and> list_all f64_is_finite v"
    and "scales c = Some s \<Longrightarrow> length s = center_width c"
    and "centers c \<noteq> []"
proof -
  obtain ps where ps: "stratum_prefixes (voronoi_domain c) = Inr ps" "map fst (centers c) = ps"
    and d: "\<exists>e. with_integrand (voronoi_domain c) (domain_continuous 0) = Inr e"
    and w: "center_width c \<noteq> 0"
      "\<not> list_ex (\<lambda>v. length v \<noteq> center_width c \<or> list_ex (\<lambda>x. \<not> f64_is_finite x) v) (map snd (centers c))"
    and s: "case scales c of None \<Rightarrow> True | Some s \<Rightarrow> length s = center_width c"
    using assms by (auto simp: config_validate_def Let_def split: if_splits option.splits)
  show "stratum_prefixes (voronoi_domain c) = Inr (config_prefixes c)"
    using ps by (simp add: config_prefixes_def)
  show "[] \<notin> set (config_prefixes c)"
    using d ps by (auto simp: with_integrand_def config_prefixes_def split: if_splits)
  show "0 < center_width c" using w(1) by simp
  show "v \<in> set (map snd (centers c)) \<Longrightarrow> length v = center_width c \<and> list_all f64_is_finite v"
    using w(2) by (auto simp: list_ex_iff list_all_iff)
  show "scales c = Some s \<Longrightarrow> length s = center_width c" using s by simp
  show "centers c \<noteq> []" using w(1) by (auto simp: center_width_def)
qed

lemma prefix_values:
  "visit_validate d False = Inr () \<Longrightarrow> sizes_ok d \<Longrightarrow> p \<in> set (visit_prefixes d []) \<Longrightarrow> v \<in> set p \<Longrightarrow>
   0 \<le> v \<and> v \<le> i64_max"
proof (induction d arbitrary: p v rule: domain_induct)
  case (Rectangular s cs c)
  have sz: "list_all (\<lambda>n. n \<le> 2 ^ 63) (take s cs)"
    using Rectangular.prems(2) by (simp add: list_all_take)
  then have "list_all2 (\<lambda>x n. 0 \<le> x \<and> x < int n) p (take s cs)"
    using Rectangular.prems(3) product_prefixes_mem [OF sz] by (simp only: mem_visit_rect)
  from list_all2_set1 [OF this Rectangular.prems(4)]
  obtain n where "n \<in> set (take s cs)" "0 \<le> v" "v < int n" by auto
  moreover have "n \<le> 2 ^ 63" using sz calculation(1) by (auto simp: list_all_iff)
  then have "int n \<le> int (2 ^ 63)" by (simp only: of_nat_le_iff)
  ultimately show ?case by (simp add: i64_max_def)
next
  case (Discrete l r bs)
  show ?case
  proof (cases r)
    case Integrand
    then show ?thesis using Discrete.prems by simp
  next
    case Stratum
    obtain b q where b: "b \<in> set bs" "p = usize_as_i64 (index b) # q" "q \<in> set (visit_prefixes (branch_domain b) [])"
      using Discrete.prems(3) unfolding Stratum visit_prefixes_Stratum by auto
    have i: "int (index b) \<le> i64_max"
      using Discrete.prems(1) b(1) by (simp add: validate_Discrete_iff)
    have m: "DomainBranch (index b) (branch_domain b) \<in> set bs" using b(1) by simp
    have "0 \<le> w \<and> w \<le> i64_max" if "w \<in> set q" for w
      using Discrete.IH [OF m _ _ b(3) that] validate_branch [OF Discrete.prems(1) m]
        sizes_ok_branch [OF Discrete.prems(2) m] by blast
    moreover have "0 \<le> usize_as_i64 (index b) \<and> usize_as_i64 (index b) \<le> i64_max"
      using i by (simp add: i64_max_def)
    ultimately show ?thesis using Discrete.prems(4) b(2) by auto
  qed
qed

subsection \<open>The nearest center\<close>

lemma distance_not_NaN: "distance hyp s vals x = Inr d \<Longrightarrow> d \<noteq> F_NaN \<and> f64_is_finite d"
  by (auto simp: distance_def split: if_splits)

lemma nearest_loop_sound:
  assumes "nearest_loop dst k0 best cs = Inr (k, d)" and "snd best \<noteq> F_NaN"
    and "\<And>c d. dst c = Inr d \<Longrightarrow> d \<noteq> F_NaN"
  shows "(\<forall>j < length cs. \<exists>dj. dst (cs ! j) = Inr dj \<and> \<not> f64_lt dj d) \<and>
    ((k, d) = best \<or>
     (\<exists>i < length cs. k = k0 + i \<and> dst (cs ! i) = Inr d \<and> f64_lt d (snd best) \<and>
        (\<forall>j < i. \<exists>dj. dst (cs ! j) = Inr dj \<and> f64_lt d dj)))"
  using assms(1,2)
proof (induction cs arbitrary: k0 best)
  case (Cons c cs)
  obtain d0 where d0: "dst c = Inr d0" "d0 \<noteq> F_NaN"
    and rest: "nearest_loop dst (Suc k0) (if f64_lt d0 (snd best) then (k0, d0) else best) cs = Inr (k, d)"
    using Cons.prems(1) assms(3) by auto
  let ?b = "if f64_lt d0 (snd best) then (k0, d0) else best"
  have IH: "(\<forall>j < length cs. \<exists>dj. dst (cs ! j) = Inr dj \<and> \<not> f64_lt dj d) \<and>
    ((k, d) = ?b \<or>
     (\<exists>i < length cs. k = Suc k0 + i \<and> dst (cs ! i) = Inr d \<and> f64_lt d (snd ?b) \<and>
        (\<forall>j < i. \<exists>dj. dst (cs ! j) = Inr dj \<and> f64_lt d dj)))"
    by (rule Cons.IH [OF rest]) (use Cons.prems(2) d0(2) in auto)
  from IH consider (keep) "(k, d) = ?b"
    | (later) i where "i < length cs" "k = Suc k0 + i" "dst (cs ! i) = Inr d" "f64_lt d (snd ?b)"
        "\<forall>j < i. \<exists>dj. dst (cs ! j) = Inr dj \<and> f64_lt d dj" by blast
  then show ?case
  proof cases
    case keep
    show ?thesis
    proof (cases "f64_lt d0 (snd best)")
      case True
      with keep d0 have "k = k0 \<and> d = d0" by simp
      then show ?thesis
        using IH True d0 by (auto simp: nth_Cons split: nat.splits intro!: exI [of _ 0])
    next
      case False
      with keep have "(k, d) = best" by simp
      then show ?thesis using IH False d0 by (auto simp: nth_Cons split: nat.splits)
    qed
  next
    case later
    have below: "f64_lt d d0 \<and> f64_lt d (snd best)"
    proof (cases "f64_lt d0 (snd best)")
      case True
      then show ?thesis using later(4) f64_lt_trans by auto
    next
      case False
      then have "f64_le (snd best) d0" using f64_not_lt [OF d0(2) Cons.prems(2)] by simp
      then show ?thesis using later(4) False f64_lt_le_trans by auto
    qed
    then have "\<not> f64_lt d0 d" using f64_lt_trans f64_lt_irrefl by blast
    then show ?thesis
      using IH d0 later below
      by (auto simp: nth_Cons split: nat.splits intro!: exI [of _ "Suc i"])
  qed
qed simp

text \<open>Classification returns the nearest center: every distance is finite, none is smaller than
  that of the returned label, and an earlier label is never tied with it.\<close>

theorem classify_nearest:
  assumes "config_validate c = Inr ()" and "classify hyp c vals = Inr k"
  shows "k < length (centers c) \<and>
    (\<exists>d. distance hyp (scales c) vals (snd (centers c ! k)) = Inr d \<and>
      (\<forall>j < length (centers c). \<exists>dj. distance hyp (scales c) vals (snd (centers c ! j)) = Inr dj \<and>
        \<not> f64_lt dj d \<and> (j < k \<longrightarrow> f64_lt d dj)))"
proof -
  let ?dst = "distance hyp (scales c) vals" and ?cs = "map snd (centers c)"
  obtain d where loop: "nearest_loop ?dst 0 (0, f64_infinity) ?cs = Inr (k, d)"
    using assms(2) by (auto simp: classify_def split: if_splits)
  have sound: "(\<forall>j < length ?cs. \<exists>dj. ?dst (?cs ! j) = Inr dj \<and> \<not> f64_lt dj d) \<and>
    ((k, d) = (0, f64_infinity) \<or>
     (\<exists>i < length ?cs. k = 0 + i \<and> ?dst (?cs ! i) = Inr d \<and> f64_lt d (snd (0 :: usize, f64_infinity)) \<and>
        (\<forall>j < i. \<exists>dj. ?dst (?cs ! j) = Inr dj \<and> f64_lt d dj)))"
    by (rule nearest_loop_sound [OF loop]) (auto simp: f64_infinity_def dest: distance_not_NaN)
  have ne: "0 < length (centers c)" using config_validate_facts(6) [OF assms(1)] by simp
  have "(k, d) \<noteq> (0, f64_infinity)"
  proof
    assume eq: "(k, d) = (0, f64_infinity)"
    obtain d0 where "?dst (?cs ! 0) = Inr d0" "\<not> f64_lt d0 f64_infinity"
      using sound ne eq by auto
    then show False using distance_not_NaN [of hyp "scales c" vals "?cs ! 0" d0]
      by (cases d0) (auto simp: f64_infinity_def)
  qed
  then have best: "k < length (centers c)" "?dst (?cs ! k) = Inr d"
    "\<forall>j < k. \<exists>dj. ?dst (?cs ! j) = Inr dj \<and> f64_lt d dj"
    and all: "\<forall>j < length (centers c). \<exists>dj. ?dst (?cs ! j) = Inr dj \<and> \<not> f64_lt dj d"
    using sound by auto
  have "\<exists>dj. ?dst (snd (centers c ! j)) = Inr dj \<and> \<not> f64_lt dj d \<and> (j < k \<longrightarrow> f64_lt d dj)"
    if j: "j < length (centers c)" for j
  proof -
    obtain dj where dj: "?dst (snd (centers c ! j)) = Inr dj" "\<not> f64_lt dj d"
      using all j by (auto simp: nth_map)
    moreover have "j < k \<longrightarrow> f64_lt d dj" using best(3) j dj(1) by (auto simp: nth_map)
    ultimately show ?thesis by blast
  qed
  then show ?thesis using best(1,2) by (auto simp: nth_map)
qed

definition two_strata :: stratification_config where
  "two_strata = \<lparr>voronoi_domain = strata [2],
     centers = [([0], [F_Num False 0]), ([1], [F_Num False 2])], scales = None\<rparr>"

lemma two_strata_valid: "config_validate two_strata = Inr ()"
  by (simp add: config_validate_def two_strata_def strata_def stratum_prefixes_def validate_def
      with_integrand_def domain_continuous_def rectangular_def rectangular_with_cardinalities_def
      center_width_def f64_list_eq_def f64_signed_def upt_rec Let_def)

lemma two_strata_classify:
  "classify (\<lambda>a b. f64_abs b) two_strata [F_Num False 2] = Inr 1"
  by (simp add: classify_def two_strata_def center_width_def distance_def scale_at_def Let_def f64_eval)

lemma classify_nearest_witness:
  "\<exists>d. distance (\<lambda>a b. f64_abs b) None [F_Num False 2] [F_Num False 2] = Inr d"
  using classify_nearest [OF two_strata_valid two_strata_classify] by (auto simp: two_strata_def)

subsection \<open>Removing the prefix before evaluation\<close>

lemma strip_points_sound:
  assumes "sorted_wrt diverge ps"
    and "\<forall>x \<in> set xs. \<exists>q \<in> set ps. prefix q (point_discrete x)"
  shows "\<exists>ys ks. strip_points ps xs = Inr (ys, ks) \<and>
    list_all2 (\<lambda>x (y, k). k < length ps \<and> point_discrete x = ps ! k @ point_discrete y \<and>
      y = x\<lparr>point_discrete := point_discrete y\<rparr>) xs (zip ys ks) \<and> length ys = length ks"
  using assms(2)
proof (induction xs)
  case (Cons x xs)
  obtain q where q: "q \<in> set ps" "prefix q (point_discrete x)" using Cons.prems by auto
  then obtain k where k: "position (starts_with (point_discrete x)) ps = Some k"
    using position_exists [of q ps] starts_with_prefix by blast
  then have kk: "k < length ps" "prefix (ps ! k) (point_discrete x)"
    by (auto simp: position_Some starts_with_prefix)
  obtain ys ks where r: "strip_points ps xs = Inr (ys, ks)" "length ys = length ks"
    "list_all2 (\<lambda>x (y, k). k < length ps \<and> point_discrete x = ps ! k @ point_discrete y \<and>
      y = x\<lparr>point_discrete := point_discrete y\<rparr>) xs (zip ys ks)"
    using Cons by auto
  obtain s where s: "point_discrete x = ps ! k @ s" using kk(2) by (auto simp: prefix_def)
  then have "drop (length (ps ! k)) (point_discrete x) = s" by simp
  then show ?case using k kk r s by simp
qed simp

lemma same_prefix:
  assumes "sorted_wrt diverge ps" "p \<in> set ps" "q \<in> set ps" "p @ r = q @ s"
  shows "p = q \<and> r = s"
proof -
  have "p = q"
  proof (rule ccontr)
    assume "p \<noteq> q"
    then have "diverge p q \<or> diverge q p" using sorted_wrt_distinct_pair [OF assms(1-3)] by simp
    then have "\<not> prefix p q \<and> \<not> prefix q p" using diverge_not_prefix by blast
    then show False using assms(4) by (metis prefixI prefix_same_cases)
  qed
  then show ?thesis using assms(4) by simp
qed

text \<open>C39. Removing the stratum prefix succeeds on every batch of points of the sampling domain: each point
  gets the label of its own prefix, keeps its coordinates and weights, and the rest of its discrete
  path leads to the same leaf of the integrand's domain.\<close>

theorem integrand_batch_sound:
  assumes "plan_validate p = Inr ()" and "sizes_ok (voronoi_domain (partition p))"
    and "sampling_domain (partition p) integrand = Inr d"
    and "\<forall>x \<in> set batch. \<exists>w. is_leaf d (point_discrete x) w"
  shows "\<exists>ys ks. integrand_batch batch p = Inr (ys, ks) \<and> length ys = length ks \<and>
    list_all2 (\<lambda>x (y, k). config_prefix (partition p) k = Some (take (length (point_discrete x) - length (point_discrete y)) (point_discrete x)) \<and>
      y = x\<lparr>point_discrete := point_discrete y\<rparr> \<and>
      (\<forall>w. is_leaf d (point_discrete x) w \<longleftrightarrow> is_leaf integrand (point_discrete y) w)) batch (zip ys ks)"
proof -
  let ?c = "partition p" and ?ps = "config_prefixes (partition p)"
  have v: "config_validate ?c = Inr ()"
    using assms(1) by (auto simp: plan_validate_def split: if_splits)
  have ps: "visit_validate (voronoi_domain ?c) False = Inr ()" "?ps = visit_prefixes (voronoi_domain ?c) []"
    using config_validate_facts(1) [OF v] by (simp_all add: stratum_prefixes_Inr)
  have sorted: "sorted_wrt diverge ?ps" unfolding ps(2) by (rule visit_prefixes_sorted [OF ps(1) assms(2)])
  have "with_integrand (voronoi_domain ?c) integrand = Inr d"
    using assms(3) by (auto simp: sampling_domain_def)
  then have g: "stratum_prefixes integrand = Inr [[]]" "append_integrand (voronoi_domain ?c) integrand = Inr d"
    by (auto simp: with_integrand_def split: if_splits)
  have leaf: "is_leaf d path w \<longleftrightarrow> (\<exists>q r. path = q @ r \<and> q \<in> set ?ps \<and> is_leaf integrand r w)" for path w
    using append_integrand_sound [OF g ps(1) assms(2)] ps(2) by simp
  have "\<forall>x \<in> set batch. \<exists>q \<in> set ?ps. prefix q (point_discrete x)"
    using assms(4) leaf by (auto simp: prefix_def) metis
  from strip_points_sound [OF sorted this] obtain ys ks where s: "strip_points ?ps batch = Inr (ys, ks)"
    "length ys = length ks"
    "list_all2 (\<lambda>x (y, k). k < length ?ps \<and> point_discrete x = ?ps ! k @ point_discrete y \<and>
      y = x\<lparr>point_discrete := point_discrete y\<rparr>) batch (zip ys ks)" by blast
  have point: "config_prefix ?c k = Some (take (length (point_discrete x) - length (point_discrete y)) (point_discrete x)) \<and>
      (\<forall>w. is_leaf d (point_discrete x) w \<longleftrightarrow> is_leaf integrand (point_discrete y) w)"
    if "k < length ?ps" "point_discrete x = ?ps ! k @ point_discrete y" for x y k
  proof -
    have m: "?ps ! k \<in> set ?ps" using that(1) by simp
    have "is_leaf d (point_discrete x) w \<longleftrightarrow> is_leaf integrand (point_discrete y) w" for w
      unfolding leaf that(2) using same_prefix [OF sorted m] m by blast
    then show ?thesis using that by (simp add: config_prefix_def nth_opt_def)
  qed
  have "list_all2 (\<lambda>x (y, k). config_prefix ?c k = Some (take (length (point_discrete x) - length (point_discrete y)) (point_discrete x)) \<and>
      y = x\<lparr>point_discrete := point_discrete y\<rparr> \<and>
      (\<forall>w. is_leaf d (point_discrete x) w \<longleftrightarrow> is_leaf integrand (point_discrete y) w)) batch (zip ys ks)"
    by (rule list.rel_mono_strong [OF s(3)]) (use point in auto)
  then show ?thesis using v assms(1) s(1,2) by (auto simp: integrand_batch_def)
qed

definition two_strata_plan :: stratification_plan where
  "two_strata_plan = \<lparr>proposal_id = ''p'', partition = two_strata, probabilities = None,
     plan_components = [''value'']\<rparr>"

lemma integrand_batch_sound_witness:
  "\<exists>ys ks. integrand_batch [point_new [F_Num False 1] [1] f64_one] two_strata_plan = Inr (ys, ks) \<and> length ys = length ks"
proof -
  have v: "plan_validate two_strata_plan = Inr ()"
    by (simp add: plan_validate_def two_strata_plan_def two_strata_valid) (simp add: two_strata_def center_width_def)
  have s: "sizes_ok (voronoi_domain (partition two_strata_plan))"
    by (simp add: two_strata_plan_def two_strata_def strata_def)
  have d: "sampling_domain (partition two_strata_plan) (domain_continuous 1) = Inr (Rectangular 1 [2] 1)"
    by (simp add: sampling_domain_def two_strata_plan_def two_strata_valid)
      (simp add: two_strata_def strata_def with_integrand_def domain_continuous_def rectangular_def
        rectangular_with_cardinalities_def stratum_prefixes_def validate_def upt_rec)
  have l: "\<forall>x \<in> set [point_new [F_Num False 1] [1] f64_one]. \<exists>w. is_leaf (Rectangular 1 [2] 1) (point_discrete x) w"
    by (auto simp: point_new_def intro!: exI [of _ 1] leaf_rectangular)
  from integrand_batch_sound [OF v s d l] show ?thesis by blast
qed

subsection \<open>Canonical keys and labels\<close>

lemma decode_encode:
  assumes "p \<noteq> []" "\<forall>v \<in> set p. 0 \<le> v \<and> v \<le> i64_max"
  shows "decode_prefix (encode_prefix p) = Inr p"
proof -
  have "split_on CHR '','' (encode_prefix p) = map show_int p"
    unfolding encode_prefix_def using assms comma_not_in_show by (intro split_join) auto
  moreover have "try_map (\<lambda>s. ok_or (parse_i64 s) ''invalid digit found in string'') (map show_int p) = Inr p"
    using assms(2) by (induction p) (simp_all add: parse_i64_show)
  ultimately show ?thesis
    using assms(2) by (auto simp: decode_prefix_def list_ex_iff)
qed

text \<open>The keys of a validated configuration survive being written as text and read back, and they are
  canonical: a key that is accepted is the one the writer would produce, so two keys never
  collide on one stratum.\<close>

theorem prefix_keys_roundtrip:
  assumes "config_validate c = Inr ()" and "sizes_ok (voronoi_domain c)"
  shows "try_map decode_prefix (map encode_prefix (config_prefixes c)) = Inr (config_prefixes c) \<and>
    distinct (map encode_prefix (config_prefixes c)) \<and>
    (\<forall>key p. decode_prefix key = Inr p \<longrightarrow> encode_prefix p = key)"
proof -
  have ps: "visit_validate (voronoi_domain c) False = Inr ()"
    "config_prefixes c = visit_prefixes (voronoi_domain c) []"
    using config_validate_facts(1) [OF assms(1)] by (simp_all add: stratum_prefixes_Inr)
  have dec: "decode_prefix (encode_prefix p) = Inr p" if "p \<in> set (config_prefixes c)" for p
    using that prefix_values [OF ps(1) assms(2)] config_validate_facts(2) [OF assms(1)] ps(2)
    by (intro decode_encode) auto
  then have "try_map decode_prefix (map encode_prefix qs) = Inr qs"
    if "set qs \<subseteq> set (config_prefixes c)" for qs
    using that by (induction qs) auto
  then have rt: "try_map decode_prefix (map encode_prefix (config_prefixes c)) = Inr (config_prefixes c)" by simp
  have "inj_on encode_prefix (set (config_prefixes c))"
    by (rule inj_onI) (metis dec Inr_inject)
  moreover have "distinct (config_prefixes c)"
  proof -
    have "sorted_wrt diverge (config_prefixes c)"
      unfolding ps(2) by (rule visit_prefixes_sorted [OF ps(1) assms(2)])
    then show ?thesis by (rule sorted_wrt_distinct) (simp add: diverge_def)
  qed
  ultimately have "distinct (map encode_prefix (config_prefixes c))" by (simp add: distinct_map)
  moreover have "\<forall>key p. decode_prefix key = Inr p \<longrightarrow> encode_prefix p = key"
    by (auto simp: decode_prefix_def split: if_splits)
  ultimately show ?thesis using rt by blast
qed

lemma prefix_keys_roundtrip_witness:
  "try_map decode_prefix (map encode_prefix (config_prefixes two_strata)) = Inr [[0], [1]]"
proof -
  have "sizes_ok (voronoi_domain two_strata)" by (simp add: two_strata_def strata_def)
  from prefix_keys_roundtrip [OF two_strata_valid this] show ?thesis
    by (simp add: two_strata_def config_prefixes_def)
qed

end
