(* ===== verification/Models.thy ===== *)
theory Models
  imports Errors
begin

section \<open>Control-plane and queue vocabulary\<close>

text \<open>The plain data of \<open>src/core/models.rs\<close> shared by the store and the runners.\<close>

datatype worker_role = Evaluator | SamplerAggregator

fun role_as_str :: "worker_role \<Rightarrow> string" where
  "role_as_str Evaluator = ''evaluator''"
| "role_as_str SamplerAggregator = ''sampler_aggregator''"

definition role_from_str :: "string \<Rightarrow> string + worker_role" where
  "role_from_str s =
     (if s = ''evaluator'' then Inr Evaluator
      else if s = ''sampler_aggregator'' then Inr SamplerAggregator
      else Inl ''unknown worker role'')"

lemma role_roundtrip [simp]: "role_from_str (role_as_str r) = Inr r"
  by (cases r) (simp_all add: role_from_str_def)

record assignment_target =
  target_role :: worker_role
  target_run :: i32

record node_assignment_update =
  update_node_uuid :: string
  expected :: "assignment_target option"
  desired :: "assignment_target option"

text \<open>The assignment fields of a registered node; capabilities and the last contact are only stored.\<close>

record registered_node =
  reg_name :: string
  reg_uuid :: string
  pool_assignment :: "assignment_target option"
  desired_assignment :: "assignment_target option"
  current_assignment :: "assignment_target option"

datatype batch_status = Pending | Claimed | Completed | Failed

fun status_as_str :: "batch_status \<Rightarrow> string" where
  "status_as_str Pending = ''pending''"
| "status_as_str Claimed = ''claimed''"
| "status_as_str Completed = ''completed''"
| "status_as_str Failed = ''failed''"

lemma status_as_str_inj [simp]: "status_as_str a = status_as_str b \<longleftrightarrow> a = b"
  by (cases a; cases b) auto

record batch_queue_counts =
  pending_count :: i64
  claimed_count :: i64
  completed_count :: i64
  failed_count :: i64

definition open_count :: "batch_queue_counts \<Rightarrow> i64" where
  "open_count c = pending_count c + claimed_count c + completed_count c"

datatype batch_fail_outcome =
    Requeued i64 i32
  | PermanentlyFailed i64 i32

end
