(* ===== verification/Work_Queue.thy ===== *)
theory Work_Queue
  imports Models "HOL-Library.Product_Lexorder"
begin

section \<open>The batch queue of the store\<close>

text \<open>
  The statements and transactions of \<open>src/stores/queries/work_queue.rs\<close> as operations on
  the tables they read and write: \<open>batches\<close>, \<open>batch_inputs\<close>, \<open>batch_results\<close>,
  \<open>nodes\<close>, \<open>run_sampler_checkpoints\<close> and the counters kept by the trigger of the schema.
  A statement or transaction is atomic; \<open>now()\<close> is an argument. Rows another
  transaction holds locked at the moment of a claim (\<open>FOR UPDATE SKIP LOCKED\<close>) are an
  argument too. The encodings of batches and results are parameters.
\<close>

record batch_row =
  batch_id :: i64
  batch_run :: i32
  batch_task :: i64
  training_values :: bool
  batch_size :: i32
  status :: batch_status
  claimed_by_node_name :: "string option"
  claimed_by_node_uuid :: "string option"
  claim_token :: "string option"
  claimed_at :: "nat option"
  row_completed_at :: "nat option"
  created_at :: nat
  retry_count :: i32
  last_error :: "string option"

record ('v, 'o) result_row =
  result_values :: "'v option"
  batch_observable :: "'o option"
  total_eval_time_ms :: nat
  result_completed_at :: nat

record lease_row =
  node_name :: string
  node_uuid :: string
  active_run :: "i32 option"
  active_role :: "worker_role option"
  lease_expires_at :: nat

text \<open>The bounds of \<open>sampler_checkpoint->'queue'\<close>; the outer option is the presence of the key.\<close>

record checkpoint_bounds =
  last_completed_batch_id :: "i64 option"
  last_produced_batch_id :: "i64 option option"

datatype counter_column =
    TotalBatches | TotalSamples | PendingBatches | ClaimedBatches | CompletedBatches | FailedBatches

record ('p, 'v, 'o) store =
  rows :: "batch_row list"
  inputs :: "i64 \<Rightarrow> 'p option"
  results :: "i64 \<Rightarrow> ('v, 'o) result_row option"
  node_rows :: "lease_row list"
  checkpoints :: "i32 \<Rightarrow> checkpoint_bounds option"
  counters :: "i32 \<Rightarrow> counter_column \<Rightarrow> int"

subsection \<open>Row changes and the counter trigger\<close>

fun column_value :: "counter_column \<Rightarrow> batch_row \<Rightarrow> int" where
  "column_value TotalBatches b = 1"
| "column_value TotalSamples b = batch_size b"
| "column_value PendingBatches b = of_bool (status b = Pending)"
| "column_value ClaimedBatches b = of_bool (status b = Claimed)"
| "column_value CompletedBatches b = of_bool (status b = Completed)"
| "column_value FailedBatches b = of_bool (status b = Failed)"

text \<open>The trigger adds the new values and subtracts the old ones in the counters of the row's run.\<close>

definition trigger_row ::
  "batch_row option \<Rightarrow> batch_row option \<Rightarrow> (i32 \<Rightarrow> counter_column \<Rightarrow> int) \<Rightarrow> i32 \<Rightarrow> counter_column \<Rightarrow> int" where
  "trigger_row old new cs r k =
     (let target = (case new of Some b \<Rightarrow> Some (batch_run b) | None \<Rightarrow> map_option batch_run old) in
      if target = Some r
      then cs r k + (case new of Some b \<Rightarrow> column_value k b | None \<Rightarrow> 0)
                  - (case old of Some b \<Rightarrow> column_value k b | None \<Rightarrow> 0)
      else cs r k)"

definition update_where ::
  "(batch_row \<Rightarrow> bool) \<Rightarrow> (batch_row \<Rightarrow> batch_row) \<Rightarrow> ('p, 'v, 'o) store \<Rightarrow> ('p, 'v, 'o) store" where
  "update_where P f s = s\<lparr>
     rows := map (\<lambda>b. if P b then f b else b) (rows s),
     counters := fold (\<lambda>b. trigger_row (Some b) (Some (f b))) (filter P (rows s)) (counters s)\<rparr>"

definition insert_rows :: "batch_row list \<Rightarrow> ('p, 'v, 'o) store \<Rightarrow> ('p, 'v, 'o) store" where
  "insert_rows bs s = s\<lparr>rows := rows s @ bs, counters := fold (\<lambda>b. trigger_row None (Some b)) bs (counters s)\<rparr>"

text \<open>Deleting a batch cascades to its input and its result.\<close>

definition delete_where :: "(batch_row \<Rightarrow> bool) \<Rightarrow> ('p, 'v, 'o) store \<Rightarrow> ('p, 'v, 'o) store" where
  "delete_where P s =
     (let gone = batch_id ` set (filter P (rows s)) in
      s\<lparr>rows := filter (\<lambda>b. \<not> P b) (rows s),
        inputs := (\<lambda>i. if i \<in> gone then None else inputs s i),
        results := (\<lambda>i. if i \<in> gone then None else results s i),
        counters := fold (\<lambda>b. trigger_row (Some b) None) (filter P (rows s)) (counters s)\<rparr>)"

subsection \<open>Producing batches\<close>

definition usize_as_i32 :: "usize \<Rightarrow> i32" where
  "usize_as_i32 n = sint (of_nat n :: 32 word)"

definition new_row :: "nat \<Rightarrow> i32 \<Rightarrow> i64 \<Rightarrow> bool \<Rightarrow> i64 \<Rightarrow> usize \<Rightarrow> batch_row" where
  "new_row now run task training i n =
     \<lparr>batch_id = i, batch_run = run, batch_task = task, training_values = training,
      batch_size = usize_as_i32 n, status = Pending, claimed_by_node_name = None,
      claimed_by_node_uuid = None, claim_token = None, claimed_at = None, row_completed_at = None,
      created_at = now, retry_count = 0, last_error = None\<rparr>"

text \<open>
  \<open>encode\<close> stands for \<open>EvaluationBatch::write_bytes\<close> and \<open>size\<close> for
  \<open>samples.nr_samples\<close>. A repeated identifier violates the primary key and rolls the
  transaction back.
\<close>

definition insert_batches ::
  "('b \<Rightarrow> string + 'p) \<Rightarrow> ('b \<Rightarrow> usize) \<Rightarrow> nat \<Rightarrow> i32 \<Rightarrow> i64 \<Rightarrow> bool \<Rightarrow> i64 list \<Rightarrow> 'b list
    \<Rightarrow> ('p, 'v, 'o) store \<Rightarrow> (store_error + i64 list) \<times> ('p, 'v, 'o) store" where
  "insert_batches encode samples_of now run task training ids batches s =
     (if batches = [] then (Inr [], s)
      else if length ids \<noteq> length batches then (Inl (Database ''batch id count mismatch''), s)
      else case try_map encode batches of
        Inl e \<Rightarrow> (Inl (Database e), s)
      | Inr payloads \<Rightarrow>
          if \<not> distinct ids \<or> (\<exists>i \<in> set ids. i \<in> batch_id ` set (rows s))
          then (Inl (Database ''duplicate key value''), s)
          else
            (Inr ids,
             (insert_rows (map2 (\<lambda>i b. new_row now run task training i (samples_of b)) ids batches) s)
               \<lparr>inputs := inputs s ++ map_of (zip ids payloads)\<rparr>))"

subsection \<open>Reading the queue\<close>

definition count_where :: "(batch_row \<Rightarrow> bool) \<Rightarrow> ('p, 'v, 'o) store \<Rightarrow> i64" where
  "count_where P s = int (length (filter P (rows s)))"

definition get_batch_queue_counts ::
  "i32 \<Rightarrow> i64 option \<Rightarrow> i64 option \<Rightarrow> ('p, 'v, 'o) store \<Rightarrow> batch_queue_counts" where
  "get_batch_queue_counts run task after s =
     (let after' = (case after of None \<Rightarrow> 0 | Some a \<Rightarrow> a) in
      case task of
        Some t \<Rightarrow>
          (let here = (\<lambda>b. batch_run b = run \<and> batch_task b = t) in
           \<lparr>pending_count = count_where (\<lambda>b. here b \<and> status b = Pending) s,
            claimed_count = count_where (\<lambda>b. here b \<and> status b = Claimed) s,
            completed_count = count_where (\<lambda>b. here b \<and> status b = Completed \<and> batch_id b > after') s,
            failed_count = count_where (\<lambda>b. here b \<and> status b = Failed) s\<rparr>)
      | None \<Rightarrow>
           \<lparr>pending_count = counters s run PendingBatches,
            claimed_count = counters s run ClaimedBatches,
            completed_count = count_where (\<lambda>b. batch_run b = run \<and> status b = Completed \<and> batch_id b > after') s,
            failed_count = counters s run FailedBatches\<rparr>)"

subsection \<open>Claiming\<close>

definition evaluator_live :: "nat \<Rightarrow> i32 \<Rightarrow> string \<Rightarrow> ('p, 'v, 'o) store \<Rightarrow> bool" where
  "evaluator_live now run uuid s \<longleftrightarrow>
     (\<exists>n \<in> set (node_rows s). node_uuid n = uuid \<and> active_run n = Some run \<and>
        active_role n = Some Evaluator \<and> lease_expires_at n > now)"

definition existing_claim :: "i32 \<Rightarrow> string \<Rightarrow> string \<Rightarrow> ('p, 'v, 'o) store \<Rightarrow> batch_row option" where
  "existing_claim run uuid token s =
     find (\<lambda>b. claim_token b = Some token \<and> claimed_by_node_uuid b = Some uuid \<and>
       batch_run b = run \<and> status b = Claimed) (rows s)"

definition claim_order :: "batch_row \<Rightarrow> nat \<times> i64" where
  "claim_order b = (created_at b, batch_id b)"

definition next_batch ::
  "(i64 \<Rightarrow> bool) \<Rightarrow> nat \<Rightarrow> i32 \<Rightarrow> string \<Rightarrow> string \<Rightarrow> ('p, 'v, 'o) store \<Rightarrow> batch_row option" where
  "next_batch locked now run uuid token s =
     (if (\<exists>b \<in> set (rows s). claim_token b = Some token) \<or> \<not> evaluator_live now run uuid s then None
      else case sort_key claim_order
          (filter (\<lambda>b. batch_run b = run \<and> status b = Pending \<and> \<not> locked (batch_id b)) (rows s)) of
        [] \<Rightarrow> None | b # _ \<Rightarrow> Some b)"

definition mark_claimed :: "nat \<Rightarrow> string option \<Rightarrow> string \<Rightarrow> string \<Rightarrow> batch_row \<Rightarrow> batch_row" where
  "mark_claimed now name uuid token b =
     b\<lparr>status := Claimed, claimed_by_node_name := name, claimed_by_node_uuid := Some uuid,
       claimed_at := Some now, claim_token := Some token\<rparr>"

definition claim_batch ::
  "('p \<Rightarrow> string + 'b) \<Rightarrow> (i64 \<Rightarrow> bool) \<Rightarrow> nat \<Rightarrow> i32 \<Rightarrow> string \<Rightarrow> string \<Rightarrow> ('p, 'v, 'o) store
    \<Rightarrow> (store_error + (i64 \<times> i64 \<times> bool \<times> 'b) option) \<times> ('p, 'v, 'o) store" where
  "claim_batch decode locked now run uuid token s =
     (let name = map_option node_name (find (\<lambda>n. node_uuid n = uuid) (node_rows s));
          fresh = next_batch locked now run uuid token s;
          s' = (case fresh of None \<Rightarrow> s
                | Some b \<Rightarrow> update_where (\<lambda>x. batch_id x = batch_id b) (mark_claimed now name uuid token) s);
          chosen = (case existing_claim run uuid token s of Some b \<Rightarrow> Some b | None \<Rightarrow> fresh)
      in case chosen of
           None \<Rightarrow> (Inr None, s')
         | Some b \<Rightarrow>
             (case inputs s (batch_id b) of
                None \<Rightarrow> (Inr None, s')
              | Some p \<Rightarrow>
                  (case decode p of
                     Inl e \<Rightarrow> (Inl (Database e), s')
                   | Inr x \<Rightarrow> (Inr (Some (batch_id b, batch_task b, training_values b, x)), s'))))"

definition mark_released :: "batch_row \<Rightarrow> batch_row" where
  "mark_released b =
     b\<lparr>status := Pending, claimed_by_node_name := None, claimed_by_node_uuid := None,
       claim_token := None, claimed_at := None\<rparr>"

definition mark_reclaimed :: "string \<Rightarrow> batch_row \<Rightarrow> batch_row" where
  "mark_reclaimed e b = (mark_released b)\<lparr>retry_count := retry_count b + 1, last_error := Some e\<rparr>"

definition release_claimed_batches_for_worker ::
  "i32 \<Rightarrow> string \<Rightarrow> ('p, 'v, 'o) store \<Rightarrow> nat \<times> ('p, 'v, 'o) store" where
  "release_claimed_batches_for_worker run uuid s =
     (let P = (\<lambda>b. batch_run b = run \<and> status b = Claimed \<and> claimed_by_node_uuid b = Some uuid)
      in (length (filter P (rows s)), update_where P mark_released s))"

definition release_untracked_claims ::
  "i32 \<Rightarrow> string \<Rightarrow> string list \<Rightarrow> ('p, 'v, 'o) store \<Rightarrow> nat \<times> ('p, 'v, 'o) store" where
  "release_untracked_claims run uuid tracked s =
     (let P = (\<lambda>b. batch_run b = run \<and> claimed_by_node_uuid b = Some uuid \<and> status b = Claimed \<and>
                (case claim_token b of None \<Rightarrow> True | Some t \<Rightarrow> t \<notin> set tracked))
      in (length (filter P (rows s)), update_where P (mark_reclaimed ''untracked evaluator claim reclaimed'') s))"

definition claim_owner_live :: "nat \<Rightarrow> ('p, 'v, 'o) store \<Rightarrow> batch_row \<Rightarrow> bool" where
  "claim_owner_live now s b \<longleftrightarrow>
     (\<exists>n \<in> set (node_rows s). Some (node_name n) = claimed_by_node_name b \<and>
        Some (node_uuid n) = claimed_by_node_uuid b \<and> active_run n = Some (batch_run b) \<and>
        active_role n = Some Evaluator \<and> lease_expires_at n > now)"

definition reclaim_abandoned_batches ::
  "nat \<Rightarrow> i32 \<Rightarrow> ('p, 'v, 'o) store \<Rightarrow> nat \<times> ('p, 'v, 'o) store" where
  "reclaim_abandoned_batches now run s =
     (let P = (\<lambda>b. batch_run b = run \<and> status b = Claimed \<and> \<not> claim_owner_live now s b)
      in (length (filter P (rows s)), update_where P (mark_reclaimed ''abandoned evaluator claim reclaimed'') s))"

subsection \<open>Completing and failing\<close>

definition owned_row :: "i64 \<Rightarrow> string \<Rightarrow> string \<Rightarrow> ('p, 'v, 'o) store \<Rightarrow> batch_row option" where
  "owned_row i uuid token s =
     find (\<lambda>b. batch_id b = i \<and> claimed_by_node_uuid b = Some uuid \<and> claim_token b = Some token) (rows s)"

definition mark_completed :: "nat \<Rightarrow> batch_row \<Rightarrow> batch_row" where
  "mark_completed now b = b\<lparr>status := Completed, row_completed_at := Some now\<rparr>"

text \<open>\<open>encode\<close> stands for the validation and serialization that precede the transaction.\<close>

definition submit_batch_results ::
  "('r \<Rightarrow> store_error + ('v option \<times> 'o)) \<Rightarrow> nat \<Rightarrow> i64 \<Rightarrow> string \<Rightarrow> string \<Rightarrow> 'r \<Rightarrow> nat
    \<Rightarrow> ('p, 'v, 'o) store \<Rightarrow> (store_error + unit) \<times> ('p, 'v, 'o) store" where
  "submit_batch_results encode now i uuid token result eval_time s =
     (case encode result of
        Inl e \<Rightarrow> (Inl e, s)
      | Inr (vals, obs) \<Rightarrow>
          (case map_option status (owned_row i uuid token s) of
             Some Completed \<Rightarrow>
               if results s i = None then (Inl (Internal ''completed batch has no result''), s)
               else (Inr (), s)
           | Some Claimed \<Rightarrow>
               if results s i \<noteq> None then (Inl (Database ''duplicate key value''), s)
               else
                 (Inr (),
                  (update_where (\<lambda>b. batch_id b = i) (mark_completed now) s)
                    \<lparr>results := (results s)(i \<mapsto>
                       \<lparr>result_values = vals, batch_observable = Some obs,
                        total_eval_time_ms = eval_time, result_completed_at = now\<rparr>)\<rparr>)
           | _ \<Rightarrow> (Inl (BatchOwnershipLost i uuid), s)))"

definition mark_failed :: "batch_status \<Rightarrow> i32 \<Rightarrow> string \<Rightarrow> batch_row \<Rightarrow> batch_row" where
  "mark_failed st n e b =
     b\<lparr>status := st, retry_count := n, last_error := Some e, claimed_at := None, row_completed_at := None\<rparr>"

definition fail_outcome :: "batch_status \<Rightarrow> i64 \<Rightarrow> i32 \<Rightarrow> batch_fail_outcome" where
  "fail_outcome st task n = (if st = Failed then PermanentlyFailed task n else Requeued task n)"

definition fail_batch ::
  "i64 \<Rightarrow> string \<Rightarrow> string \<Rightarrow> string \<Rightarrow> i32 \<Rightarrow> ('p, 'v, 'o) store
    \<Rightarrow> (store_error + batch_fail_outcome) \<times> ('p, 'v, 'o) store" where
  "fail_batch i uuid token e max_batch_retries s =
     (case owned_row i uuid token s of
        None \<Rightarrow> (Inl (BatchOwnershipLost i uuid), s)
      | Some b \<Rightarrow>
          if status b = Claimed then
            (let n = retry_count b + 1;
                 st = (if n \<ge> max_batch_retries then Failed else Pending)
             in (Inr (fail_outcome st (batch_task b) n),
                 update_where (\<lambda>x. batch_id x = i) (mark_failed st n e) s))
          else if status b \<noteq> Pending \<and> status b \<noteq> Failed
          then (Inl (BatchOwnershipLost i uuid), s)
          else (Inr (fail_outcome (status b) (batch_task b) (retry_count b)), s))"

subsection \<open>Consuming results\<close>

definition task_rows_after :: "i32 \<Rightarrow> i64 \<Rightarrow> i64 \<Rightarrow> ('p, 'v, 'o) store \<Rightarrow> batch_row list" where
  "task_rows_after run task after s =
     sort_key batch_id (filter (\<lambda>b. batch_run b = run \<and> batch_id b > after \<and> batch_task b = task) (rows s))"

definition first_incomplete :: "batch_row list \<Rightarrow> i64 option" where
  "first_incomplete candidates =
     (case filter (\<lambda>b. status b \<noteq> Completed) candidates of [] \<Rightarrow> None
      | b # bs \<Rightarrow> Some (fold min (map batch_id bs) (batch_id b)))"

definition completed_prefix :: "batch_row list \<Rightarrow> batch_row list" where
  "completed_prefix candidates =
     filter (\<lambda>c. status c = Completed \<and>
       (case first_incomplete candidates of None \<Rightarrow> True | Some f \<Rightarrow> batch_id c < f)) candidates"

definition join_result ::
  "('p, 'v, 'o) store \<Rightarrow> batch_row \<Rightarrow> (batch_row \<times> ('v, 'o) result_row) list" where
  "join_result s b = (case results s (batch_id b) of None \<Rightarrow> [] | Some r \<Rightarrow> [(b, r)])"

definition completed_of_row ::
  "batch_row \<times> ('v, 'o) result_row \<Rightarrow> store_error + (batch_row \<times> ('v, 'o) result_row)" where
  "completed_of_row x =
     (if batch_observable (snd x) = None
      then Inl (Database ''completed batch is missing persisted accumulator'') else Inr x)"

definition fetch_completed_batches ::
  "i32 \<Rightarrow> i64 \<Rightarrow> usize \<Rightarrow> bool \<Rightarrow> i64 option \<Rightarrow> ('p, 'v, 'o) store
    \<Rightarrow> store_error + (batch_row \<times> ('v, 'o) result_row) list" where
  "fetch_completed_batches run task limit strict_ordering after s =
     (let after' = (case after of None \<Rightarrow> 0 | Some a \<Rightarrow> a);
          here = task_rows_after run task after' s;
          picked =
            (if strict_ordering then concat (map (join_result s) (completed_prefix (take limit here)))
             else take limit (concat (map (join_result s) (filter (\<lambda>b. status b = Completed) here))))
      in if usize_as_i64 limit < 0 then Inl (Database ''LIMIT must not be negative'')
         else try_map completed_of_row picked)"

definition cleanup_allowed :: "checkpoint_bounds \<Rightarrow> i64 \<Rightarrow> bool" where
  "cleanup_allowed c i \<longleftrightarrow>
     (case last_completed_batch_id c of None \<Rightarrow> False | Some l \<Rightarrow> i \<le> l) \<or>
     (case last_produced_batch_id c of None \<Rightarrow> False | Some l \<Rightarrow> i > (case l of None \<Rightarrow> 0 | Some p \<Rightarrow> p))"

definition cleanup_candidate :: "i32 \<Rightarrow> i64 \<Rightarrow> ('p, 'v, 'o) store \<Rightarrow> batch_row \<Rightarrow> bool" where
  "cleanup_candidate run up_to s b \<longleftrightarrow> batch_run b = run \<and> status b = Completed \<and> retry_count b = 0 \<and>
     batch_id b \<le> up_to \<and>
     (case checkpoints s run of None \<Rightarrow> False | Some c \<Rightarrow> cleanup_allowed c (batch_id b))"

definition cleanup_consumed_completed_batches ::
  "i32 \<Rightarrow> i64 \<Rightarrow> usize \<Rightarrow> ('p, 'v, 'o) store \<Rightarrow> nat \<times> ('p, 'v, 'o) store" where
  "cleanup_consumed_completed_batches run up_to limit s =
     (if up_to \<le> 0 \<or> limit = 0 then (0, s)
      else
        (let picked = take limit (sort_key batch_id (filter (cleanup_candidate run up_to s) (rows s)));
             P = (\<lambda>b. batch_id b \<in> batch_id ` set picked)
         in (length (filter P (rows s)), delete_where P s)))"

end
