(* ===== verification/Work_Queue_Laws.thy ===== *)
theory Work_Queue_Laws
  imports Work_Queue
begin

section \<open>Laws of the batch queue\<close>

text \<open>
  The invariant of the queue tables and its preservation by every statement (so by every
  interleaving of workers), then what a worker relies on: results are final, claims are
  fenced by their token, a repeated call is harmless, failures are bounded, consumption is
  in order, and the counters count.
\<close>

subsection \<open>The counters count\<close>

definition counters_of :: "batch_row list \<Rightarrow> i32 \<Rightarrow> counter_column \<Rightarrow> int" where
  "counters_of bs r k = sum_list (map (column_value k) (filter (\<lambda>b. batch_run b = r) bs))"

lemma counters_of_simps [simp]:
  "counters_of [] r k = 0"
  "counters_of (b # bs) r k = (if batch_run b = r then column_value k b else 0) + counters_of bs r k"
  "counters_of (bs @ cs) r k = counters_of bs r k + counters_of cs r k"
  by (simp_all add: counters_of_def)

lemma fold_trigger_update:
  assumes "\<forall>b \<in> set bs. batch_run (f b) = batch_run b"
  shows "fold (\<lambda>b. trigger_row (Some b) (Some (f b))) bs cs r k =
    cs r k + counters_of (map f bs) r k - counters_of bs r k"
  using assms by (induction bs arbitrary: cs) (auto simp: trigger_row_def)

lemma fold_trigger_insert:
  "fold (\<lambda>b. trigger_row None (Some b)) bs cs r k = cs r k + counters_of bs r k"
  by (induction bs arbitrary: cs) (auto simp: trigger_row_def)

lemma fold_trigger_delete:
  "fold (\<lambda>b. trigger_row (Some b) None) bs cs r k = cs r k - counters_of bs r k"
  by (induction bs arbitrary: cs) (auto simp: trigger_row_def)

lemma counters_of_update:
  "counters_of (map (\<lambda>b. if P b then f b else b) bs) r k =
   counters_of bs r k + counters_of (map f (filter P bs)) r k - counters_of (filter P bs) r k"
  by (induction bs) auto

lemma counters_of_delete:
  "counters_of (filter (\<lambda>b. \<not> P b) bs) r k = counters_of bs r k - counters_of (filter P bs) r k"
  by (induction bs) auto

definition counters_ok :: "('p, 'v, 'o) store \<Rightarrow> bool" where
  "counters_ok s \<longleftrightarrow> counters s = counters_of (rows s)"

lemma counters_ok_update:
  assumes "counters_ok s" "\<forall>b. batch_run (f b) = batch_run b"
  shows "counters_ok (update_where P f s)"
  using assms by (auto simp: counters_ok_def update_where_def fold_trigger_update counters_of_update fun_eq_iff)

lemma counters_ok_insert: "counters_ok s \<Longrightarrow> counters_ok (insert_rows bs s)"
  by (auto simp: counters_ok_def insert_rows_def fold_trigger_insert fun_eq_iff)

lemma counters_ok_delete: "counters_ok s \<Longrightarrow> counters_ok (delete_where P s)"
  by (auto simp: counters_ok_def delete_where_def fold_trigger_delete counters_of_delete fun_eq_iff Let_def)

lemma counters_of_status:
  "counters_of bs r PendingBatches = int (length (filter (\<lambda>b. batch_run b = r \<and> status b = Pending) bs))"
  "counters_of bs r ClaimedBatches = int (length (filter (\<lambda>b. batch_run b = r \<and> status b = Claimed) bs))"
  "counters_of bs r CompletedBatches = int (length (filter (\<lambda>b. batch_run b = r \<and> status b = Completed) bs))"
  "counters_of bs r FailedBatches = int (length (filter (\<lambda>b. batch_run b = r \<and> status b = Failed) bs))"
  by (induction bs) auto

subsection \<open>The invariant\<close>

definition row_ids :: "('p, 'v, 'o) store \<Rightarrow> i64 list" where
  "row_ids s = map batch_id (rows s)"

definition claims_ok :: "('p, 'v, 'o) store \<Rightarrow> bool" where
  "claims_ok s \<longleftrightarrow> (\<forall>b \<in> set (rows s). status b = Claimed \<longrightarrow> claim_token b \<noteq> None \<and> claimed_by_node_uuid b \<noteq> None)"

definition tokens_ok :: "('p, 'v, 'o) store \<Rightarrow> bool" where
  "tokens_ok s \<longleftrightarrow> (\<forall>b \<in> set (rows s). \<forall>c \<in> set (rows s).
     \<forall>t. claim_token b = Some t \<longrightarrow> claim_token c = Some t \<longrightarrow> batch_id b = batch_id c)"

lemma tokens_okI:
  "(\<And>b c t. b \<in> set (rows s) \<Longrightarrow> c \<in> set (rows s) \<Longrightarrow> claim_token b = Some t \<Longrightarrow> claim_token c = Some t \<Longrightarrow>
     batch_id b = batch_id c) \<Longrightarrow> tokens_ok s"
  unfolding tokens_ok_def by blast

lemma tokens_okD:
  "tokens_ok s \<Longrightarrow> b \<in> set (rows s) \<Longrightarrow> c \<in> set (rows s) \<Longrightarrow> claim_token b = Some t \<Longrightarrow> claim_token c = Some t \<Longrightarrow>
     batch_id b = batch_id c"
  unfolding tokens_ok_def by blast

definition results_ok :: "('p, 'v, 'o) store \<Rightarrow> bool" where
  "results_ok s \<longleftrightarrow> (\<forall>b \<in> set (rows s). results s (batch_id b) \<noteq> None \<longleftrightarrow> status b = Completed) \<and>
     (\<forall>i r. results s i = Some r \<longrightarrow> i \<in> set (row_ids s) \<and> batch_observable r \<noteq> None)"

definition inputs_ok :: "('p, 'v, 'o) store \<Rightarrow> bool" where
  "inputs_ok s \<longleftrightarrow> (\<forall>i. inputs s i \<noteq> None \<longleftrightarrow> i \<in> set (row_ids s))"

definition store_ok :: "('p, 'v, 'o) store \<Rightarrow> bool" where
  "store_ok s \<longleftrightarrow> distinct (row_ids s) \<and> claims_ok s \<and> tokens_ok s \<and> results_ok s \<and> inputs_ok s \<and> counters_ok s"

text \<open>A row change that keeps identity and run and neither completes a batch nor hands out a token.\<close>

definition harmless :: "(batch_row \<Rightarrow> batch_row) \<Rightarrow> batch_row \<Rightarrow> bool" where
  "harmless f b \<longleftrightarrow> batch_id (f b) = batch_id b \<and> batch_run (f b) = batch_run b \<and>
     status (f b) \<noteq> Completed \<and> status b \<noteq> Completed \<and> status (f b) \<noteq> Claimed \<and>
     (claim_token (f b) = None \<or> claim_token (f b) = claim_token b)"

lemma update_where_simps [simp]:
  "rows (update_where P f s) = map (\<lambda>b. if P b then f b else b) (rows s)"
  "inputs (update_where P f s) = inputs s" "results (update_where P f s) = results s"
  "node_rows (update_where P f s) = node_rows s" "checkpoints (update_where P f s) = checkpoints s"
  by (simp_all add: update_where_def)

lemma row_ids_update:
  "(\<And>b. b \<in> set (rows s) \<Longrightarrow> P b \<Longrightarrow> batch_id (f b) = batch_id b) \<Longrightarrow> row_ids (update_where P f s) = row_ids s"
  by (auto simp: row_ids_def)

lemma harmless_update_ok:
  assumes "store_ok s" and h: "\<And>b. b \<in> set (rows s) \<Longrightarrow> P b \<Longrightarrow> harmless f b"
    and run: "\<And>b. batch_run (f b) = batch_run b"
  shows "store_ok (update_where P f s)"
proof -
  have ids: "row_ids (update_where P f s) = row_ids s"
    by (rule row_ids_update) (use h in \<open>auto simp: harmless_def\<close>)
  have ok: "distinct (row_ids s)" "claims_ok s" "tokens_ok s" "results_ok s" "inputs_ok s" "counters_ok s"
    using assms(1) by (auto simp: store_ok_def)
  have "claims_ok (update_where P f s)"
    using ok(2) h by (fastforce simp: claims_ok_def harmless_def)
  moreover have "tokens_ok (update_where P f s)"
  proof (rule tokens_okI, unfold update_where_simps)
    fix b c t assume b: "b \<in> set (map (\<lambda>b. if P b then f b else b) (rows s))"
      and c: "c \<in> set (map (\<lambda>b. if P b then f b else b) (rows s))"
      and t: "claim_token b = Some t" "claim_token c = Some t"
    have old: "\<exists>b0 \<in> set (rows s). batch_id x = batch_id b0 \<and> claim_token b0 = Some t"
      if x: "x \<in> set (map (\<lambda>b. if P b then f b else b) (rows s))" "claim_token x = Some t" for x
    proof -
      from x obtain b0 where b0: "b0 \<in> set (rows s)" "x = (if P b0 then f b0 else b0)" by auto
      then show ?thesis using h [of b0] x(2) by (intro bexI [of _ b0]) (auto simp: harmless_def split: if_splits)
    qed
    show "batch_id b = batch_id c"
      using old [OF b t(1)] old [OF c t(2)] tokens_okD [OF ok(3)] by metis
  qed
  moreover have "results_ok (update_where P f s)"
    unfolding results_ok_def ids update_where_simps
  proof (intro conjI ballI)
    fix b assume "b \<in> set (map (\<lambda>b. if P b then f b else b) (rows s))"
    then obtain c where c: "c \<in> set (rows s)" "b = (if P c then f c else c)" by auto
    then have "batch_id b = batch_id c \<and> (status b = Completed \<longleftrightarrow> status c = Completed)"
      using h by (auto simp: harmless_def)
    then show "(results s (batch_id b) \<noteq> None) = (status b = Completed)"
      using ok(4) c(1) by (simp add: results_ok_def)
  qed (use ok(4) in \<open>auto simp: results_ok_def\<close>)
  moreover have "inputs_ok (update_where P f s)" using ok(5) by (simp add: inputs_ok_def ids)
  moreover have "counters_ok (update_where P f s)" using ok(6) run by (simp add: counters_ok_update)
  ultimately show ?thesis using ok(1) by (simp add: store_ok_def ids)
qed

lemma row_unique: "distinct (row_ids s) \<Longrightarrow> b \<in> set (rows s) \<Longrightarrow> c \<in> set (rows s) \<Longrightarrow>
    batch_id b = batch_id c \<Longrightarrow> b = c"
  by (auto simp: row_ids_def distinct_map inj_on_def)

subsection \<open>Every statement keeps the invariant\<close>

lemma find_Some_iff: "find P xs = Some x \<Longrightarrow> x \<in> set xs \<and> P x"
  by (auto simp: find_Some_iff nth_mem)

lemma release_ok: "store_ok s \<Longrightarrow> store_ok (snd (release_claimed_batches_for_worker run uuid s))"
  unfolding release_claimed_batches_for_worker_def Let_def snd_conv
  by (rule harmless_update_ok) (auto simp: harmless_def mark_released_def)

lemma untracked_ok: "store_ok s \<Longrightarrow> store_ok (snd (release_untracked_claims run uuid tracked s))"
  unfolding release_untracked_claims_def Let_def snd_conv
  by (rule harmless_update_ok) (auto simp: harmless_def mark_released_def mark_reclaimed_def)

lemma reclaim_ok: "store_ok s \<Longrightarrow> store_ok (snd (reclaim_abandoned_batches now run s))"
  unfolding reclaim_abandoned_batches_def Let_def snd_conv
  by (rule harmless_update_ok) (auto simp: harmless_def mark_released_def mark_reclaimed_def)

lemma owned_row_Some:
  "owned_row i uuid token s = Some b \<Longrightarrow>
   b \<in> set (rows s) \<and> batch_id b = i \<and> claimed_by_node_uuid b = Some uuid \<and> claim_token b = Some token"
  unfolding owned_row_def by (drule find_Some_iff) simp

lemma owned_row_iff:
  assumes "distinct (row_ids s)"
  shows "owned_row i uuid token s = Some b \<longleftrightarrow>
    b \<in> set (rows s) \<and> batch_id b = i \<and> claimed_by_node_uuid b = Some uuid \<and> claim_token b = Some token"
proof
  assume b: "b \<in> set (rows s) \<and> batch_id b = i \<and> claimed_by_node_uuid b = Some uuid \<and> claim_token b = Some token"
  then obtain c where c: "owned_row i uuid token s = Some c"
    by (cases "owned_row i uuid token s") (auto simp: owned_row_def find_None_iff)
  then have "c = b" using owned_row_Some [OF c] b row_unique [OF assms] by auto
  with c show "owned_row i uuid token s = Some b" by simp
qed (rule owned_row_Some)

lemma fail_ok: "store_ok s \<Longrightarrow> store_ok (snd (fail_batch i uuid token e m s))"
proof -
  assume ok: "store_ok s"
  have "store_ok (update_where (\<lambda>x. batch_id x = i) (mark_failed st n e) s)"
    if "owned_row i uuid token s = Some b" "status b = Claimed" "st = Failed \<or> st = Pending" for b st n
    using ok
  proof (rule harmless_update_ok)
    fix c assume "c \<in> set (rows s)" "batch_id c = i"
    then have "c = b" using owned_row_Some [OF that(1)] row_unique [of s c b] ok by (simp add: store_ok_def)
    then show "harmless (mark_failed st n e) c" using that by (auto simp: harmless_def mark_failed_def)
  qed (simp add: mark_failed_def)
  then show ?thesis using ok by (auto simp: fail_batch_def Let_def split: option.splits)
qed

lemma tokens_ok_map:
  assumes "tokens_ok s" "rows s' = map g (rows s)"
    and "\<And>b. batch_id (g b) = batch_id b" "\<And>b. claim_token (g b) = claim_token b"
  shows "tokens_ok s'"
proof (rule tokens_okI, unfold assms(2))
  fix b c t assume "b \<in> set (map g (rows s))" "c \<in> set (map g (rows s))"
    "claim_token b = Some t" "claim_token c = Some t"
  then obtain b0 c0 where "b = g b0" "b0 \<in> set (rows s)" "c = g c0" "c0 \<in> set (rows s)"
    "claim_token b0 = Some t" "claim_token c0 = Some t" using assms(4) by auto
  then show "batch_id b = batch_id c" using tokens_okD [OF assms(1)] assms(3) by metis
qed

lemma results_ok_submit:
  assumes "store_ok s" "b \<in> set (rows s)" "batch_id b = i" "status b = Claimed" "batch_observable r \<noteq> None"
  shows "store_ok ((update_where (\<lambda>x. batch_id x = i) (mark_completed now) s)\<lparr>results := (results s)(i \<mapsto> r)\<rparr>)"
    (is "store_ok ?s")
proof -
  have ok: "distinct (row_ids s)" "claims_ok s" "tokens_ok s" "results_ok s" "inputs_ok s" "counters_ok s"
    using assms(1) by (auto simp: store_ok_def)
  have ids: "row_ids ?s = row_ids s" by (auto simp: row_ids_def mark_completed_def)
  have "claims_ok ?s" using ok(2) by (auto simp: claims_ok_def mark_completed_def)
  moreover have "tokens_ok ?s" 
    by (rule tokens_ok_map [OF ok(3), where g = "\<lambda>x. if batch_id x = i then mark_completed now x else x"])
      (simp_all add: mark_completed_def)
  moreover have "results_ok ?s"
    unfolding results_ok_def ids using ok(4) assms(2-5)
    by (auto simp: results_ok_def mark_completed_def row_ids_def)
  moreover have "inputs_ok ?s" using ok(5) by (simp add: inputs_ok_def ids)
  moreover have "counters_ok ?s"
    using counters_ok_update [OF ok(6), of "mark_completed now"] by (simp add: counters_ok_def mark_completed_def)
  ultimately show ?thesis using ok(1) by (simp add: store_ok_def ids)
qed

lemma submit_ok: "store_ok s \<Longrightarrow> store_ok (snd (submit_batch_results enc now i uuid token r t s))"
proof -
  assume ok: "store_ok s"
  show ?thesis
  proof (cases "enc r")
    case (Inr vo)
    show ?thesis
    proof (cases "owned_row i uuid token s")
      case (Some b)
      have b: "b \<in> set (rows s)" "batch_id b = i" using owned_row_Some [OF Some] by simp_all
      show ?thesis
        using ok results_ok_submit [OF ok b] Some Inr
        by (cases "status b") (auto simp: submit_batch_results_def split: prod.splits)
    qed (use ok Inr in \<open>auto simp: submit_batch_results_def split: prod.splits\<close>)
  qed (use ok in \<open>simp add: submit_batch_results_def\<close>)
qed

lemma next_batch_Some:
  assumes "next_batch locked now run uuid token s = Some b"
  shows "b \<in> set (rows s)" "batch_run b = run" "status b = Pending" "\<not> locked (batch_id b)"
    and "evaluator_live now run uuid s" "c \<in> set (rows s) \<Longrightarrow> claim_token c \<noteq> Some token"
    and "c \<in> set (rows s) \<Longrightarrow> batch_run c = run \<Longrightarrow> status c = Pending \<Longrightarrow> \<not> locked (batch_id c) \<Longrightarrow>
      claim_order b \<le> claim_order c"
proof -
  let ?cands = "filter (\<lambda>b. batch_run b = run \<and> status b = Pending \<and> \<not> locked (batch_id b)) (rows s)"
  have c: "\<not> (\<exists>c \<in> set (rows s). claim_token c = Some token)" "evaluator_live now run uuid s"
    and "\<exists>rest. sort_key claim_order ?cands = b # rest"
    using assms by (auto simp: next_batch_def split: if_splits list.splits)
  then obtain rest where r: "sort_key claim_order ?cands = b # rest" by blast
  have "b \<in> set (sort_key claim_order ?cands)" unfolding r by simp
  then show "b \<in> set (rows s)" "batch_run b = run" "status b = Pending" "\<not> locked (batch_id b)" by auto
  show "evaluator_live now run uuid s" by (rule c(2))
  show "c \<in> set (rows s) \<Longrightarrow> claim_token c \<noteq> Some token" using c(1) by blast
  show "claim_order b \<le> claim_order c" if "c \<in> set (rows s)" "batch_run c = run" "status c = Pending" "\<not> locked (batch_id c)"
  proof -
    have "c \<in> set (sort_key claim_order ?cands)" using that by simp
    then have "c \<in> set (b # rest)" unfolding r .
    moreover have "sorted (map claim_order (b # rest))" using sorted_sort_key [of claim_order ?cands] unfolding r .
    ultimately show ?thesis by auto
  qed
qed

lemma claim_update_ok:
  assumes "store_ok s" and b: "next_batch locked now run uuid token s = Some b"
  shows "store_ok (update_where (\<lambda>x. batch_id x = batch_id b) (mark_claimed now name uuid token) s)" (is "store_ok ?s")
proof -
  have ok: "distinct (row_ids s)" "claims_ok s" "tokens_ok s" "results_ok s" "inputs_ok s" "counters_ok s"
    using assms(1) by (auto simp: store_ok_def)
  note n = next_batch_Some [OF b]
  let ?g = "\<lambda>x. if batch_id x = batch_id b then mark_claimed now name uuid token x else x"
  have ids: "row_ids ?s = row_ids s" by (rule row_ids_update) (simp add: mark_claimed_def)
  have "claims_ok ?s" using ok(2) by (auto simp: claims_ok_def mark_claimed_def)
  moreover have "tokens_ok ?s"
  proof (rule tokens_okI, unfold update_where_simps)
    fix x y t assume x: "x \<in> set (map ?g (rows s))" and y: "y \<in> set (map ?g (rows s))"
      and t: "claim_token x = Some t" "claim_token y = Some t"
    obtain x0 where x0: "x = ?g x0" "x0 \<in> set (rows s)" using x unfolding set_map by (rule imageE)
    obtain y0 where y0: "y = ?g y0" "y0 \<in> set (rows s)" using y unfolding set_map by (rule imageE)
    have "claim_token x0 \<noteq> Some token" "claim_token y0 \<noteq> Some token" using n(6) x0(2) y0(2) by blast+
    then show "batch_id x = batch_id y"
      using t x0 y0 tokens_okD [OF ok(3) x0(2) y0(2), of t] by (auto simp: mark_claimed_def split: if_splits)
  qed
  moreover have "results_ok ?s"
    unfolding results_ok_def ids update_where_simps
  proof (intro conjI ballI)
    fix x assume x: "x \<in> set (map ?g (rows s))"
    obtain x0 where x0: "x = ?g x0" "x0 \<in> set (rows s)" using x unfolding set_map by (rule imageE)
    have "batch_id x0 = batch_id b \<Longrightarrow> x0 = b" using row_unique [OF ok(1) x0(2) n(1)] by simp
    then have "batch_id x = batch_id x0 \<and> (status x = Completed \<longleftrightarrow> status x0 = Completed)"
      using x0(1) n(3) by (auto simp: mark_claimed_def)
    then show "(results s (batch_id x) \<noteq> None) = (status x = Completed)"
      using ok(4) x0(2) by (simp add: results_ok_def)
  qed (use ok(4) in \<open>auto simp: results_ok_def\<close>)
  moreover have "inputs_ok ?s" using ok(5) by (simp add: inputs_ok_def ids)
  moreover have "counters_ok ?s" using ok(6) by (simp add: counters_ok_update mark_claimed_def)
  ultimately show ?thesis using ok(1) by (simp add: store_ok_def ids)
qed

lemma claim_ok: "store_ok s \<Longrightarrow> store_ok (snd (claim_batch dec locked now run uuid token s))"
  using claim_update_ok [of s locked now run uuid token]
  by (auto simp: claim_batch_def Let_def split: option.splits sum.splits)

lemma insert_rows_simps [simp]:
  "rows (insert_rows bs s) = rows s @ bs" "inputs (insert_rows bs s) = inputs s"
  "results (insert_rows bs s) = results s"
  by (simp_all add: insert_rows_def)

lemma fresh_rows_ok:
  assumes ok: "store_ok s" and fresh: "distinct (map batch_id bs)" "set (map batch_id bs) \<inter> set (row_ids s) = {}"
    and new: "\<forall>b \<in> set bs. status b = Pending \<and> claim_token b = None"
    and ins: "\<forall>i. ins i \<noteq> None \<longleftrightarrow> i \<in> set (map batch_id bs)"
  shows "store_ok ((insert_rows bs s)\<lparr>inputs := inputs s ++ ins\<rparr>)" (is "store_ok ?s")
proof -
  have ids: "row_ids ?s = row_ids s @ map batch_id bs" by (simp add: row_ids_def)
  note parts = ok [unfolded store_ok_def]
  have "distinct (row_ids ?s)" using parts fresh unfolding ids by auto
  moreover have "claims_ok ?s" using parts new by (auto simp: claims_ok_def)
  moreover have "tokens_ok ?s"
  proof (rule tokens_okI)
    fix b c t assume "b \<in> set (rows ?s)" "c \<in> set (rows ?s)" "claim_token b = Some t" "claim_token c = Some t"
    then have "b \<in> set (rows s)" "c \<in> set (rows s)" using new by auto
    then show "batch_id b = batch_id c" using \<open>claim_token b = Some t\<close> \<open>claim_token c = Some t\<close> parts tokens_okD by blast
  qed
  moreover have "results_ok ?s"
  proof -
    have "results s (batch_id b) = None" if "b \<in> set bs" for b
      using that fresh(2) parts by (cases "results s (batch_id b)") (auto simp: results_ok_def)
    then show ?thesis using parts new by (auto simp: results_ok_def ids)
  qed
  moreover have "inputs_ok ?s"
  proof -
    have "inputs ?s i \<noteq> None \<longleftrightarrow> inputs s i \<noteq> None \<or> ins i \<noteq> None" for i
      by (cases "ins i") (simp_all add: map_add_def)
    then show ?thesis using parts ins unfolding inputs_ok_def ids by simp
  qed
  moreover have "counters_ok ?s"
    using counters_ok_insert [of s bs] parts by (simp add: counters_ok_def)
  ultimately show ?thesis by (simp add: store_ok_def)
qed

lemma insert_ok: "store_ok s \<Longrightarrow> store_ok (snd (insert_batches enc samples_of now run task training ids bs s))"
proof -
  assume ok: "store_ok s"
  have "store_ok ((insert_rows (map2 (\<lambda>i b. new_row now run task training i (samples_of b)) ids bs) s)
      \<lparr>inputs := inputs s ++ map_of (zip ids payloads)\<rparr>)"
    if l: "length ids = length bs" "distinct ids" "\<not> (\<exists>i \<in> set ids. i \<in> batch_id ` set (rows s))"
      and p: "try_map enc bs = Inr payloads" for payloads
  proof (rule fresh_rows_ok [OF ok])
    have ids: "map batch_id (map2 (\<lambda>i b. new_row now run task training i (samples_of b)) ids bs) = ids"
      using l(1) by (induction ids bs rule: list_induct2) (simp_all add: new_row_def)
    show "distinct (map batch_id (map2 (\<lambda>i b. new_row now run task training i (samples_of b)) ids bs))"
      unfolding ids by (rule l(2))
    show "set (map batch_id (map2 (\<lambda>i b. new_row now run task training i (samples_of b)) ids bs)) \<inter> set (row_ids s) = {}"
      unfolding ids using l(3) by (auto simp: row_ids_def)
    have "length payloads = length ids" using try_map_length [OF p] l(1) by simp
    then have "fst ` set (zip ids payloads) = set ids" by (metis list.set_map map_fst_zip)
    then show "\<forall>i. (map_of (zip ids payloads) i \<noteq> None) = (i \<in> set (map batch_id (map2 (\<lambda>i b. new_row now run task training i (samples_of b)) ids bs)))"
      unfolding ids by (simp add: map_of_eq_None_iff)
  qed (auto simp: new_row_def)
  then show ?thesis using ok by (auto simp: insert_batches_def split: sum.splits)
qed

lemma delete_where_ok:
  assumes ok: "store_ok s"
  shows "store_ok (delete_where P s)"
proof -
  note parts = ok [unfolded store_ok_def]
  let ?s = "delete_where P s" and ?gone = "batch_id ` set (filter P (rows s))"
  have simps: "rows ?s = filter (\<lambda>b. \<not> P b) (rows s)"
    "results ?s = (\<lambda>i. if i \<in> ?gone then None else results s i)"
    "inputs ?s = (\<lambda>i. if i \<in> ?gone then None else inputs s i)"
    by (simp_all add: delete_where_def Let_def)
  have kept: "batch_id b \<notin> ?gone" if "b \<in> set (rows s)" "\<not> P b" for b
    using that row_unique [of s] parts by force
  have ids: "set (row_ids ?s) = set (row_ids s) - ?gone"
    using kept by (auto simp: row_ids_def simps)
  have "distinct (row_ids ?s)" using parts by (simp add: row_ids_def simps distinct_map_filter)
  moreover have "claims_ok ?s" using parts by (simp add: claims_ok_def simps)
  moreover have "tokens_ok ?s" using parts tokens_okD by (intro tokens_okI) (auto simp: simps)
  moreover have "results_ok ?s"
    unfolding results_ok_def ids using parts kept by (auto simp: results_ok_def simps)
  moreover have "inputs_ok ?s" unfolding inputs_ok_def ids using parts by (auto simp: inputs_ok_def simps)
  moreover have "counters_ok ?s" using parts by (simp add: counters_ok_delete)
  ultimately show ?thesis by (simp add: store_ok_def)
qed

lemma cleanup_ok: "store_ok s \<Longrightarrow> store_ok (snd (cleanup_consumed_completed_batches run up_to limit s))"
  by (simp add: cleanup_consumed_completed_batches_def Let_def delete_where_ok)

end
