(* ===== verification/Queue_Protocol.thy ===== *)
theory Queue_Protocol
  imports Work_Queue_Laws
begin

section \<open>The queue as a protocol between workers\<close>

text \<open>
  Any number of producers, evaluators and consumers act on the queue in any order; so do
  the control plane, which changes nodes and leases, and the checkpoints of the sampler.
  A state is reachable when such a sequence leads to it from the empty queue.
\<close>

definition empty_store :: "('p, 'v, 'o) store" where
  "empty_store = \<lparr>rows = [], inputs = (\<lambda>_. None), results = (\<lambda>_. None), node_rows = [],
     checkpoints = (\<lambda>_. None), counters = (\<lambda>_ _. 0)\<rparr>"

inductive queue_step ::
  "('b \<Rightarrow> string + 'p) \<Rightarrow> ('p \<Rightarrow> string + 'b) \<Rightarrow> ('b \<Rightarrow> usize) \<Rightarrow> ('r \<Rightarrow> store_error + ('v option \<times> 'o))
    \<Rightarrow> ('p, 'v, 'o) store \<Rightarrow> ('p, 'v, 'o) store \<Rightarrow> bool"
  for enc dec samples_of renc where
  step_insert: "queue_step enc dec samples_of renc s (snd (insert_batches enc samples_of now run task training ids bs s))"
| step_claim: "queue_step enc dec samples_of renc s (snd (claim_batch dec locked now run uuid token s))"
| step_release: "queue_step enc dec samples_of renc s (snd (release_claimed_batches_for_worker run uuid s))"
| step_untracked: "queue_step enc dec samples_of renc s (snd (release_untracked_claims run uuid tracked s))"
| step_reclaim: "queue_step enc dec samples_of renc s (snd (reclaim_abandoned_batches now run s))"
| step_submit: "queue_step enc dec samples_of renc s (snd (submit_batch_results renc now i uuid token r t s))"
| step_fail: "queue_step enc dec samples_of renc s (snd (fail_batch i uuid token e m s))"
| step_cleanup: "queue_step enc dec samples_of renc s (snd (cleanup_consumed_completed_batches run up_to limit s))"
| step_nodes: "queue_step enc dec samples_of renc s (s\<lparr>node_rows := ns\<rparr>)"
| step_checkpoint: "queue_step enc dec samples_of renc s (s\<lparr>checkpoints := cs\<rparr>)"

definition queue_reachable ::
  "('b \<Rightarrow> string + 'p) \<Rightarrow> ('p \<Rightarrow> string + 'b) \<Rightarrow> ('b \<Rightarrow> usize) \<Rightarrow> ('r \<Rightarrow> store_error + ('v option \<times> 'o))
    \<Rightarrow> ('p, 'v, 'o) store \<Rightarrow> bool" where
  "queue_reachable enc dec samples_of renc s \<longleftrightarrow> (queue_step enc dec samples_of renc)\<^sup>*\<^sup>* empty_store s"

lemma reachable_empty: "queue_reachable enc dec sz renc empty_store"
  by (simp add: queue_reachable_def)

lemma reachable_step:
  "queue_reachable enc dec sz renc s \<Longrightarrow> queue_step enc dec sz renc s s' \<Longrightarrow> queue_reachable enc dec sz renc s'"
  by (simp add: queue_reachable_def)

lemma store_ok_env [simp]:
  "store_ok (s\<lparr>node_rows := ns\<rparr>) = store_ok s" "store_ok (s\<lparr>checkpoints := cs\<rparr>) = store_ok s"
  by (simp_all add: store_ok_def claims_ok_def tokens_ok_def results_ok_def inputs_ok_def counters_ok_def row_ids_def)

lemma empty_store_ok: "store_ok empty_store"
  by (simp add: store_ok_def empty_store_def claims_ok_def tokens_ok_def results_ok_def inputs_ok_def
      counters_ok_def row_ids_def fun_eq_iff)

lemma queue_step_ok: "queue_step enc dec sz renc s s' \<Longrightarrow> store_ok s \<Longrightarrow> store_ok s'"
  by (induction rule: queue_step.induct)
    (simp_all add: insert_ok claim_ok release_ok untracked_ok reclaim_ok submit_ok fail_ok cleanup_ok)

lemma reachable_ok: "queue_reachable enc dec sz renc s \<Longrightarrow> store_ok s"
  unfolding queue_reachable_def by (induction rule: rtranclp_induct) (auto simp: empty_store_ok queue_step_ok)

text \<open>C18. Whatever the workers do in whatever order: identifiers stay unique, a claimed batch has an
  owner and a token no other batch has, a batch has a stored result exactly when it is completed,
  every batch keeps its input, and the counters equal the numbers of rows.\<close>

theorem reachable_queue_invariant:
  assumes "queue_reachable enc dec sz renc s"
  shows "distinct (row_ids s) \<and> claims_ok s \<and> tokens_ok s \<and> results_ok s \<and> inputs_ok s \<and> counters_ok s"
  using reachable_ok [OF assms] by (simp add: store_ok_def)

subsection \<open>A concrete queue\<close>

definition demo_row :: batch_row where
  "demo_row = new_row 1 7 3 True 5 10"

definition demo_node :: lease_row where
  "demo_node = \<lparr>node_name = ''n'', node_uuid = ''u'', active_run = Some 7, active_role = Some Evaluator,
     lease_expires_at = 9\<rparr>"

definition demo_enc :: "nat \<Rightarrow> string + nat" where "demo_enc x = Inr x"
definition demo_renc :: "nat \<Rightarrow> store_error + (nat option \<times> nat)" where "demo_renc x = Inr (None, x)"

text \<open>A run with one live evaluator and one pending batch; then claimed by it.\<close>

definition demo_pending :: "(nat, nat, nat) store" where
  "demo_pending = (snd (insert_batches demo_enc (\<lambda>x. x) 1 7 3 True [5] [10] empty_store))\<lparr>node_rows := [demo_node]\<rparr>"

definition demo_claimed :: "(nat, nat, nat) store" where
  "demo_claimed = snd (claim_batch demo_enc (\<lambda>_. False) 2 7 ''u'' ''t'' demo_pending)"

lemma demo_pending_reachable: "queue_reachable demo_enc demo_enc (\<lambda>x. x) demo_renc demo_pending"
  unfolding demo_pending_def
  by (rule reachable_step, rule reachable_step, rule reachable_empty, rule queue_step.step_insert,
      rule queue_step.step_nodes)

lemma demo_claimed_reachable: "queue_reachable demo_enc demo_enc (\<lambda>x. x) demo_renc demo_claimed"
  unfolding demo_claimed_def
  by (rule reachable_step, rule demo_pending_reachable, rule queue_step.step_claim)

lemma demo_pending_rows: "rows demo_pending = [demo_row]" "inputs demo_pending 5 = Some 10"
  "node_rows demo_pending = [demo_node]"
  by (simp_all add: demo_pending_def insert_batches_def demo_enc_def empty_store_def demo_row_def insert_rows_def)

lemma demo_claim:
  "claim_batch demo_enc (\<lambda>_. False) 2 7 ''u'' ''t'' demo_pending = (Inr (Some (5, 3, True, 10)), demo_claimed)"
  unfolding demo_claimed_def
  by (simp add: claim_batch_def next_batch_def existing_claim_def demo_pending_rows demo_row_def new_row_def
      evaluator_live_def demo_node_def demo_enc_def)

lemma demo_claimed_rows: "rows demo_claimed = [mark_claimed 2 (Some ''n'') ''u'' ''t'' demo_row]"
  "node_rows demo_claimed = [demo_node]" "results demo_claimed = (\<lambda>_. None)" "inputs demo_claimed 5 = Some 10"
  unfolding demo_claimed_def
  by (simp_all add: claim_batch_def next_batch_def existing_claim_def demo_pending_rows demo_row_def new_row_def
      evaluator_live_def demo_node_def demo_enc_def)
    (simp_all add: demo_pending_def insert_batches_def demo_enc_def empty_store_def)

lemma reachable_queue_invariant_witness: "rows demo_claimed \<noteq> [] \<and> results_ok demo_claimed"
  using reachable_queue_invariant [OF demo_claimed_reachable] demo_claimed_rows by simp

subsection \<open>Results are final\<close>

lemma update_where_result [simp]: "results (update_where P f s) i = results s i"
  by simp

text \<open>C20. A stored result is never replaced: one step of any worker leaves it as it is or removes it
  together with its batch.\<close>

theorem completed_result_is_final:
  assumes "store_ok s" and "queue_step enc dec sz renc s s'" and "results s i = Some r"
  shows "results s' i = Some r \<or> (results s' i = None \<and> i \<notin> set (row_ids s'))"
  using assms(2,1,3)
proof (induction rule: queue_step.induct)
  case (step_insert s now run task training ids bs)
  then show ?case by (auto simp: insert_batches_def split: sum.splits)
next
  case (step_submit s now j uuid token r' t)
  then show ?case
    by (auto simp: submit_batch_results_def split: sum.splits prod.splits option.splits batch_status.splits)
next
  case (step_cleanup s run up_to limit)
  have "results (delete_where P s) i = Some r \<or> (results (delete_where P s) i = None \<and> i \<notin> set (row_ids (delete_where P s)))" for P
    using step_cleanup by (auto simp: delete_where_def Let_def row_ids_def store_ok_def results_ok_def
        distinct_map inj_on_def)
  then show ?case using step_cleanup by (simp add: cleanup_consumed_completed_batches_def Let_def)
qed (simp_all add: claim_batch_def release_claimed_batches_for_worker_def release_untracked_claims_def
    reclaim_abandoned_batches_def fail_batch_def Let_def split: option.splits sum.splits)

definition demo_completed :: "(nat, nat, nat) store" where
  "demo_completed = snd (submit_batch_results demo_renc 3 5 ''u'' ''t'' 42 1 demo_claimed)"

lemma demo_submit: "submit_batch_results demo_renc 3 5 ''u'' ''t'' 42 1 demo_claimed = (Inr (), demo_completed)"
  unfolding demo_completed_def
  by (simp add: submit_batch_results_def demo_renc_def owned_row_def demo_claimed_rows mark_claimed_def
      demo_row_def new_row_def)

lemma demo_completed_result:
  "results demo_completed 5 = Some \<lparr>result_values = None, batch_observable = Some 42,
     total_eval_time_ms = 1, result_completed_at = 3\<rparr>"
  "rows demo_completed = [mark_completed 3 (mark_claimed 2 (Some ''n'') ''u'' ''t'' demo_row)]"
  unfolding demo_completed_def
  by (simp_all add: submit_batch_results_def demo_renc_def owned_row_def demo_claimed_rows mark_claimed_def
      demo_row_def new_row_def)

lemma demo_completed_ok: "store_ok demo_completed"
  unfolding demo_completed_def by (rule submit_ok [OF reachable_ok [OF demo_claimed_reachable]])

lemma demo_resubmit_keeps_row:
  "5 \<in> set (row_ids (snd (submit_batch_results demo_renc 4 5 ''u'' ''t'' 99 1 demo_completed)))"
  by (simp add: submit_batch_results_def demo_renc_def owned_row_def demo_completed_result mark_completed_def
      mark_claimed_def demo_row_def new_row_def row_ids_def)

lemma completed_result_is_final_witness:
  "results (snd (submit_batch_results demo_renc 4 5 ''u'' ''t'' 99 1 demo_completed)) 5 = results demo_completed 5"
  using completed_result_is_final [OF demo_completed_ok
      queue_step.step_submit [of demo_enc demo_enc "\<lambda>x. x" demo_renc demo_completed 4 5 "''u''" "''t''" 99 1]
      demo_completed_result(1)] demo_resubmit_keeps_row demo_completed_result(1) by simp

text \<open>Submitting is idempotent: after an accepted submission, repeating it with the same token, even
  with another payload, is accepted and changes nothing.\<close>

theorem submit_idempotent:
  assumes "store_ok s" and "submit_batch_results renc now i uuid token r t s = (Inr (), s')"
    and "renc r' = Inr x"
  shows "submit_batch_results renc now' i uuid token r' t' s' = (Inr (), s')"
proof -
  obtain v ob where enc: "renc r = Inr (v, ob)"
    using assms(2) by (auto simp: submit_batch_results_def split: sum.splits)
  obtain b where b: "owned_row i uuid token s = Some b" "status b = Completed \<or> status b = Claimed"
    using assms(2) enc
    by (auto simp: submit_batch_results_def split: option.splits batch_status.splits)
  have ok': "store_ok s'" using submit_ok [OF assms(1), of renc now i uuid token r t] assms(2) by simp
  have mem: "b \<in> set (rows s)" "batch_id b = i" "claimed_by_node_uuid b = Some uuid" "claim_token b = Some token"
    using owned_row_Some [OF b(1)] by simp_all
  have "\<exists>b'. owned_row i uuid token s' = Some b' \<and> status b' = Completed \<and> results s' i \<noteq> None"
  proof (cases "status b = Completed")
    case True
    then have "s' = s" "results s i \<noteq> None"
      using assms(2) enc b(1) by (auto simp: submit_batch_results_def split: if_splits)
    then show ?thesis using b(1) True by blast
  next
    case False
    then have st: "status b = Claimed" using b(2) by simp
    then have s': "s' = (update_where (\<lambda>b. batch_id b = i) (mark_completed now) s)
        \<lparr>results := (results s)(i \<mapsto> \<lparr>result_values = v, batch_observable = Some ob,
           total_eval_time_ms = t, result_completed_at = now\<rparr>)\<rparr>"
      using assms(2) enc b(1) by (auto simp: submit_batch_results_def split: if_splits)
    have "mark_completed now b \<in> set (rows s')" using mem by (auto simp: s')
    then have "owned_row i uuid token s' = Some (mark_completed now b)"
      using ok' mem by (subst owned_row_iff) (auto simp: store_ok_def mark_completed_def)
    then show ?thesis by (auto simp: s' mark_completed_def)
  qed
  then show ?thesis using assms(3) by (cases x) (auto simp: submit_batch_results_def)
qed

lemma submit_idempotent_witness:
  "submit_batch_results demo_renc 8 5 ''u'' ''t'' 99 2 demo_completed = (Inr (), demo_completed)"
  by (rule submit_idempotent [OF reachable_ok [OF demo_claimed_reachable] demo_submit]) (simp add: demo_renc_def)

subsection \<open>Fencing\<close>

lemma owned_row_None:
  "(\<And>b. b \<in> set (rows s) \<Longrightarrow> batch_id b = i \<Longrightarrow> claimed_by_node_uuid b = Some uuid \<Longrightarrow> claim_token b \<noteq> Some token) \<Longrightarrow>
   owned_row i uuid token s = None"
  by (auto simp: owned_row_def find_None_iff)

lemma released_not_owned:
  assumes "distinct (row_ids s)" "b \<in> set (rows s)" "P b" "claim_token (f b) = None" "\<And>x. batch_id (f x) = batch_id x"
  shows "owned_row (batch_id b) uuid token (update_where P f s) = None"
proof (rule owned_row_None)
  fix c assume c: "c \<in> set (rows (update_where P f s))" "batch_id c = batch_id b"
  then obtain c0 where c0: "c0 \<in> set (rows s)" "c = (if P c0 then f c0 else c0)" by auto
  then have "batch_id c0 = batch_id b" using c(2) assms(5) by (auto split: if_splits)
  then have "c0 = b" using row_unique [OF assms(1) c0(1) assms(2)] by simp
  then show "claim_token c \<noteq> Some token" using c0(2) assms(3,4) by simp
qed



subsection \<open>Claiming\<close>

text \<open>C28. A successful claim hands out exactly one batch: either the one this token already owns, without
  any change, or the oldest pending batch of the run that nobody holds locked, to a node with a
  live evaluator lease; repeating the request with the same token returns the same batch.\<close>

theorem claim_is_fifo_and_idempotent:
  assumes "store_ok s" and "claim_batch dec locked now run uuid token s = (Inr (Some (i, task, training, x)), s')"
  shows "claim_batch dec locked' now' run uuid token s' = (Inr (Some (i, task, training, x)), s') \<and>
    (\<exists>b \<in> set (rows s). batch_id b = i \<and> batch_run b = run \<and>
      (status b = Claimed \<and> claim_token b = Some token \<and> claimed_by_node_uuid b = Some uuid \<and> s' = s \<or>
       status b = Pending \<and> \<not> locked i \<and> evaluator_live now run uuid s \<and>
       (\<forall>c \<in> set (rows s). batch_run c = run \<and> status c = Pending \<and> \<not> locked (batch_id c) \<longrightarrow>
          claim_order b \<le> claim_order c)))"
proof (cases "existing_claim run uuid token s")
  case (Some b)
  have b: "b \<in> set (rows s)" "claim_token b = Some token" "claimed_by_node_uuid b = Some uuid"
    "batch_run b = run" "status b = Claimed"
    using find_Some_iff [OF Some [unfolded existing_claim_def]] by auto
  then have n: "next_batch l n run uuid token s = None" for l n by (auto simp: next_batch_def)
  obtain p where p: "inputs s (batch_id b) = Some p" "dec p = Inr x" "i = batch_id b" "task = batch_task b"
    "training = training_values b" "s' = s"
    using assms(2) Some n by (auto simp: claim_batch_def Let_def split: option.splits sum.splits)
  then show ?thesis using b n Some by (auto simp: claim_batch_def)
next
  case None
  obtain b where fresh: "next_batch locked now run uuid token s = Some b"
    using assms(2) None by (cases "next_batch locked now run uuid token s") (auto simp: claim_batch_def Let_def)
  note n = next_batch_Some [OF fresh]
  let ?name = "map_option node_name (find (\<lambda>n. node_uuid n = uuid) (node_rows s))"
  have s': "s' = update_where (\<lambda>y. batch_id y = batch_id b) (mark_claimed now ?name uuid token) s"
    and p: "\<exists>p. inputs s (batch_id b) = Some p \<and> dec p = Inr x" "i = batch_id b" "task = batch_task b"
      "training = training_values b"
    using assms(2) None fresh by (auto simp: claim_batch_def Let_def split: option.splits sum.splits)
  let ?b = "mark_claimed now ?name uuid token b"
  have ok': "store_ok s'" using claim_ok [OF assms(1), of dec locked now run uuid token] assms(2) by simp
  have mem: "?b \<in> set (rows s')" using n(1) by (auto simp: s')
  have "claim_token ?b = Some token" "claimed_by_node_uuid ?b = Some uuid" "batch_run ?b = run" "status ?b = Claimed"
    using n(2) by (simp_all add: mark_claimed_def)
  with mem have own: "existing_claim run uuid token s' \<noteq> None"
    unfolding existing_claim_def find_None_iff by blast
  then obtain c where c: "existing_claim run uuid token s' = Some c" by blast
  have cc: "c \<in> set (rows s')" "claim_token c = Some token" using find_Some_iff [OF c [unfolded existing_claim_def]] by auto
  have "tokens_ok s'" "distinct (row_ids s')" using ok' by (simp_all add: store_ok_def)
  then have "c = ?b"
    using tokens_okD [of s' c ?b token] row_unique [of s' c ?b] cc mem by (simp add: mark_claimed_def)
  moreover have "next_batch l m run uuid token s' = None" for l m
    using cc by (auto simp: next_batch_def)
  ultimately have again: "claim_batch dec locked' now' run uuid token s' = (Inr (Some (i, task, training, x)), s')"
    using c p by (auto simp: claim_batch_def s' mark_claimed_def)
  have "\<forall>c \<in> set (rows s). batch_run c = run \<and> status c = Pending \<and> \<not> locked (batch_id c) \<longrightarrow> claim_order b \<le> claim_order c"
    using n(7) by blast
  then show ?thesis using again n(1-5) p(2) by blast
qed

lemma claim_is_fifo_and_idempotent_witness:
  "claim_batch demo_enc (\<lambda>_. True) 3 7 ''u'' ''t'' demo_claimed = (Inr (Some (5, 3, True, 10)), demo_claimed)"
  using claim_is_fifo_and_idempotent [OF reachable_ok [OF demo_pending_reachable] demo_claim] by blast

subsection \<open>Failing\<close>

text \<open>A failure report of the owner is counted once: it either requeues the batch or, at the retry
  limit, fails it for good; the count grows by one, and repeating the report returns the same
  outcome without counting again.\<close>

theorem fail_batch_counts_once:
  assumes "store_ok s" and "owned_row i uuid token s = Some b" and "status b = Claimed"
    and "fail_batch i uuid token e m s = (out, s')"
  shows "out = Inr (if retry_count b + 1 \<ge> m then PermanentlyFailed (batch_task b) (retry_count b + 1)
                    else Requeued (batch_task b) (retry_count b + 1)) \<and>
    fail_batch i uuid token e' m s' = (out, s') \<and> results s' = results s"
proof -
  let ?n = "retry_count b + 1"
  let ?st = "if ?n \<ge> m then Failed else Pending"
  have s': "s' = update_where (\<lambda>x. batch_id x = i) (mark_failed ?st ?n e) s"
    and out: "out = Inr (fail_outcome ?st (batch_task b) ?n)"
    using assms(2-4) by (auto simp: fail_batch_def Let_def)
  have mem: "b \<in> set (rows s)" "batch_id b = i" "claimed_by_node_uuid b = Some uuid" "claim_token b = Some token"
    using owned_row_Some [OF assms(2)] by simp_all
  have "distinct (row_ids s')"
    using fail_ok [OF assms(1), of i uuid token e m] assms(4) by (simp add: store_ok_def)
  moreover have "mark_failed ?st ?n e b \<in> set (rows s')" using mem by (auto simp: s')
  ultimately have "owned_row i uuid token s' = Some (mark_failed ?st ?n e b)"
    using mem by (subst owned_row_iff) (auto simp: mark_failed_def)
  then show ?thesis by (auto simp: fail_batch_def out s' mark_failed_def fail_outcome_def)
qed

lemma fail_batch_counts_once_witness:
  "fst (fail_batch 5 ''u'' ''t'' ''e'' 3 demo_claimed) = Inr (Requeued 3 1)"
proof -
  have b: "owned_row 5 ''u'' ''t'' demo_claimed = Some (mark_claimed 2 (Some ''n'') ''u'' ''t'' demo_row)"
    by (simp add: owned_row_def demo_claimed_rows mark_claimed_def demo_row_def new_row_def)
  have "fail_batch 5 ''u'' ''t'' ''e'' 3 demo_claimed =
      (fst (fail_batch 5 ''u'' ''t'' ''e'' 3 demo_claimed), snd (fail_batch 5 ''u'' ''t'' ''e'' 3 demo_claimed))" by simp
  from fail_batch_counts_once [OF reachable_ok [OF demo_claimed_reachable] b _ this]
  show ?thesis by (simp add: mark_claimed_def demo_row_def new_row_def)
qed

subsection \<open>Consuming in order\<close>

lemma fold_min_le: "fold min xs (a :: i64) \<le> a \<and> (\<forall>x \<in> set xs. fold min xs a \<le> x) \<and> fold min xs a \<in> insert a (set xs)"
proof (induction xs arbitrary: a)
  case (Cons x xs)
  show ?case using Cons.IH [of "min x a"] by (auto simp: min_def split: if_splits)
qed simp

lemma first_incomplete_None: "first_incomplete cs = None \<longleftrightarrow> (\<forall>c \<in> set cs. status c = Completed)"
proof (cases "filter (\<lambda>b. status b \<noteq> Completed) cs")
  case Nil
  then show ?thesis by (simp add: first_incomplete_def filter_empty_conv)
next
  case (Cons b bs)
  then have "b \<in> set (filter (\<lambda>b. status b \<noteq> Completed) cs)" by simp
  then have "b \<in> set cs \<and> status b \<noteq> Completed" unfolding set_filter by blast
  then show ?thesis using Cons by (auto simp: first_incomplete_def)
qed

lemma first_incomplete_Some:
  assumes "first_incomplete cs = Some f"
  shows "(\<exists>c \<in> set cs. batch_id c = f \<and> status c \<noteq> Completed)"
    and "c \<in> set cs \<Longrightarrow> batch_id c < f \<Longrightarrow> status c = Completed"
proof -
  obtain b bs where bs: "filter (\<lambda>b. status b \<noteq> Completed) cs = b # bs" "f = fold min (map batch_id bs) (batch_id b)"
    using assms by (auto simp: first_incomplete_def split: list.splits)
  note m = fold_min_le [of "map batch_id bs" "batch_id b"]
  have "f \<in> batch_id ` set (b # bs)" using m bs(2) by auto
  then show "\<exists>c \<in> set cs. batch_id c = f \<and> status c \<noteq> Completed"
    unfolding bs(1) [symmetric] by auto
  show "status c = Completed" if "c \<in> set cs" "batch_id c < f"
  proof (rule ccontr)
    assume "status c \<noteq> Completed"
    then have "c \<in> set (b # bs)" unfolding bs(1) [symmetric] using that(1) by simp
    then have "f \<le> batch_id c" using m bs(2) by auto
    then show False using that(2) by simp
  qed
qed

lemma completed_prefix_takeWhile:
  assumes "sorted_wrt (<) (map batch_id cs)"
  shows "completed_prefix cs = takeWhile (\<lambda>b. status b = Completed) cs"
proof (cases "first_incomplete cs")
  case None
  then have all: "\<forall>c \<in> set cs. status c = Completed" by (simp only: first_incomplete_None)
  then have "filter (\<lambda>c. status c = Completed \<and> True) cs = cs" by (simp add: filter_id_conv)
  moreover have "takeWhile (\<lambda>b. status b = Completed) cs = cs" using all by (simp add: takeWhile_eq_all_conv)
  ultimately show ?thesis by (simp only: completed_prefix_def None option.case)
next
  case (Some f)
  let ?P = "\<lambda>b. status b = Completed" and ?Q = "\<lambda>c. status c = Completed \<and> batch_id c < f"
  note inc = first_incomplete_Some [OF Some]
  have "dropWhile ?P cs \<noteq> []" using inc(1) by (auto simp: dropWhile_eq_Nil_conv)
  then obtain d rest where dw: "dropWhile ?P cs = d # rest" by (cases "dropWhile ?P cs") auto
  then have dr: "dropWhile ?P cs = d # rest" "status d \<noteq> Completed"
    by (simp_all add: dropWhile_eq_Cons_conv)
  have split: "cs = takeWhile ?P cs @ d # rest" using takeWhile_dropWhile_id [of ?P cs] dr(1) by simp
  have sorted: "sorted_wrt (\<lambda>x y. batch_id x < batch_id y) (takeWhile ?P cs @ d # rest)"
    using assms split by (metis sorted_wrt_map)
  have f: "f = batch_id d"
  proof (rule antisym)
    have "d \<in> set cs" by (subst split) simp
    then show "f \<le> batch_id d" using inc(2) [of d] dr(2) by (cases "batch_id d < f") auto
    obtain c where c: "c \<in> set cs" "batch_id c = f" "status c \<noteq> Completed" using inc(1) by blast
    then have "c \<notin> set (takeWhile ?P cs)" by (auto dest: set_takeWhileD)
    then have "c \<in> set (d # rest)" using c(1) split by (metis Un_iff set_append)
    then show "batch_id d \<le> f" using sorted c(2) by (auto simp: sorted_wrt_append)
  qed
  have "filter ?Q (takeWhile ?P cs) = takeWhile ?P cs"
    using sorted by (auto simp: filter_id_conv sorted_wrt_append f dest: set_takeWhileD)
  moreover have "filter ?Q (d # rest) = []"
    using sorted by (auto simp: filter_empty_conv sorted_wrt_append f)
  ultimately have "filter ?Q (takeWhile ?P cs @ d # rest) = takeWhile ?P cs" by (simp only: filter_append append_Nil2)
  then show ?thesis using split by (simp add: completed_prefix_def Some)
qed

lemma task_rows_after_sorted:
  assumes "distinct (row_ids s)"
  shows "sorted_wrt (<) (map batch_id (task_rows_after run task after s))"
proof -
  let ?xs = "filter (\<lambda>b. batch_run b = run \<and> batch_id b > after \<and> batch_task b = task) (rows s)"
  have "distinct (map batch_id ?xs)" using assms by (simp add: row_ids_def distinct_map_filter)
  then have "distinct (map batch_id (sort_key batch_id ?xs))" by (simp add: distinct_map)
  then show ?thesis unfolding task_rows_after_def strict_sorted_iff by simp
qed

lemma join_results_all:
  assumes "\<forall>b \<in> set bs. results s (batch_id b) \<noteq> None"
  shows "concat (map (join_result s) bs) = map (\<lambda>b. (b, the (results s (batch_id b)))) bs"
  using assms by (induction bs) (auto simp: join_result_def)

lemma fetch_ordered:
  assumes "store_ok s"
  shows "fetch_completed_batches run task limit True after s =
    (if usize_as_i64 limit < 0 then Inl (Database ''LIMIT must not be negative'')
     else Inr (map (\<lambda>b. (b, the (results s (batch_id b))))
      (takeWhile (\<lambda>b. status b = Completed)
        (take limit (task_rows_after run task (case after of None \<Rightarrow> 0 | Some a \<Rightarrow> a) s)))))"
proof -
  let ?here = "task_rows_after run task (case after of None \<Rightarrow> 0 | Some a \<Rightarrow> a) s"
  let ?done = "takeWhile (\<lambda>b. status b = Completed) (take limit ?here)"
  have d: "distinct (row_ids s)" and r: "results_ok s" using assms by (simp_all add: store_ok_def)
  have "sorted_wrt (<) (map batch_id (take limit ?here))"
    using task_rows_after_sorted [OF d] by (metis sorted_wrt_take take_map)
  then have pre: "completed_prefix (take limit ?here) = ?done" by (rule completed_prefix_takeWhile)
  have "set ?done \<subseteq> set (rows s)"
    by (auto simp: task_rows_after_def dest!: set_takeWhileD in_set_takeD)
  moreover have "\<forall>b \<in> set ?done. status b = Completed" by (auto dest: set_takeWhileD)
  ultimately have res: "\<forall>b \<in> set ?done. results s (batch_id b) \<noteq> None"
    using r by (auto simp: results_ok_def)
  have obs: "completed_of_row (b, the (results s (batch_id b))) = Inr (b, the (results s (batch_id b)))"
    if "b \<in> set ?done" for b
    using res that r by (auto simp: completed_of_row_def results_ok_def)
  have "try_map completed_of_row (map (\<lambda>b. (b, the (results s (batch_id b)))) ?done) =
      Inr (map (\<lambda>b. (b, the (results s (batch_id b)))) ?done)"
    using try_map_total [of "map (\<lambda>b. (b, the (results s (batch_id b)))) ?done" completed_of_row "\<lambda>x. x"] obs by auto
  then show ?thesis
    by (simp add: fetch_completed_batches_def pre join_results_all [OF res])
qed

text \<open>C19. Ordered consumption returns exactly the longest completed prefix of the task's batches after the
  cursor, within the limit and with its stored results: no batch is skipped, so results are
  ingested in production order whatever the order of completion.\<close>

theorem ordered_fetch_is_completed_prefix:
  assumes "store_ok s" and "limit < 2 ^ 63"
  shows "fetch_completed_batches run task limit True after s =
    Inr (map (\<lambda>b. (b, the (results s (batch_id b))))
      (takeWhile (\<lambda>b. status b = Completed)
        (take limit (task_rows_after run task (case after of None \<Rightarrow> 0 | Some a \<Rightarrow> a) s))))"
  using fetch_ordered [OF assms(1), of run task limit after] assms(2) by simp

lemma ordered_fetch_is_completed_prefix_witness:
  "\<exists>x. fetch_completed_batches 7 3 4 True None demo_completed = Inr [x]"
  using ordered_fetch_is_completed_prefix [OF demo_completed_ok, of 4 7 3 None]
  by (simp add: task_rows_after_def demo_completed_result(2) mark_completed_def mark_claimed_def demo_row_def new_row_def)

text \<open>The queue counts of a run, which are read from the counters the trigger keeps, equal the numbers
  of pending, claimed and failed rows at every reachable state.\<close>

theorem queue_counts_are_exact:
  assumes "queue_reachable enc dec sz renc s"
  shows "get_batch_queue_counts run None after s =
    \<lparr>pending_count = count_where (\<lambda>b. batch_run b = run \<and> status b = Pending) s,
     claimed_count = count_where (\<lambda>b. batch_run b = run \<and> status b = Claimed) s,
     completed_count = count_where (\<lambda>b. batch_run b = run \<and> status b = Completed \<and>
        batch_id b > (case after of None \<Rightarrow> 0 | Some a \<Rightarrow> a)) s,
     failed_count = count_where (\<lambda>b. batch_run b = run \<and> status b = Failed) s\<rparr>"
  using reachable_ok [OF assms]
  by (simp add: get_batch_queue_counts_def store_ok_def counters_ok_def counters_of_status count_where_def Let_def)

lemma queue_counts_are_exact_witness: "claimed_count (get_batch_queue_counts 7 None None demo_claimed) = 1"
  using queue_counts_are_exact [OF demo_claimed_reachable, of 7 None]
  by (simp add: count_where_def demo_claimed_rows mark_claimed_def demo_row_def new_row_def)

lemma cleanup_candidate_iff:
  "cleanup_candidate run up_to s b \<longleftrightarrow> batch_run b = run \<and> status b = Completed \<and> retry_count b = 0 \<and>
     batch_id b \<le> up_to \<and> (\<exists>c. checkpoints s run = Some c \<and> cleanup_allowed c (batch_id b))"
  by (cases "checkpoints s run") (simp_all add: cleanup_candidate_def)

definition demo_checkpointed :: "(nat, nat, nat) store" where
  "demo_checkpointed = demo_completed\<lparr>checkpoints :=
     (\<lambda>_. Some \<lparr>last_completed_batch_id = Some 5, last_produced_batch_id = None\<rparr>)\<rparr>"



end
