(* ===== verification/Metrics.thy ===== *)
theory Metrics
  imports F64
begin

section \<open>Timing metrics\<close>

text \<open>
  \<open>WindowMetric\<close> of \<open>src/runners/window_metric.rs\<close> and \<open>RollingMetric\<close> of
  \<open>src/runners/rolling_metric.rs\<close>. \<open>powf\<close> and \<open>sqrt\<close> of the platform are parameters.
\<close>

record window_metric =
  wm_count :: u64
  wm_sum :: f64
  wm_mean :: f64
  wm_m2 :: f64
  wm_max :: "f64 option"

definition window_default :: window_metric where
  "window_default = \<lparr>wm_count = 0, wm_sum = f64_zero, wm_mean = f64_zero, wm_m2 = f64_zero, wm_max = None\<rparr>"

definition observe_weighted :: "window_metric \<Rightarrow> f64 \<Rightarrow> usize \<Rightarrow> window_metric" where
  "observe_weighted m x w =
     (if \<not> f64_is_finite x \<or> f64_lt x f64_zero \<or> w = 0 then m
      else
        let n = wm_count m + w;
            weight = f64_of_nat w;
            delta = f64_sub x (wm_mean m);
            mean = f64_add (wm_mean m) (f64_div (f64_mul delta weight) (f64_of_nat n));
            delta2 = f64_sub x mean
        in \<lparr>wm_count = n, wm_sum = f64_add (wm_sum m) (f64_mul x weight), wm_mean = mean,
            wm_m2 = f64_add (wm_m2 m) (f64_mul (f64_mul delta delta2) weight),
            wm_max = Some (case wm_max m of None \<Rightarrow> x | Some c \<Rightarrow> f64_max c x)\<rparr>)"

definition observe :: "window_metric \<Rightarrow> f64 \<Rightarrow> window_metric" where
  "observe m x = observe_weighted m x 1"

record metric_snapshot =
  snap_count :: u64
  snap_mean :: "f64 option"
  snap_total :: "f64 option"
  snap_max :: "f64 option"
  snap_std_dev :: f64

definition snapshot_default :: metric_snapshot where
  "snapshot_default = \<lparr>snap_count = 0, snap_mean = None, snap_total = None, snap_max = None, snap_std_dev = f64_zero\<rparr>"

definition window_snapshot :: "(f64 \<Rightarrow> f64) \<Rightarrow> window_metric \<Rightarrow> metric_snapshot" where
  "window_snapshot sqrt_f m =
     (if wm_count m = 0 then snapshot_default
      else
        let variance = (if wm_count m > 1 then f64_div (wm_m2 m) (f64_of_nat (wm_count m)) else f64_zero)
        in \<lparr>snap_count = wm_count m, snap_mean = Some (wm_mean m), snap_total = Some (wm_sum m),
            snap_max = wm_max m, snap_std_dev = sqrt_f (f64_max variance f64_zero)\<rparr>)"

definition snapshot_and_reset :: "(f64 \<Rightarrow> f64) \<Rightarrow> window_metric \<Rightarrow> metric_snapshot \<times> window_metric" where
  "snapshot_and_reset sqrt_f m = (window_snapshot sqrt_f m, window_default)"

record rolling_metric =
  rm_mean :: "f64 option"
  rm_variance :: f64

definition rolling_default :: rolling_metric where
  "rolling_default = \<lparr>rm_mean = None, rm_variance = f64_zero\<rparr>"

definition observe_batch :: "(f64 \<Rightarrow> f64 \<Rightarrow> f64) \<Rightarrow> rolling_metric \<Rightarrow> f64 \<Rightarrow> usize \<Rightarrow> rolling_metric" where
  "observe_batch powf m total_ms n =
     (if n = 0 then m
      else
        let x = f64_div total_ms (f64_of_nat n) in
        if \<not> f64_is_finite x \<or> f64_lt x f64_zero then m
        else
          let a = f64_clamp f64_zero f64_one
                    (f64_sub f64_one (powf (f64_of_rat (4 / 5)) (f64_div (f64_of_nat n) (f64_of_nat 1000))))
          in case rm_mean m of
               Some mean \<Rightarrow>
                 (let delta = f64_sub x mean;
                      v = f64_mul (f64_sub f64_one a) (f64_add (rm_variance m) (f64_mul (f64_mul a delta) delta))
                  in \<lparr>rm_mean = Some (f64_add mean (f64_mul a delta)), rm_variance = f64_max v f64_zero\<rparr>)
             | None \<Rightarrow> \<lparr>rm_mean = Some x, rm_variance = f64_zero\<rparr>)"

definition rolling_std_dev :: "(f64 \<Rightarrow> f64) \<Rightarrow> rolling_metric \<Rightarrow> f64" where
  "rolling_std_dev sqrt_f m = sqrt_f (f64_max (rm_variance m) f64_zero)"

subsection \<open>What a window keeps\<close>

definition accepted :: "f64 \<times> usize \<Rightarrow> bool" where
  "accepted o' \<longleftrightarrow> f64_is_finite (fst o') \<and> \<not> f64_lt (fst o') f64_zero \<and> snd o' \<noteq> 0"

definition observe_list :: "window_metric \<Rightarrow> (f64 \<times> usize) list \<Rightarrow> window_metric" where
  "observe_list = foldl (\<lambda>m (x, w). observe_weighted m x w)"

lemma observe_count: "wm_count (observe_weighted m x w) = wm_count m + (if accepted (x, w) then w else 0)"
  by (simp add: observe_weighted_def accepted_def Let_def)

lemma observe_max:
  "wm_max (observe_weighted m x w) =
     (if accepted (x, w) then Some (case wm_max m of None \<Rightarrow> x | Some c \<Rightarrow> f64_max c x) else wm_max m)"
  by (simp add: observe_weighted_def accepted_def Let_def)

lemma window_count: "wm_count (observe_list m xs) = wm_count m + sum_list (map snd (filter accepted xs))"
  by (induction xs arbitrary: m) (auto simp: observe_list_def observe_count)

lemma f64_max_upper: "f64_is_finite a \<Longrightarrow> f64_is_finite b \<Longrightarrow>
    f64_is_finite (f64_max a b) \<and> \<not> f64_lt (f64_max a b) a \<and> \<not> f64_lt (f64_max a b) b \<and> f64_max a b \<in> {a, b}"
  by (cases a; cases b) (auto simp: f64_max_def)

text \<open>The variance of the rolling metric is never negative, so its square root is defined.\<close>

lemma rolling_variance_nonneg:
  "\<not> f64_lt (rm_variance m) f64_zero \<Longrightarrow> \<not> f64_lt (rm_variance (observe_batch powf m t n)) f64_zero"
proof -
  have max0: "\<not> f64_lt (f64_max v f64_zero) f64_zero" for v
    by (cases v) (auto simp: f64_max_def f64_zero_def f64_signed_def split: if_splits)
  assume "\<not> f64_lt (rm_variance m) f64_zero"
  then show ?thesis using max0 by (auto simp: observe_batch_def Let_def split: option.splits)
qed

end
