(* ===== verification/Sampler_Queue.thy ===== *)
theory Sampler_Queue
  imports Metrics Models Latent_Batch Stratification
begin

section \<open>The sampler's side of the queue\<close>

text \<open>
  \<open>SamplerQueue\<close> of \<open>src/runners/queue.rs\<close>: local batches waiting to be inserted, the
  asynchronous insert, fetch and cleanup tasks, the two recovery cursors and the
  adaptive batch size. A spawned task is its captured arguments with a handle that is
  \<open>Running\<close> until the runtime stores its outcome. Instants are milliseconds. The source
  of batch identifiers is the function \<open>fresh\<close> with its state; \<open>powf\<close> and the outcome
  of the broadcast to idle workers are parameters. Busy-time accounting is not modelled.
\<close>

definition reclaim_interval :: nat where "reclaim_interval = 1000"
definition completed_cleanup_interval :: nat where "completed_cleanup_interval = 1000"
definition completed_cleanup_batch_limit :: usize where "completed_cleanup_batch_limit = 2048"
definition min_batch_size :: usize where "min_batch_size = 16"
definition batch_size_deadband_ratio :: f64 where "batch_size_deadband_ratio = f64_of_rat (3 / 20)"
definition batch_size_cooldown_ticks :: u32 where "batch_size_cooldown_ticks = 3"

record sampler_queue_config =
  target_batch_eval_ms :: f64
  max_batch_size :: usize
  max_generation_size :: usize
  fixed_batch_size :: "usize option"
  max_batches_per_tick :: usize
  max_insert_bundle_size :: usize
  max_concurrent_insert_tasks :: usize
  completed_batch_fetch_limit :: usize
  max_batch_retries :: i32

record sampler_queue_tuning =
  tune_fixed_batch_size :: "usize option"
  tune_target_batch_eval_ms :: "f64 option"
  tune_max_batch_size :: "usize option"
  tune_max_generation_size :: "usize option"

definition tuning_validate :: "sampler_queue_tuning \<Rightarrow> string + unit" where
  "tuning_validate t =
     (if (case tune_target_batch_eval_ms t of None \<Rightarrow> False
          | Some v \<Rightarrow> \<not> f64_is_finite v \<or> f64_le v f64_zero)
      then Inl ''target_batch_eval_ms must be finite and positive''
      else if tune_max_batch_size t = Some 0 then Inl ''max_batch_size must be positive''
      else if tune_fixed_batch_size t = Some 0 then Inl ''fixed_batch_size must be positive''
      else if (case (tune_fixed_batch_size t, tune_max_batch_size t) of
                 (Some fixed, Some mx) \<Rightarrow> fixed > mx | _ \<Rightarrow> False)
      then Inl ''fixed_batch_size exceeds max_batch_size''
      else Inr ())"

definition apply_option :: "'a \<Rightarrow> 'a option \<Rightarrow> 'a" where
  "apply_option dest v = (case v of None \<Rightarrow> dest | Some x \<Rightarrow> x)"

definition apply_tuning :: "sampler_queue_config \<Rightarrow> sampler_queue_tuning \<Rightarrow> sampler_queue_config" where
  "apply_tuning c t = c\<lparr>
     fixed_batch_size := apply_option (fixed_batch_size c) (map_option Some (tune_fixed_batch_size t)),
     target_batch_eval_ms := apply_option (target_batch_eval_ms c) (tune_target_batch_eval_ms t),
     max_batch_size := apply_option (max_batch_size c) (tune_max_batch_size t),
     max_generation_size := apply_option (max_generation_size c) (tune_max_generation_size t)\<rparr>"

subsection \<open>Training batch sizing\<close>

record training_batch_sizing =
  previous_remaining :: "usize option"
  sizing_evaluators :: usize
  sizing_cap :: "usize option"

definition training_sizing_default :: training_batch_sizing where
  "training_sizing_default = \<lparr>previous_remaining = None, sizing_evaluators = 0, sizing_cap = None\<rparr>"

definition sizing_batch_size ::
  "training_batch_sizing \<Rightarrow> usize \<Rightarrow> usize option \<Rightarrow> usize \<Rightarrow> usize \<times> training_batch_sizing" where
  "sizing_batch_size t target remaining evaluators =
     (case remaining of
        Some r \<Rightarrow>
          if r > 0 \<and> evaluators > 0 then
            (let renew = (case previous_remaining t of None \<Rightarrow> True | Some p \<Rightarrow> r > p)
                         \<or> sizing_evaluators t \<noteq> evaluators;
                 cap' = (if renew
                   then Some (max (div_ceil r (saturating_mul_usize evaluators 4)) min_batch_size)
                   else sizing_cap t)
             in (min target (case cap' of None \<Rightarrow> target | Some c \<Rightarrow> c),
                 \<lparr>previous_remaining = Some r, sizing_evaluators = evaluators, sizing_cap = cap'\<rparr>))
          else (target, t\<lparr>previous_remaining := None, sizing_cap := None\<rparr>)
      | None \<Rightarrow> (target, t\<lparr>previous_remaining := None, sizing_cap := None\<rparr>))"

subsection \<open>State\<close>

record 'r evaluation_batch =
  eb_stratification :: "stratification_plan option"
  eb_samples :: "'r latent_batch"
  eb_accumulator :: accumulator_config

record 'x completed_batch =
  cb_id :: i64
  cb_task :: i64
  cb_training :: bool
  cb_size :: usize
  cb_result :: 'x

record queue_checkpoint =
  cp_last_completed :: "i64 option"
  cp_last_produced :: "i64 option"
  cp_batch_size :: usize

record insert_metrics =
  serialize_ms :: f64
  payload_bytes :: usize
  insert_batches_exec_ms :: f64
  insert_inputs_exec_ms :: f64
  commit_ms :: f64
  end_to_end_ms :: f64

datatype 'a task = Running | Done 'a

record 'r insert_task =
  first_batch_id :: i64
  batch_count :: usize
  local_pending_at_start :: usize
  db_pending_at_start :: "i64 option"
  insert_ids :: "i64 list"
  insert_payload :: "'r evaluation_batch list"
  insert_training :: bool
  insert_handle :: "(store_error + insert_metrics) task"

record 'x fetch_task =
  fetch_limit :: usize
  fetch_after :: "i64 option"
  fetch_before :: i64
  fetch_handle :: "(store_error + ('x completed_batch list \<times> f64)) task"

record cleanup_task =
  cleanup_up_to :: i64
  cleanup_handle :: "(store_error + nat) task"

record queue_blocker =
  blocker_batch :: i64
  blocker_status :: string
  blocker_node :: "string option"
  blocker_claimed_at :: "nat option"

datatype queue_metric =
    FetchCompletedMs | FetchCompletedBatches | FetchPrefetchFillRatio | InsertBundleMs
  | InsertBundleBatches | InsertBundleMsPerBatch | InsertSerializeMs | InsertPayloadBytes
  | InsertPayloadBytesPerBatch | InsertDbBatchesMs | InsertDbInputsMs | InsertCommitMs
  | InsertLocalPendingAtStart | InsertDbPendingAtStart

record ('r, 'x) sampler_queue =
  sq_run_id :: i32
  sq_task_id :: i64
  sq_config :: sampler_queue_config
  sq_checkpoint :: queue_checkpoint
  pending_insert :: "('r evaluation_batch \<times> bool) list"
  ready_processed :: "'x completed_batch list"
  pending_insert_tasks :: "'r insert_task list"
  insert_error :: "store_error option"
  pending_processed_fetch :: "'x fetch_task option"
  pending_completed_cleanup :: "cleanup_task option"
  cached_db_queue_counts :: "batch_queue_counts option"
  cached_tick_queue_counts :: "batch_queue_counts option"
  cached_active_evaluator_count :: "usize option"
  sq_blocker :: "queue_blocker option"
  last_reclaim_at :: nat
  last_completed_cleanup_at :: nat
  tune_cooldown_remaining :: u32
  eval_ms_per_sample :: rolling_metric
  training_sizing :: training_batch_sizing
  sq_metrics :: "queue_metric \<Rightarrow> window_metric"

subsection \<open>Construction and configuration\<close>

definition effective_max_batch_size :: "sampler_queue_config \<Rightarrow> usize" where
  "effective_max_batch_size c = max (max_batch_size c) min_batch_size"

definition configured_size :: "sampler_queue_config \<Rightarrow> usize \<Rightarrow> usize" where
  "configured_size c current =
     clamp_usize min_batch_size (effective_max_batch_size c)
       (case fixed_batch_size c of None \<Rightarrow> current | Some f \<Rightarrow> f)"

definition queue_new ::
  "i32 \<Rightarrow> i64 \<Rightarrow> sampler_queue_config \<Rightarrow> queue_checkpoint \<Rightarrow> nat \<Rightarrow> ('r, 'x) sampler_queue" where
  "queue_new run_id task_id config checkpoint now =
     \<lparr>sq_run_id = run_id, sq_task_id = task_id, sq_config = config,
      sq_checkpoint = checkpoint\<lparr>cp_batch_size := configured_size config (cp_batch_size checkpoint)\<rparr>,
      pending_insert = [], ready_processed = [], pending_insert_tasks = [], insert_error = None,
      pending_processed_fetch = None, pending_completed_cleanup = None,
      cached_db_queue_counts = None, cached_tick_queue_counts = None,
      cached_active_evaluator_count = None, sq_blocker = None,
      last_reclaim_at = (if now \<ge> reclaim_interval then now - reclaim_interval else now),
      last_completed_cleanup_at =
        (if now \<ge> completed_cleanup_interval then now - completed_cleanup_interval else now),
      tune_cooldown_remaining = 0, eval_ms_per_sample = rolling_default,
      training_sizing = training_sizing_default, sq_metrics = (\<lambda>_. window_default)\<rparr>"

definition apply_config :: "('r, 'x) sampler_queue \<Rightarrow> sampler_queue_config \<Rightarrow> ('r, 'x) sampler_queue" where
  "apply_config q config = q\<lparr>sq_config := config,
     sq_checkpoint := (sq_checkpoint q)\<lparr>cp_batch_size := configured_size config (cp_batch_size (sq_checkpoint q))\<rparr>,
     tune_cooldown_remaining := 0\<rparr>"

subsection \<open>Adaptive batch size\<close>

definition set_batch_size :: "usize \<Rightarrow> ('r, 'x) sampler_queue \<Rightarrow> ('r, 'x) sampler_queue" where
  "set_batch_size n q = q\<lparr>sq_checkpoint := (sq_checkpoint q)\<lparr>cp_batch_size := n\<rparr>\<rparr>"

definition tune_batch_size :: "('r, 'x) sampler_queue \<Rightarrow> ('r, 'x) sampler_queue" where
  "tune_batch_size q =
     (let c = sq_config q; current = cp_batch_size (sq_checkpoint q) in
      case fixed_batch_size c of
        Some n \<Rightarrow> set_batch_size (clamp_usize min_batch_size (effective_max_batch_size c) n) q
      | None \<Rightarrow>
          (case rm_mean (eval_ms_per_sample q) of
             None \<Rightarrow> q
           | Some ms \<Rightarrow>
               if tune_cooldown_remaining q > 0
               then q\<lparr>tune_cooldown_remaining := tune_cooldown_remaining q - 1\<rparr>
               else if f64_le (target_batch_eval_ms c) f64_zero \<or> \<not> f64_is_finite (target_batch_eval_ms c) then q
               else
                 let batch_ms = f64_mul ms (f64_of_nat current) in
                 if f64_le batch_ms f64_zero \<or> \<not> f64_is_finite batch_ms then q
                 else
                   let ratio = f64_div (target_batch_eval_ms c) batch_ms in
                   if \<not> f64_is_finite ratio \<or> f64_le ratio f64_zero then q
                   else if f64_le (f64_sub f64_one batch_size_deadband_ratio) ratio
                         \<and> f64_le ratio (f64_add f64_one batch_size_deadband_ratio) then q
                   else
                     let n = clamp_usize min_batch_size (effective_max_batch_size c)
                               (f64_as_usize (f64_round_int (f64_mul (f64_of_nat current) ratio)))
                     in if n = current then q
                        else (set_batch_size n q)\<lparr>tune_cooldown_remaining := batch_size_cooldown_ticks\<rparr>))"

definition observe_completed_eval_batch ::
  "(f64 \<Rightarrow> f64 \<Rightarrow> f64) \<Rightarrow> ('r, 'x) sampler_queue \<Rightarrow> usize \<Rightarrow> f64 \<Rightarrow> ('r, 'x) sampler_queue" where
  "observe_completed_eval_batch powf q n total_ms =
     (if n = 0 \<or> \<not> f64_is_finite total_ms \<or> f64_le total_ms f64_zero then q
      else tune_batch_size (q\<lparr>eval_ms_per_sample := observe_batch powf (eval_ms_per_sample q) total_ms n\<rparr>))"

definition production_batch_size ::
  "('r, 'x) sampler_queue \<Rightarrow> usize option \<Rightarrow> usize \<times> ('r, 'x) sampler_queue" where
  "production_batch_size q remaining =
     (let (n, t) = sizing_batch_size (training_sizing q) (cp_batch_size (sq_checkpoint q)) remaining
                     (case cached_active_evaluator_count q of None \<Rightarrow> 0 | Some e \<Rightarrow> e)
      in (n, q\<lparr>training_sizing := t\<rparr>))"

subsection \<open>Counts\<close>

definition local_unpersisted_batches :: "('r, 'x) sampler_queue \<Rightarrow> usize" where
  "local_unpersisted_batches q = length (pending_insert q) + sum_list (map batch_count (pending_insert_tasks q))"

definition queue_counts_with_local_buffer ::
  "('r, 'x) sampler_queue \<Rightarrow> batch_queue_counts \<Rightarrow> batch_queue_counts" where
  "queue_counts_with_local_buffer q c =
     c\<lparr>pending_count := saturating_add_i64 (pending_count c) (usize_as_i64 (local_unpersisted_batches q))\<rparr>"

text \<open>\<open>queue_counts()\<close>, with the counts the store returned.\<close>

definition queue_counts :: "('r, 'x) sampler_queue \<Rightarrow> batch_queue_counts \<Rightarrow> batch_queue_counts \<times> ('r, 'x) sampler_queue" where
  "queue_counts q db = (queue_counts_with_local_buffer q db, q\<lparr>cached_db_queue_counts := Some db\<rparr>)"

text \<open>\<open>active\<close> is the node count the store returned, an \<open>i64\<close>.\<close>

definition needs_generation ::
  "('r, 'x) sampler_queue \<Rightarrow> i64 \<Rightarrow> batch_queue_counts \<Rightarrow> bool \<times> ('r, 'x) sampler_queue" where
  "needs_generation q active counts =
     (let evaluators = nat (max active 0) in
      (evaluators > 0 \<and> nat (max (pending_count counts) 0) < evaluators,
       q\<lparr>cached_active_evaluator_count := Some evaluators, cached_tick_queue_counts := Some counts\<rparr>))"

definition diagnostics_snapshot :: "('r, 'x) sampler_queue \<Rightarrow> (batch_queue_counts \<times> usize option) option" where
  "diagnostics_snapshot q =
     map_option (\<lambda>c. (c, cached_active_evaluator_count q)) (cached_tick_queue_counts q)"

definition observe_metric ::
  "queue_metric \<Rightarrow> f64 \<Rightarrow> usize \<Rightarrow> ('r, 'x) sampler_queue \<Rightarrow> ('r, 'x) sampler_queue" where
  "observe_metric k v w q = q\<lparr>sq_metrics := (sq_metrics q)(k := observe_weighted (sq_metrics q k) v w)\<rparr>"

definition take_metrics_snapshot ::
  "(f64 \<Rightarrow> f64) \<Rightarrow> ('r, 'x) sampler_queue \<Rightarrow> (queue_metric \<Rightarrow> metric_snapshot) \<times> ('r, 'x) sampler_queue" where
  "take_metrics_snapshot sqrt_f q =
     ((\<lambda>k. window_snapshot sqrt_f (sq_metrics q k)), q\<lparr>sq_metrics := (\<lambda>_. window_default)\<rparr>)"

subsection \<open>Inserting\<close>

text \<open>
  One bundle: the longest run of batches with the same feedback requirement at the front,
  within the bundle size. The loop of the pump adds one task per round, so it runs at
  most as many rounds as there are free slots.
\<close>

definition bundle_count :: "('r, 'x) sampler_queue \<Rightarrow> usize" where
  "bundle_count q =
     (case pending_insert q of [] \<Rightarrow> 0
      | (_, feedback) # _ \<Rightarrow>
          length (takeWhile (\<lambda>(_, f). f = feedback)
            (take (max (max_insert_bundle_size (sq_config q)) 1) (pending_insert q))))"

definition spawn_insert :: "i64 list \<Rightarrow> ('r, 'x) sampler_queue \<Rightarrow> ('r, 'x) sampler_queue" where
  "spawn_insert ids q =
     (let n = bundle_count q in
      q\<lparr>pending_insert := drop n (pending_insert q),
        sq_checkpoint := (sq_checkpoint q)\<lparr>cp_last_produced := Some (last ids)\<rparr>,
        pending_insert_tasks := pending_insert_tasks q @
          [\<lparr>first_batch_id = hd ids, batch_count = n,
            local_pending_at_start = length (pending_insert q),
            db_pending_at_start = map_option (\<lambda>c. max (pending_count c) 0) (cached_db_queue_counts q),
            insert_ids = ids, insert_payload = map fst (take n (pending_insert q)),
            insert_training = snd (hd (pending_insert q)), insert_handle = Running\<rparr>]\<rparr>)"

fun insert_pump_loop ::
  "('g \<Rightarrow> nat \<Rightarrow> i64 list \<times> 'g) \<Rightarrow> nat \<Rightarrow> ('r, 'x) sampler_queue \<Rightarrow> 'g \<Rightarrow> ('r, 'x) sampler_queue \<times> 'g" where
  "insert_pump_loop fresh 0 q g = (q, g)"
| "insert_pump_loop fresh (Suc slots) q g =
     (if pending_insert q = [] then (q, g)
      else let (ids, g') = fresh g (bundle_count q)
           in insert_pump_loop fresh slots (spawn_insert ids q) g')"

definition ensure_insert_pump ::
  "('g \<Rightarrow> nat \<Rightarrow> i64 list \<times> 'g) \<Rightarrow> ('r, 'x) sampler_queue \<Rightarrow> 'g \<Rightarrow> ('r, 'x) sampler_queue \<times> 'g" where
  "ensure_insert_pump fresh q g =
     insert_pump_loop fresh
       (max (max_concurrent_insert_tasks (sq_config q)) 1 - length (pending_insert_tasks q)) q g"

definition ingest ::
  "('g \<Rightarrow> nat \<Rightarrow> i64 list \<times> 'g) \<Rightarrow> ('r, 'x) sampler_queue \<Rightarrow> 'g \<Rightarrow> 'r evaluation_batch list \<Rightarrow> bool
    \<Rightarrow> ('r, 'x) sampler_queue \<times> 'g" where
  "ingest fresh q g batches requires_feedback =
     ensure_insert_pump fresh
       (q\<lparr>training_sizing := (training_sizing q)\<lparr>previous_remaining :=
            map_option (\<lambda>r. r - sum_list (map (\<lambda>b. nr_samples (eb_samples b)) batches))
              (previous_remaining (training_sizing q))\<rparr>,
          pending_insert := pending_insert q @ map (\<lambda>b. (b, requires_feedback)) batches\<rparr>) g"

text \<open>
  \<open>finish_background_maintenance\<close>: the fetch is aborted, the cleanup is awaited; \<open>settle\<close>
  gives the outcome a running cleanup will have and \<open>now\<close> the instant it is joined.
\<close>

definition consume_completed_cleanup_task ::
  "('r, 'x) sampler_queue \<Rightarrow> nat \<Rightarrow> store_error + nat \<Rightarrow> store_error + nat \<times> ('r, 'x) sampler_queue" where
  "consume_completed_cleanup_task q now outcome =
     and_then outcome (\<lambda>d. Inr (d, q\<lparr>last_completed_cleanup_at := now\<rparr>))"

definition finish_background_maintenance ::
  "('r, 'x) sampler_queue \<Rightarrow> nat \<Rightarrow> (store_error + nat) \<Rightarrow> (store_error + unit) \<times> ('r, 'x) sampler_queue" where
  "finish_background_maintenance q now settle =
     (let q1 = q\<lparr>pending_processed_fetch := None\<rparr> in
      case pending_completed_cleanup q of
        None \<Rightarrow> (Inr (), q1)
      | Some c \<Rightarrow>
          (let q2 = q1\<lparr>pending_completed_cleanup := None\<rparr>;
               outcome = (case cleanup_handle c of Done r \<Rightarrow> r | Running \<Rightarrow> settle)
           in case consume_completed_cleanup_task q2 now outcome of
                Inl e \<Rightarrow> (Inl e, q2) | Inr (_, q3) \<Rightarrow> (Inr (), q3)))"

definition observe_insert :: "'r insert_task \<Rightarrow> insert_metrics \<Rightarrow> ('r, 'x) sampler_queue \<Rightarrow> ('r, 'x) sampler_queue" where
  "observe_insert task m q =
     (let n = batch_count task;
          q1 = observe_metric InsertLocalPendingAtStart (f64_of_nat (local_pending_at_start task)) 1 q;
          q2 = (case db_pending_at_start task of None \<Rightarrow> q1
                | Some d \<Rightarrow> observe_metric InsertDbPendingAtStart (f64_of_rat (of_int d)) 1 q1);
          q3 = observe_metric InsertBundleMs (end_to_end_ms m) 1 q2;
          q4 = observe_metric InsertBundleBatches (f64_of_nat n) 1 q3;
          q5 = (if n > 0 then
                  observe_metric InsertPayloadBytesPerBatch
                    (f64_div (f64_of_nat (payload_bytes m)) (f64_of_nat n)) n
                    (observe_metric InsertBundleMsPerBatch (f64_div (end_to_end_ms m) (f64_of_nat n)) n q4)
                else q4)
      in observe_metric InsertCommitMs (commit_ms m) 1
           (observe_metric InsertDbInputsMs (insert_inputs_exec_ms m) 1
             (observe_metric InsertDbBatchesMs (insert_batches_exec_ms m) 1
               (observe_metric InsertPayloadBytes (f64_of_nat (payload_bytes m)) 1
                 (observe_metric InsertSerializeMs (serialize_ms m) 1 q5)))))"

text \<open>
  An insert whose outcome is a database error may have committed: the error becomes a
  request to restart from the checkpoint, it is kept, every other insert is awaited and the
  background tasks are settled. The queue is then of no further use, every operation fails.
\<close>

definition consume_insert_task ::
  "('r, 'x) sampler_queue \<Rightarrow> nat \<Rightarrow> store_error + nat \<Rightarrow> store_error + unit \<Rightarrow> 'r insert_task
    \<Rightarrow> store_error + insert_metrics \<Rightarrow> (store_error + unit) \<times> ('r, 'x) sampler_queue" where
  "consume_insert_task q now settle notify task outcome =
     (case outcome of
        Inl e \<Rightarrow>
          (let e' = (if is_database_error e then RetryActivation ''uncertain sampler insert'' else e)
           in (Inl e', snd (finish_background_maintenance
                 (q\<lparr>insert_error := Some e', pending_insert_tasks := []\<rparr>) now settle)))
      | Inr m \<Rightarrow>
          (let q' = observe_insert task m q in
           if pending_insert q = [] \<and> pending_insert_tasks q = [] then (notify, q') else (Inr (), q')))"

definition swap_remove :: "nat \<Rightarrow> 'a list \<Rightarrow> 'a list" where
  "swap_remove i xs = butlast (xs[i := last xs])"

text \<open>Every round of the loop removes a task or advances the index: \<open>n\<close> is their distance.\<close>

fun drain_insert_loop ::
  "nat \<Rightarrow> store_error + nat \<Rightarrow> store_error + unit \<Rightarrow> nat \<Rightarrow> nat \<Rightarrow> ('r, 'x) sampler_queue
    \<Rightarrow> (store_error + unit) \<times> ('r, 'x) sampler_queue" where
  "drain_insert_loop now settle notify 0 i q = (Inr (), q)"
| "drain_insert_loop now settle notify (Suc n) i q =
     (let task = pending_insert_tasks q ! i in
      case insert_handle task of
        Running \<Rightarrow> drain_insert_loop now settle notify n (Suc i) q
      | Done outcome \<Rightarrow>
          (case consume_insert_task (q\<lparr>pending_insert_tasks := swap_remove i (pending_insert_tasks q)\<rparr>)
                  now settle notify task outcome of
             (Inl e, q') \<Rightarrow> (Inl e, q')
           | (Inr _, q') \<Rightarrow> drain_insert_loop now settle notify n i q'))"

definition drain_finished_insert ::
  "('r, 'x) sampler_queue \<Rightarrow> nat \<Rightarrow> store_error + nat \<Rightarrow> store_error + unit
    \<Rightarrow> (store_error + unit) \<times> ('r, 'x) sampler_queue" where
  "drain_finished_insert q now settle notify =
     (case insert_error q of
        Some e \<Rightarrow> (Inl e, q)
      | None \<Rightarrow> drain_insert_loop now settle notify (length (pending_insert_tasks q)) 0 q)"

subsection \<open>Fetching completed batches\<close>

definition ensure_processed_prefetch ::
  "('g \<Rightarrow> nat \<Rightarrow> i64 list \<times> 'g) \<Rightarrow> ('r, 'x) sampler_queue \<Rightarrow> 'g \<Rightarrow> ('r, 'x) sampler_queue \<times> 'g" where
  "ensure_processed_prefetch fresh q g =
     (if ready_processed q \<noteq> [] \<or> pending_processed_fetch q \<noteq> None then (q, g)
      else
        let (before, g') =
              (case map first_batch_id (pending_insert_tasks q) of
                 [] \<Rightarrow> (let (ids, g1) = fresh g 1 in (hd ids, g1))
               | i # is \<Rightarrow> (fold min is i, g))
        in (q\<lparr>pending_processed_fetch := Some \<lparr>
                fetch_limit = max (completed_batch_fetch_limit (sq_config q)) 1,
                fetch_after = cp_last_completed (sq_checkpoint q),
                fetch_before = before, fetch_handle = Running\<rparr>\<rparr>, g'))"

text \<open>What the spawned fetch does with the rows the store returned.\<close>

definition fetched_below :: "'x fetch_task \<Rightarrow> 'x completed_batch list \<Rightarrow> 'x completed_batch list" where
  "fetched_below f bs = takeWhile (\<lambda>b. cb_id b < fetch_before f) bs"

definition consume_processed_fetch_task ::
  "('r, 'x) sampler_queue \<Rightarrow> store_error + ('x completed_batch list \<times> f64) \<Rightarrow> store_error + ('r, 'x) sampler_queue" where
  "consume_processed_fetch_task q outcome =
     and_then outcome (\<lambda>(completed, duration_ms).
       let n = f64_of_nat (length completed);
           limit = f64_of_nat (max (completed_batch_fetch_limit (sq_config q)) 1);
           q1 = observe_metric FetchCompletedMs duration_ms 1 q;
           q2 = observe_metric FetchCompletedBatches n 1 q1;
           q3 = observe_metric FetchPrefetchFillRatio (f64_clamp f64_zero f64_one (f64_div n limit)) 1 q2
       in Inr (q3\<lparr>ready_processed := ready_processed q3 @ completed\<rparr>))"

definition drain_finished_processed_fetch :: "('r, 'x) sampler_queue \<Rightarrow> store_error + ('r, 'x) sampler_queue" where
  "drain_finished_processed_fetch q =
     (case pending_processed_fetch q of
        None \<Rightarrow> Inr q
      | Some f \<Rightarrow>
          (case fetch_handle f of
             Running \<Rightarrow> Inr q
           | Done outcome \<Rightarrow> consume_processed_fetch_task (q\<lparr>pending_processed_fetch := None\<rparr>) outcome))"

definition take_ready_processed :: "('r, 'x) sampler_queue \<Rightarrow> 'x completed_batch list \<times> ('r, 'x) sampler_queue" where
  "take_ready_processed q = (ready_processed q, q\<lparr>ready_processed := []\<rparr>)"

definition get_processed_ready ::
  "('g \<Rightarrow> nat \<Rightarrow> i64 list \<times> 'g) \<Rightarrow> ('r, 'x) sampler_queue \<Rightarrow> 'g \<Rightarrow> nat \<Rightarrow> store_error + nat \<Rightarrow> store_error + unit
    \<Rightarrow> store_error + ('x completed_batch list \<times> ('r, 'x) sampler_queue \<times> 'g)" where
  "get_processed_ready fresh q g now settle notify =
     (case drain_finished_insert q now settle notify of
        (Inl e, _) \<Rightarrow> Inl e
      | (Inr _, q1) \<Rightarrow>
          (let (q2, g2) = ensure_insert_pump fresh q1 g in
           and_then (drain_finished_processed_fetch q2) (\<lambda>q3.
             let (bs, q4) = take_ready_processed q3 in Inr (bs, q4, g2))))"

definition get_processed ::
  "('g \<Rightarrow> nat \<Rightarrow> i64 list \<times> 'g) \<Rightarrow> ('r, 'x) sampler_queue \<Rightarrow> 'g \<Rightarrow> nat \<Rightarrow> store_error + nat \<Rightarrow> store_error + unit
    \<Rightarrow> store_error + ('x completed_batch list \<times> ('r, 'x) sampler_queue \<times> 'g)" where
  "get_processed fresh q g now settle notify =
     (case drain_finished_insert q now settle notify of
        (Inl e, _) \<Rightarrow> Inl e
      | (Inr _, q1) \<Rightarrow>
          (let (q2, g2) = ensure_insert_pump fresh q1 g in
           and_then (drain_finished_processed_fetch q2) (\<lambda>q3.
             let (q4, g4) = ensure_processed_prefetch fresh q3 g2;
                 (bs, q5) = take_ready_processed q4
             in Inr (bs, q5, g4))))"

subsection \<open>Maintenance\<close>

definition ensure_completed_cleanup_if_due :: "('r, 'x) sampler_queue \<Rightarrow> nat \<Rightarrow> ('r, 'x) sampler_queue" where
  "ensure_completed_cleanup_if_due q now =
     (if pending_completed_cleanup q \<noteq> None then q
      else case cp_last_completed (sq_checkpoint q) of
        None \<Rightarrow> q
      | Some up_to \<Rightarrow>
          if now - last_completed_cleanup_at q < completed_cleanup_interval then q
          else q\<lparr>pending_completed_cleanup := Some \<lparr>cleanup_up_to = up_to, cleanup_handle = Running\<rparr>\<rparr>)"

definition mark_processed ::
  "('r, 'x) sampler_queue \<Rightarrow> nat \<Rightarrow> 'x completed_batch list \<Rightarrow> ('r, 'x) sampler_queue" where
  "mark_processed q now processed =
     ensure_completed_cleanup_if_due
       (if processed = [] then q
        else q\<lparr>sq_checkpoint := (sq_checkpoint q)\<lparr>cp_last_completed := Some (cb_id (last processed))\<rparr>\<rparr>) now"

definition drain_finished_completed_cleanup ::
  "('r, 'x) sampler_queue \<Rightarrow> nat \<Rightarrow> store_error + nat option \<times> ('r, 'x) sampler_queue" where
  "drain_finished_completed_cleanup q now =
     (case pending_completed_cleanup q of
        None \<Rightarrow> Inr (None, q)
      | Some c \<Rightarrow>
          (case cleanup_handle c of
             Running \<Rightarrow> Inr (None, q)
           | Done outcome \<Rightarrow>
               and_then (consume_completed_cleanup_task (q\<lparr>pending_completed_cleanup := None\<rparr>) now outcome)
                 (\<lambda>(d, q'). Inr (Some d, q'))))"

text \<open>\<open>reclaimed\<close> and \<open>blocker\<close> are what the store returns for the two statements.\<close>

definition reclaim_abandoned_batches_if_due ::
  "('r, 'x) sampler_queue \<Rightarrow> nat \<Rightarrow> store_error + nat \<Rightarrow> store_error + queue_blocker option
    \<Rightarrow> store_error + bool \<times> ('r, 'x) sampler_queue" where
  "reclaim_abandoned_batches_if_due q now reclaimed blocker =
     (if now - last_reclaim_at q < reclaim_interval then Inr (False, q)
      else and_then reclaimed (\<lambda>_. and_then blocker (\<lambda>b.
        Inr (True, q\<lparr>sq_blocker := b, last_reclaim_at := now\<rparr>))))"

definition queue_tick ::
  "('g \<Rightarrow> nat \<Rightarrow> i64 list \<times> 'g) \<Rightarrow> ('r, 'x) sampler_queue \<Rightarrow> 'g \<Rightarrow> nat \<Rightarrow> store_error + nat \<Rightarrow> store_error + unit
    \<Rightarrow> store_error + nat \<Rightarrow> store_error + queue_blocker option \<Rightarrow> store_error + batch_queue_counts
    \<Rightarrow> store_error + ('x completed_batch list \<times> batch_queue_counts \<times> ('r, 'x) sampler_queue \<times> 'g)" where
  "queue_tick fresh q g now settle notify reclaimed blocker db_counts =
     and_then (get_processed fresh q g now settle notify) (\<lambda>(completed, q1, g1).
     and_then (drain_finished_completed_cleanup q1 now) (\<lambda>(_, q2).
     and_then (reclaim_abandoned_batches_if_due (ensure_completed_cleanup_if_due q2 now) now reclaimed blocker) (\<lambda>(_, q4).
     and_then db_counts (\<lambda>db.
       let (counts, q5) = queue_counts q4 db
       in Inr (completed, counts, q5\<lparr>cached_tick_queue_counts := Some counts\<rparr>, g1)))))"

text \<open>The synchronous cleanup; \<open>deleted\<close> is what the store returns for the statement.\<close>

definition cleanup_completed_batches ::
  "('r, 'x) sampler_queue \<Rightarrow> nat \<Rightarrow> store_error + nat \<Rightarrow> store_error + nat
    \<Rightarrow> store_error + nat option \<times> ('r, 'x) sampler_queue" where
  "cleanup_completed_batches q now settle deleted =
     and_then
       (case pending_completed_cleanup q of
          None \<Rightarrow> Inr q
        | Some c \<Rightarrow>
            map_sum id snd (consume_completed_cleanup_task (q\<lparr>pending_completed_cleanup := None\<rparr>) now
              (case cleanup_handle c of Done r \<Rightarrow> r | Running \<Rightarrow> settle)))
       (\<lambda>q1. if cp_last_completed (sq_checkpoint q1) = None then Inr (None, q1)
             else and_then deleted (\<lambda>d. Inr (Some d, q1\<lparr>last_completed_cleanup_at := now\<rparr>)))"

record runtime_queue_metrics =
  rt_blocker :: "queue_blocker option"
  db_pending_batches :: "i64 option"
  db_claimed_batches :: "i64 option"
  db_completed_batches :: "i64 option"
  local_pending_batches :: usize
  local_inflight_insert_tasks :: usize
  local_inflight_insert_batches :: usize
  local_ready_processed_batches :: usize

definition runtime_metrics :: "('r, 'x) sampler_queue \<Rightarrow> runtime_queue_metrics" where
  "runtime_metrics q =
     \<lparr>rt_blocker = sq_blocker q,
      db_pending_batches = map_option pending_count (cached_db_queue_counts q),
      db_claimed_batches = map_option claimed_count (cached_db_queue_counts q),
      db_completed_batches = map_option completed_count (cached_db_queue_counts q),
      local_pending_batches = length (pending_insert q),
      local_inflight_insert_tasks = length (pending_insert_tasks q),
      local_inflight_insert_batches = sum_list (map batch_count (pending_insert_tasks q)),
      local_ready_processed_batches = length (ready_processed q)\<rparr>"

text \<open>
  \<open>flush\<close>: drain, pump and await the first task until nothing is left locally. \<open>outcome\<close>
  gives what an awaited task returns. Each round completes a task, so as many rounds as
  there are local batches suffice.
\<close>

fun flush_loop ::
  "('g \<Rightarrow> nat \<Rightarrow> i64 list \<times> 'g) \<Rightarrow> ('r insert_task \<Rightarrow> store_error + insert_metrics) \<Rightarrow> nat \<Rightarrow> store_error + nat
    \<Rightarrow> store_error + unit \<Rightarrow> nat \<Rightarrow> ('r, 'x) sampler_queue \<Rightarrow> 'g \<Rightarrow> (store_error + ('r, 'x) sampler_queue \<times> 'g) option" where
  "flush_loop fresh outcome now settle notify 0 q g = None"
| "flush_loop fresh outcome now settle notify (Suc rounds) q g =
     (case drain_finished_insert q now settle notify of
        (Inl e, _) \<Rightarrow> Some (Inl e)
      | (Inr _, q1) \<Rightarrow>
          if pending_insert_tasks q1 = [] \<and> pending_insert q1 = [] then Some (Inr (q1, g))
          else
            let (q2, g2) = ensure_insert_pump fresh q1 g in
            if pending_insert_tasks q2 = [] then Some (Inr (q2, g2))
            else
              let task = hd (pending_insert_tasks q2) in
              (case consume_insert_task (q2\<lparr>pending_insert_tasks := swap_remove 0 (pending_insert_tasks q2)\<rparr>)
                      now settle notify task
                      (case insert_handle task of Done r \<Rightarrow> r | Running \<Rightarrow> outcome task) of
                 (Inl e, _) \<Rightarrow> Some (Inl e)
               | (Inr _, q3) \<Rightarrow> flush_loop fresh outcome now settle notify rounds q3 g2))"

end
