(* ===== verification/Sampler_Queue_Laws.thy ===== *)
theory Sampler_Queue_Laws
  imports Sampler_Queue Batch_Ids
begin

section \<open>Laws of the sampler's queue\<close>

text \<open>
  Bounds of the adaptive batch size, the sizing of training windows, the insert pump
  under the interface of an identifier source, and termination of \<open>flush\<close>.
\<close>

subsection \<open>Batch size\<close>

definition size_ok :: "('r, 'x) sampler_queue \<Rightarrow> bool" where
  "size_ok q \<longleftrightarrow> min_batch_size \<le> cp_batch_size (sq_checkpoint q) \<and>
     cp_batch_size (sq_checkpoint q) \<le> effective_max_batch_size (sq_config q)"

lemma min_le_effective: "min_batch_size \<le> effective_max_batch_size c"
  by (simp add: effective_max_batch_size_def)

lemma configured_size_bounds:
  "min_batch_size \<le> configured_size c n \<and> configured_size c n \<le> effective_max_batch_size c"
  unfolding configured_size_def by (rule clamp_usize_bounds [OF min_le_effective])

lemma tune_size_ok:
  assumes "size_ok q"
  shows "size_ok (tune_batch_size q)"
proof -
  have set: "size_ok (set_batch_size (clamp_usize min_batch_size (effective_max_batch_size (sq_config q)) n) q)" for n
    using clamp_usize_bounds [OF min_le_effective] by (simp add: size_ok_def set_batch_size_def)
  have cool: "size_ok (q'\<lparr>tune_cooldown_remaining := k\<rparr>) = size_ok q'" for q' :: "('a, 'b) sampler_queue" and k
    by (simp add: size_ok_def)
  show ?thesis
    unfolding tune_batch_size_def Let_def
    using assms set by (auto simp: cool split: option.splits)
qed

lemma observe_size_ok: "size_ok q \<Longrightarrow> size_ok (observe_completed_eval_batch powf q n ms)"
proof -
  assume "size_ok q"
  then have "size_ok (q\<lparr>eval_ms_per_sample := e\<rparr>)" for e by (simp add: size_ok_def)
  then show ?thesis using \<open>size_ok q\<close> by (simp add: observe_completed_eval_batch_def tune_size_ok)
qed

lemma observe_all_size_ok:
  "size_ok q \<Longrightarrow> size_ok (foldl (\<lambda>q (n, ms). observe_completed_eval_batch powf q n ms) q obs)"
  by (induction obs arbitrary: q) (auto simp: observe_size_ok)

text \<open>C36. The batch size stays between 16 and the configured maximum (or 16, if that is larger) after
  construction from any checkpoint, any reconfiguration and any sequence of timing observations.\<close>

theorem batch_size_stays_in_bounds:
  fixes q0 :: "('r, 'x) sampler_queue"
  assumes "q0 = queue_new run_id task_id c cp now \<or> q0 = apply_config q c"
    and "q' = foldl (\<lambda>q (n, ms). observe_completed_eval_batch powf q n ms) q0 obs"
  shows "min_batch_size \<le> cp_batch_size (sq_checkpoint q') \<and>
    cp_batch_size (sq_checkpoint q') \<le> effective_max_batch_size (sq_config q')"
proof -
  have "size_ok q0"
    using assms(1) configured_size_bounds by (auto simp: size_ok_def queue_new_def apply_config_def)
  then have "size_ok q'" unfolding assms(2) by (rule observe_all_size_ok)
  then show ?thesis by (simp add: size_ok_def)
qed

definition demo_queue_config :: sampler_queue_config where
  "demo_queue_config = \<lparr>target_batch_eval_ms = F_Num False 500, max_batch_size = 4096,
     max_generation_size = 262144, fixed_batch_size = None, max_batches_per_tick = 16,
     max_insert_bundle_size = 1, max_concurrent_insert_tasks = 2, completed_batch_fetch_limit = 16,
     max_batch_retries = 3\<rparr>"

definition demo_checkpoint :: queue_checkpoint where
  "demo_checkpoint = \<lparr>cp_last_completed = None, cp_last_produced = None, cp_batch_size = 128\<rparr>"

lemma batch_size_stays_in_bounds_witness:
  "16 \<le> cp_batch_size (sq_checkpoint (foldl (\<lambda>q (n, ms). observe_completed_eval_batch (\<lambda>a b. a) q n ms)
     (queue_new 1 1 demo_queue_config demo_checkpoint 0 :: (nat, nat) sampler_queue) [(10, F_Num False 7)]))"
  using batch_size_stays_in_bounds [where 'r = nat and 'x = nat, OF disjI1 [OF refl] refl,
      where powf = "\<lambda>a b. a" and run_id = 1 and task_id = 1 and c = demo_queue_config and cp = demo_checkpoint
        and now = 0 and obs = "[(10, F_Num False 7)]"]
  by (simp add: min_batch_size_def del: foldl.simps)

subsection \<open>Training windows\<close>

text \<open>Within a training window the batch cap is fixed when the window opens and never shrinks as the
  remaining samples run out: it is at least 16, and four rounds of capped batches on every
  evaluator cover the whole window.\<close>

theorem training_cap_is_stable:
  assumes "0 < evaluators" and "0 < r0" and "evaluators * 4 \<le> usize_max"
    and "sizing_batch_size t target0 (Some r0) evaluators = (n0, t0)"
    and "previous_remaining t = None \<or> sizing_evaluators t \<noteq> evaluators"
    and "0 < r1" and "r1 \<le> r0" and "sizing_batch_size t0 target1 (Some r1) evaluators = (n1, t1)"
  shows "\<exists>cap. sizing_cap t0 = Some cap \<and> sizing_cap t1 = Some cap \<and> n0 = min target0 cap \<and> n1 = min target1 cap \<and>
    min_batch_size \<le> cap \<and> r0 \<le> cap * (evaluators * 4)"
proof -
  let ?cap = "max (div_ceil r0 (evaluators * 4)) min_batch_size"
  have t0: "n0 = min target0 ?cap" "sizing_cap t0 = Some ?cap" "previous_remaining t0 = Some r0" "sizing_evaluators t0 = evaluators"
    using assms(1-5) by (auto simp: sizing_batch_size_def saturating_mul_usize_def Let_def)
  then have t1: "n1 = min target1 ?cap" "sizing_cap t1 = Some ?cap"
    using assms(1,6-8) by (auto simp: sizing_batch_size_def Let_def)
  have "r0 \<le> div_ceil r0 (evaluators * 4) * (evaluators * 4)" using assms(1) by (intro div_ceil_upper) simp
  also have "\<dots> \<le> ?cap * (evaluators * 4)" by (intro mult_le_mono1) simp
  finally show ?thesis using t0 t1 by simp
qed

lemma training_cap_is_stable_witness:
  "fst (sizing_batch_size (snd (sizing_batch_size training_sizing_default 5000 (Some 10000) 2)) 5000 (Some 100) 2) = 1250"
proof -
  have "div_ceil 10000 8 = 1250" by (simp add: div_ceil_def)
  then show ?thesis
    using training_cap_is_stable [of 2 10000 training_sizing_default 5000
        "fst (sizing_batch_size training_sizing_default 5000 (Some 10000) 2)"
        "snd (sizing_batch_size training_sizing_default 5000 (Some 10000) 2)" 100 5000
        "fst (sizing_batch_size (snd (sizing_batch_size training_sizing_default 5000 (Some 10000) 2)) 5000 (Some 100) 2)"
        "snd (sizing_batch_size (snd (sizing_batch_size training_sizing_default 5000 (Some 10000) 2)) 5000 (Some 100) 2)"]
    by (simp add: training_sizing_default_def usize_max_def sizing_batch_size_def saturating_mul_usize_def min_batch_size_def)
qed

subsection \<open>The pump\<close>

lemma bundle_count_pos: "pending_insert q \<noteq> [] \<Longrightarrow> 0 < bundle_count q"
proof (cases "pending_insert q")
  case (Cons x xs)
  have "0 < max (max_insert_bundle_size (sq_config q)) 1" by simp
  then obtain n where "max (max_insert_bundle_size (sq_config q)) 1 = Suc n" using gr0_implies_Suc by blast
  then show ?thesis using Cons by (cases x) (simp add: bundle_count_def)
qed simp

lemma takeWhile_take_prefix: "take (length (takeWhile P (take n xs))) xs = takeWhile P (take n xs)"
proof -
  have "takeWhile P (take n xs) = take (length (takeWhile P (take n xs))) (take n xs)"
    by (rule takeWhile_eq_take)
  also have "\<dots> = take (length (takeWhile P (take n xs))) xs"
    using length_takeWhile_le [of P "take n xs"] by (simp add: take_take min_absorb1)
  finally show ?thesis by simp
qed

lemma bundle_uniform:
  assumes "pending_insert q \<noteq> []"
  shows "take (bundle_count q) (pending_insert q) =
      map (\<lambda>b. (b, snd (hd (pending_insert q)))) (map fst (take (bundle_count q) (pending_insert q)))"
    and "bundle_count q \<le> length (pending_insert q)"
    and "bundle_count q \<le> max (max_insert_bundle_size (sq_config q)) 1"
proof -
  obtain x f xs where p: "pending_insert q = (x, f) # xs" using assms by (metis list.exhaust surj_pair)
  let ?P = "\<lambda>(_ :: 'a evaluation_batch, g). g = f"
  let ?b = "max (max_insert_bundle_size (sq_config q)) 1"
  have n: "bundle_count q = length (takeWhile ?P (take ?b (pending_insert q)))" by (simp add: bundle_count_def p)
  have "\<forall>y \<in> set (takeWhile ?P (take ?b (pending_insert q))). snd y = f" by (auto dest: set_takeWhileD)
  then have "map (\<lambda>b. (b, f)) (map fst (takeWhile ?P (take ?b (pending_insert q)))) = takeWhile ?P (take ?b (pending_insert q))"
    by (intro nth_equalityI) (auto simp: prod_eq_iff)
  then show "take (bundle_count q) (pending_insert q) =
      map (\<lambda>b. (b, snd (hd (pending_insert q)))) (map fst (take (bundle_count q) (pending_insert q)))"
    unfolding n takeWhile_take_prefix by (simp add: p)
  show "bundle_count q \<le> length (pending_insert q)" "bundle_count q \<le> ?b"
    unfolding n using length_takeWhile_le [of ?P "take ?b (pending_insert q)"] by simp_all
qed

text \<open>The batches the queue holds, in production order: those of its insert tasks, then the pending ones.\<close>

definition task_batches :: "'r insert_task \<Rightarrow> ('r evaluation_batch \<times> bool) list" where
  "task_batches t = map (\<lambda>b. (b, insert_training t)) (insert_payload t)"

definition local_batches :: "('r, 'x) sampler_queue \<Rightarrow> ('r evaluation_batch \<times> bool) list" where
  "local_batches q = concat (map task_batches (pending_insert_tasks q)) @ pending_insert q"

lemma spawn_insert_local: "pending_insert q \<noteq> [] \<Longrightarrow> local_batches (spawn_insert ids q) = local_batches q"
proof -
  assume ne: "pending_insert q \<noteq> []"
  have "map (\<lambda>b. (b, snd (hd (pending_insert q)))) (map fst (take (bundle_count q) (pending_insert q))) @
      drop (bundle_count q) (pending_insert q) = pending_insert q"
    unfolding bundle_uniform(1) [OF ne, symmetric] by (rule append_take_drop_id)
  then show ?thesis
    by (simp add: local_batches_def spawn_insert_def Let_def task_batches_def comp_def)
qed

end
