(* ===== verification/Queue_System.thy ===== *)
theory Queue_System
  imports Sampler_Queue_Laws Queue_Protocol
begin

section \<open>The sampler's queue and the store together\<close>

text \<open>
  One sampler process with its \<open>SamplerQueue\<close>, the store, and everybody else acting on the
  store: the asynchronous statements of the queue take effect at any later moment, in any
  order, and may fail or lose their acknowledgement; evaluators claim, complete, fail and
  lose batches in between. The question is whether the sampler ingests the results of its
  batches in production order, without a gap and without a repetition.
\<close>

subsection \<open>The source of identifiers as an interface\<close>

locale id_source =
  fixes room :: "'g \<Rightarrow> nat \<Rightarrow> bool"
    and level :: "'g \<Rightarrow> int"
    and fresh :: "'g \<Rightarrow> nat \<Rightarrow> i64 list \<times> 'g"
  assumes fresh_sound: "room g n \<Longrightarrow> fresh g n = (ids, g') \<Longrightarrow>
      length ids = n \<and> sorted_wrt (<) ids \<and> (\<forall>i \<in> set ids. level g \<le> i \<and> i < level g') \<and> level g \<le> level g'"
    and fresh_room: "room g (n + k) \<Longrightarrow> fresh g n = (ids, g') \<Longrightarrow> room g' k"
    and room_mono: "room g n \<Longrightarrow> k \<le> n \<Longrightarrow> room g k"

text \<open>\<open>next_batch_ids\<close>: the generator behind its lock, with the clock as a sequence of readings.\<close>

definition next_batch_ids ::
  "batch_id_generator \<times> (nat \<Rightarrow> u64) \<Rightarrow> nat \<Rightarrow> i64 list \<times> batch_id_generator \<times> (nat \<Rightarrow> u64)" where
  "next_batch_ids s n =
     (let (ids, g') = next_ids (fst s) (map (snd s) [0..<n]) in (ids, g', (\<lambda>i. snd s (i + n))))"

definition id_room :: "batch_id_generator \<times> (nat \<Rightarrow> u64) \<Rightarrow> nat \<Rightarrow> bool" where
  "id_room s n \<longleftrightarrow> generator_ok (fst s) \<and>
     (\<exists>m. last_millis (fst s) \<le> m \<and> (\<forall>i. snd s i \<le> m) \<and> m + n < 2 ^ 41)"

interpretation ids: id_source id_room "\<lambda>s. stand (fst s)" next_batch_ids
proof
  fix g :: "batch_id_generator \<times> (nat \<Rightarrow> u64)" and n ids g'
  assume room: "id_room g n" and fresh: "next_batch_ids g n = (ids, g')"
  obtain m where m: "last_millis (fst g) \<le> m" "\<forall>i. snd g i \<le> m" "m + n < 2 ^ 41" and ok: "generator_ok (fst g)"
    using room by (auto simp: id_room_def)
  have "next_ids (fst g) (map (snd g) [0..<n]) = (ids, fst g')"
    using fresh by (auto simp: next_batch_ids_def split: prod.splits)
  from next_ids_sound [OF ok _ m(1) _ this] m(2,3)
  show "length ids = n \<and> sorted_wrt (<) ids \<and> (\<forall>i \<in> set ids. stand (fst g) \<le> i \<and> i < stand (fst g')) \<and>
      stand (fst g) \<le> stand (fst g')" by simp
next
  fix g :: "batch_id_generator \<times> (nat \<Rightarrow> u64)" and n k ids g'
  assume room: "id_room g (n + k)" and fresh: "next_batch_ids g n = (ids, g')"
  obtain m where m: "last_millis (fst g) \<le> m" "\<forall>i. snd g i \<le> m" "m + (n + k) < 2 ^ 41" and ok: "generator_ok (fst g)"
    using room by (auto simp: id_room_def)
  have r: "next_ids (fst g) (map (snd g) [0..<n]) = (ids, fst g')" "snd g' = (\<lambda>i. snd g (i + n))"
    using fresh by (auto simp: next_batch_ids_def split: prod.splits)
  have s: "generator_ok (fst g') \<and> last_millis (fst g') \<le> m + n"
    using next_ids_sound [OF ok _ m(1) _ r(1)] m(2,3) by simp
  have "\<forall>i. snd g' i \<le> m + n" using m(2) r(2) by (simp add: trans_le_add1)
  then show "id_room g' k" using s m(3) unfolding id_room_def by (intro conjI exI [of _ "m + n"]) auto
next
  fix g :: "batch_id_generator \<times> (nat \<Rightarrow> u64)" and n k :: nat
  assume "id_room g n" "k \<le> n"
  then show "id_room g k" unfolding id_room_def by (meson add_left_mono le_less_trans)
qed

subsection \<open>The system\<close>

text \<open>
  \<open>produced\<close> and \<open>consumed\<close> are the history: the identifiers handed to insert tasks with
  their batches, and the identifiers the runner has marked processed. \<open>handed\<close> is what the
  last \<open>get_processed\<close> returned and the runner has not marked yet; the runner marks it
  before it asks again.
\<close>

record ('r, 'p, 'v, 'o, 'g) system =
  queue :: "('r, batch_row \<times> ('v, 'o) result_row) sampler_queue"
  db :: "('p, 'v, 'o) store"
  gen :: 'g
  handed :: "(batch_row \<times> ('v, 'o) result_row) completed_batch list"
  ingested :: "('r evaluation_batch \<times> bool) list"
  produced :: "(i64 \<times> 'r evaluation_batch \<times> bool) list"
  consumed :: "i64 list"

definition completed_of :: "batch_row \<times> ('v, 'o) result_row \<Rightarrow> (batch_row \<times> ('v, 'o) result_row) completed_batch" where
  "completed_of x = \<lparr>cb_id = batch_id (fst x), cb_task = batch_task (fst x), cb_training = training_values (fst x),
     cb_size = nat (batch_size (fst x)), cb_result = x\<rparr>"

definition task_entries :: "'r insert_task \<Rightarrow> (i64 \<times> 'r evaluation_batch \<times> bool) list" where
  "task_entries t = zip (insert_ids t) (task_batches t)"

definition set_handle :: "nat \<Rightarrow> (store_error + insert_metrics) \<Rightarrow> 'r insert_task list \<Rightarrow> 'r insert_task list" where
  "set_handle k r ts = ts[k := (ts ! k)\<lparr>insert_handle := Done r\<rparr>]"

text \<open>The pump appends tasks; the history records them.\<close>

definition after_pump ::
  "('r, 'p, 'v, 'o, 'g) system \<Rightarrow> ('r, batch_row \<times> ('v, 'o) result_row) sampler_queue \<times> 'g \<Rightarrow> ('r, 'p, 'v, 'o, 'g) system" where
  "after_pump s qg = s\<lparr>queue := fst qg, gen := snd qg,
     produced := produced s @ concat (map task_entries
       (drop (length (pending_insert_tasks (queue s))) (pending_insert_tasks (fst qg))))\<rparr>"

text \<open>What the other workers do to the store while this task runs.\<close>

inductive worker_change ::
  "i32 \<Rightarrow> i64 \<Rightarrow> ('p, 'v, 'o) store \<Rightarrow> ('p, 'v, 'o) store \<Rightarrow> bool"
  for run task where
  wc_claim: "worker_change run task s (snd (claim_batch (dec :: 'p \<Rightarrow> string + 'p) locked now r uuid token s))"
| wc_release: "worker_change run task s (snd (release_claimed_batches_for_worker r uuid s))"
| wc_untracked: "worker_change run task s (snd (release_untracked_claims r uuid tracked s))"
| wc_reclaim: "worker_change run task s (snd (reclaim_abandoned_batches now r s))"
| wc_submit: "worker_change run task s (snd (submit_batch_results (renc :: 'v option \<times> 'o \<Rightarrow> store_error + ('v option \<times> 'o)) now i uuid token x t s))"
| wc_fail: "worker_change run task s (snd (fail_batch i uuid token e m s))"
| wc_insert: "(r, k) \<noteq> (run, task) \<Longrightarrow>
    worker_change run task s (snd (insert_batches (enc :: 'p \<Rightarrow> string + 'p) sz now r k training js bs s))"
| wc_nodes: "worker_change run task s (s\<lparr>node_rows := ns\<rparr>)"
| wc_checkpoint: "worker_change run task s (s\<lparr>checkpoints := cs\<rparr>)"

text \<open>
  The runner makes no step after the queue has reported an error: the first premise of
  its rules. \<open>enc\<close> is the encoding of batches.
\<close>

inductive system_step ::
  "('g \<Rightarrow> nat \<Rightarrow> i64 list \<times> 'g) \<Rightarrow> ('r evaluation_batch \<Rightarrow> string + 'p)
    \<Rightarrow> ('r, 'p, 'v, 'o, 'g) system \<Rightarrow> ('r, 'p, 'v, 'o, 'g) system \<Rightarrow> bool"
  for fresh enc where
  ss_ingest: "insert_error (queue s) = None \<Longrightarrow>
    system_step fresh enc s
      ((after_pump s (ingest fresh (queue s) (gen s) bs fb))\<lparr>ingested := ingested s @ map (\<lambda>b. (b, fb)) bs\<rparr>)"
| ss_pump: "insert_error (queue s) = None \<Longrightarrow>
    system_step fresh enc s (after_pump s (ensure_insert_pump fresh (queue s) (gen s)))"
| ss_insert_done: "k < length (pending_insert_tasks (queue s)) \<Longrightarrow> t = pending_insert_tasks (queue s) ! k \<Longrightarrow>
    insert_handle t = Running \<Longrightarrow>
    insert_batches enc (\<lambda>b. nr_samples (eb_samples b)) now (sq_run_id (queue s)) (sq_task_id (queue s))
      (insert_training t) (insert_ids t) (insert_payload t) (db s) = (r, db') \<Longrightarrow>
    system_step fresh enc s (s\<lparr>db := db', queue := (queue s)\<lparr>pending_insert_tasks :=
      set_handle k (case r of Inl e \<Rightarrow> Inl e | Inr _ \<Rightarrow> Inr m) (pending_insert_tasks (queue s))\<rparr>\<rparr>)"
| ss_insert_lost: "k < length (pending_insert_tasks (queue s)) \<Longrightarrow> t = pending_insert_tasks (queue s) ! k \<Longrightarrow>
    insert_handle t = Running \<Longrightarrow>
    db' = db s \<or> db' = snd (insert_batches enc (\<lambda>b. nr_samples (eb_samples b)) now (sq_run_id (queue s)) (sq_task_id (queue s))
      (insert_training t) (insert_ids t) (insert_payload t) (db s)) \<Longrightarrow>
    system_step fresh enc s (s\<lparr>db := db', queue := (queue s)\<lparr>pending_insert_tasks :=
      set_handle k (Inl (Database e)) (pending_insert_tasks (queue s))\<rparr>\<rparr>)"
| ss_drain_insert: "insert_error (queue s) = None \<Longrightarrow>
    system_step fresh enc s (s\<lparr>queue := snd (drain_finished_insert (queue s) now settle notify)\<rparr>)"
| ss_prefetch: "insert_error (queue s) = None \<Longrightarrow> handed s = [] \<Longrightarrow>
    ensure_processed_prefetch fresh (queue s) (gen s) = (q', g') \<Longrightarrow>
    system_step fresh enc s (s\<lparr>queue := q', gen := g'\<rparr>)"
| ss_fetch_done: "pending_processed_fetch (queue s) = Some f \<Longrightarrow> fetch_handle f = Running \<Longrightarrow>
    outcome = (case fetch_completed_batches (sq_run_id (queue s)) (sq_task_id (queue s)) (fetch_limit f) True (fetch_after f) (db s) of
        Inl e \<Rightarrow> Inl e | Inr rows' \<Rightarrow> Inr (fetched_below f (map completed_of rows'), ms))
      \<or> outcome = Inl (Database e) \<Longrightarrow>
    system_step fresh enc s (s\<lparr>queue := (queue s)\<lparr>pending_processed_fetch := Some (f\<lparr>fetch_handle := Done outcome\<rparr>)\<rparr>\<rparr>)"
| ss_drain_fetch: "insert_error (queue s) = None \<Longrightarrow> drain_finished_processed_fetch (queue s) = Inr q' \<Longrightarrow>
    system_step fresh enc s (s\<lparr>queue := q'\<rparr>)"
| ss_take: "insert_error (queue s) = None \<Longrightarrow> handed s = [] \<Longrightarrow> take_ready_processed (queue s) = (bs, q') \<Longrightarrow>
    system_step fresh enc s (s\<lparr>queue := q', handed := bs\<rparr>)"
| ss_mark: "insert_error (queue s) = None \<Longrightarrow>
    system_step fresh enc s (s\<lparr>queue := mark_processed (queue s) now (handed s), handed := [],
      consumed := consumed s @ map cb_id (handed s)\<rparr>)"
| ss_cleanup_start: "insert_error (queue s) = None \<Longrightarrow>
    system_step fresh enc s (s\<lparr>queue := ensure_completed_cleanup_if_due (queue s) now\<rparr>)"
| ss_cleanup_done: "pending_completed_cleanup (queue s) = Some c \<Longrightarrow> cleanup_handle c = Running \<Longrightarrow>
    db' = db s \<or> db' = snd (cleanup_consumed_completed_batches (sq_run_id (queue s)) (cleanup_up_to c)
      completed_cleanup_batch_limit (db s)) \<Longrightarrow>
    system_step fresh enc s (s\<lparr>db := db',
      queue := (queue s)\<lparr>pending_completed_cleanup := Some (c\<lparr>cleanup_handle := Done r\<rparr>)\<rparr>\<rparr>)"
| ss_drain_cleanup: "insert_error (queue s) = None \<Longrightarrow> drain_finished_completed_cleanup (queue s) now = Inr (d, q') \<Longrightarrow>
    system_step fresh enc s (s\<lparr>queue := q'\<rparr>)"
| ss_workers: "worker_change (sq_run_id (queue s)) (sq_task_id (queue s)) (db s) db' \<Longrightarrow>
    system_step fresh enc s (s\<lparr>db := db'\<rparr>)"

subsection \<open>Which batches of the task the store holds\<close>

definition row_key :: "batch_row \<Rightarrow> i64 \<times> i32 \<times> i64" where
  "row_key b = (batch_id b, batch_run b, batch_task b)"

definition present :: "i32 \<Rightarrow> i64 \<Rightarrow> ('p, 'v, 'o) store \<Rightarrow> i64 set" where
  "present run task s = {i. (i, run, task) \<in> row_key ` set (rows s)}"

lemma present_update:
  assumes "\<And>b. batch_id (f b) = batch_id b" "\<And>b. batch_run (f b) = batch_run b" "\<And>b. batch_task (f b) = batch_task b"
  shows "present run task (update_where P f s) = present run task s"
proof -
  have "row_key (if P b then f b else b) = row_key b" for b using assms by (simp add: row_key_def)
  then have "row_key ` set (map (\<lambda>b. if P b then f b else b) (rows s)) = row_key ` set (rows s)"
    by (simp only: set_map image_image)
  then show ?thesis by (simp only: present_def update_where_simps)
qed

lemma present_env [simp]:
  "present run task (s\<lparr>node_rows := ns\<rparr>) = present run task s"
  "present run task (s\<lparr>checkpoints := cs\<rparr>) = present run task s"
  "present run task (s\<lparr>results := rs\<rparr>) = present run task s"
  "present run task (s\<lparr>inputs := ins\<rparr>) = present run task s"
  by (simp_all add: present_def)

lemmas present_marks = mark_claimed_def mark_released_def mark_reclaimed_def mark_completed_def mark_failed_def

lemma present_fresh_rows:
  assumes "length js = length bs"
  shows "present run task (insert_rows (map2 (\<lambda>i b. new_row now r k training i (sz b)) js bs) s) =
    present run task s \<union> (if r = run \<and> k = task then set js else {})"
proof -
  let ?new = "map2 (\<lambda>i b. new_row now r k training i (sz b)) js bs"
  have "map row_key ?new = map (\<lambda>i. (i, r, k)) js"
    using assms by (induction js bs rule: list_induct2) (simp_all add: new_row_def row_key_def)
  then have "row_key ` set ?new = (\<lambda>i. (i, r, k)) ` set js" by (metis list.set_map)
  then show ?thesis by (auto simp: present_def image_Un)
qed

lemma insert_present:
  "insert_batches enc sz now r k training js bs s = (res, s') \<Longrightarrow>
   present run task s' = present run task s \<or>
   (r = run \<and> k = task \<and> is_ok res \<and> length js = length bs \<and> present run task s' = present run task s \<union> set js)"
  by (auto simp: insert_batches_def present_fresh_rows split: if_splits sum.splits)

lemma insert_present_ok:
  "insert_batches enc sz now run task training js bs s = (Inr x, s') \<Longrightarrow> bs \<noteq> [] \<Longrightarrow>
   present run task s' = present run task s \<union> set js"
  by (auto simp: insert_batches_def present_fresh_rows split: if_splits sum.splits)

lemma claim_present: "present run task (snd (claim_batch dec locked now r uuid token s)) = present run task s"
  by (auto simp: claim_batch_def Let_def present_update present_marks split: option.splits sum.splits)

lemma submit_present: "present run task (snd (submit_batch_results renc now i uuid token x t s)) = present run task s"
  by (auto simp: submit_batch_results_def present_update present_marks
      split: option.splits sum.splits batch_status.splits)

lemma fail_present: "present run task (snd (fail_batch i uuid token e m s)) = present run task s"
  by (auto simp: fail_batch_def Let_def present_update present_marks split: option.splits)

lemma worker_change_present: "worker_change run task s s' \<Longrightarrow> present run task s' = present run task s"
proof (induction rule: worker_change.induct)
  case (wc_insert r k s enc sz now training js bs)
  then show ?case using insert_present [OF prod.collapse [symmetric], of run task enc sz now r k training js bs s] by auto
qed (simp_all add: claim_present submit_present fail_present present_update present_marks
    release_claimed_batches_for_worker_def release_untracked_claims_def reclaim_abandoned_batches_def Let_def)

lemma worker_change_ok: "worker_change run task s s' \<Longrightarrow> store_ok s \<Longrightarrow> store_ok s'"
  by (induction rule: worker_change.induct)
    (simp_all add: insert_ok claim_ok release_ok untracked_ok reclaim_ok submit_ok fail_ok)

lemma cleanup_present:
  assumes "store_ok s" and "s' = snd (cleanup_consumed_completed_batches r up_to limit s)"
  shows "present run task s' \<subseteq> present run task s" and "i \<in> present run task s \<Longrightarrow> i \<notin> present run task s' \<Longrightarrow> i \<le> up_to"
proof -
  obtain P where P: "s' = s \<or> s' = delete_where P s" "\<And>b. P b \<Longrightarrow> batch_id b \<le> up_to"
  proof -
    let ?picked = "take limit (sort_key batch_id (filter (cleanup_candidate r up_to s) (rows s)))"
    have "set ?picked \<subseteq> set (filter (cleanup_candidate r up_to s) (rows s))" by (metis set_sort set_take_subset)
    then have "batch_id b \<le> up_to" if "batch_id b \<in> batch_id ` set ?picked" for b
      using that by (auto simp: cleanup_candidate_def)
    moreover have "s' = s \<or> s' = delete_where (\<lambda>b. batch_id b \<in> batch_id ` set ?picked) s"
      using assms(2) by (simp add: cleanup_consumed_completed_batches_def Let_def)
    ultimately show ?thesis using that by blast
  qed
  then show "present run task s' \<subseteq> present run task s" by (auto simp: present_def delete_where_def Let_def)
  show "i \<le> up_to" if i: "i \<in> present run task s" "i \<notin> present run task s'"
  proof -
    obtain b where b: "b \<in> set (rows s)" "row_key b = (i, run, task)"
      using i(1) by (auto simp: present_def)
    have "s' = delete_where P s" using P(1) i by auto
    then have "P b" using i(2) b by (force simp: present_def delete_where_def Let_def)
    then show ?thesis using P(2) b(2) by (auto simp: row_key_def)
  qed
qed

subsection \<open>What the queue's operations do to tasks and cursors\<close>

lemma swap_remove_last: "swap_remove (length xs) (xs @ [x]) = xs"
  by (simp add: swap_remove_def)

lemma swap_remove_inner: "i < length xs \<Longrightarrow> swap_remove i (xs @ [x]) = xs[i := x]"
  by (simp add: swap_remove_def list_update_append)

lemma mset_swap_remove:
  assumes "i < length xs"
  shows "mset xs = add_mset (xs ! i) (mset (swap_remove i xs))"
proof (cases xs rule: rev_cases)
  case Nil
  then show ?thesis using assms by simp
next
  case (snoc ys y)
  show ?thesis
  proof (cases "i = length ys")
    case True
    then show ?thesis by (simp add: snoc swap_remove_last)
  next
    case False
    then have i: "i < length ys" using assms snoc by simp
    then have "mset ys = add_mset (ys ! i) (mset ys - {#ys ! i#})" by (simp add: nth_mem_mset)
    then show ?thesis using i by (simp add: snoc swap_remove_inner nth_append mset_update)
  qed
qed

lemma observe_insert_fields [simp]:
  "pending_insert_tasks (observe_insert t m q) = pending_insert_tasks q"
  "pending_insert (observe_insert t m q) = pending_insert q"
  "insert_error (observe_insert t m q) = insert_error q"
  "ready_processed (observe_insert t m q) = ready_processed q"
  "pending_processed_fetch (observe_insert t m q) = pending_processed_fetch q"
  "pending_completed_cleanup (observe_insert t m q) = pending_completed_cleanup q"
  "sq_checkpoint (observe_insert t m q) = sq_checkpoint q"
  "sq_run_id (observe_insert t m q) = sq_run_id q" "sq_task_id (observe_insert t m q) = sq_task_id q"
  by (simp_all add: observe_insert_def observe_metric_def Let_def split: option.splits)

text \<open>The fields a drain of finished inserts leaves alone; an error clears the tasks.\<close>

definition same_cursors :: "('r, 'x) sampler_queue \<Rightarrow> ('r, 'x) sampler_queue \<Rightarrow> bool" where
  "same_cursors q q' \<longleftrightarrow> pending_insert q' = pending_insert q \<and> ready_processed q' = ready_processed q \<and>
     sq_checkpoint q' = sq_checkpoint q \<and> sq_run_id q' = sq_run_id q \<and> sq_task_id q' = sq_task_id q \<and>
     pending_processed_fetch q' \<in> {pending_processed_fetch q, None} \<and>
     pending_completed_cleanup q' \<in> {pending_completed_cleanup q, None}"

lemma finish_maintenance_fields:
  "finish_background_maintenance q now settle = (r, q') \<Longrightarrow>
   same_cursors q q' \<and> pending_insert_tasks q' = pending_insert_tasks q \<and> insert_error q' = insert_error q"
  by (auto simp: finish_background_maintenance_def consume_completed_cleanup_task_def same_cursors_def Let_def
      split: option.splits task.splits sum.splits)

lemma consume_insert_sound:
  assumes "consume_insert_task q now settle notify t outcome = (r, q')"
  shows "same_cursors q q' \<and>
    (insert_error q' = insert_error q \<and> pending_insert_tasks q' = pending_insert_tasks q \<and> is_ok outcome \<or> insert_error q' \<noteq> None \<and> \<not> is_ok r)"
proof (cases outcome)
  case (Inl e)
  let ?e = "if is_database_error e then RetryActivation ''uncertain sampler insert'' else e"
  let ?q = "q\<lparr>insert_error := Some ?e, pending_insert_tasks := []\<rparr>"
  have "(r, q') = (Inl ?e, snd (finish_background_maintenance ?q now settle))"
    using assms Inl by (simp add: consume_insert_task_def Let_def split: if_splits)
  then have r: "r = Inl ?e" "q' = snd (finish_background_maintenance ?q now settle)" by simp_all
  have "same_cursors ?q q' \<and> insert_error q' = Some ?e"
    using finish_maintenance_fields [OF prod.collapse [symmetric], of ?q now settle] r(2) by simp
  then show ?thesis using r(1) by (simp add: same_cursors_def)
next
  case (Inr m)
  then show ?thesis using assms
    by (auto simp: consume_insert_task_def same_cursors_def Let_def split: if_splits)
qed

lemma drain_loop_sound:
  assumes "drain_insert_loop now settle notify n i q = (r, q')" "i + n = length (pending_insert_tasks q)"
    and "insert_error q = None"
  shows "same_cursors q q' \<and>
    (insert_error q' = None \<longrightarrow>
       set (pending_insert_tasks q') \<subseteq> set (pending_insert_tasks q) \<and>
       (\<forall>t \<in> set (pending_insert_tasks q). t \<in> set (pending_insert_tasks q') \<or> (\<exists>m. insert_handle t = Done (Inr m))))"
  using assms
proof (induction n arbitrary: i q)
  case 0
  then show ?case by (auto simp: same_cursors_def)
next
  case (Suc n)
  let ?ts = "pending_insert_tasks q" and ?t = "pending_insert_tasks q ! i"
  have i: "i < length ?ts" using Suc.prems(2) by simp
  show ?case
  proof (cases "insert_handle ?t")
    case Running
    then have "drain_insert_loop now settle notify n (Suc i) q = (r, q')" using Suc.prems(1) by (simp add: Let_def)
    moreover have "Suc i + n = length ?ts" using Suc.prems(2) by simp
    ultimately show ?thesis using Suc.prems(3) by (rule Suc.IH)
  next
    case (Done outcome)
    let ?q1 = "q\<lparr>pending_insert_tasks := swap_remove i ?ts\<rparr>"
    obtain r2 q2 where c: "consume_insert_task ?q1 now settle notify ?t outcome = (r2, q2)" by fastforce
    note cs = consume_insert_sound [OF c]
    have m: "set ?ts = insert ?t (set (swap_remove i ?ts))"
      using mset_swap_remove [OF i] by (metis set_mset_add_mset_insert set_mset_mset)
    have sc: "same_cursors q q2" using cs by (auto simp: same_cursors_def)
    show ?thesis
    proof (cases r2)
      case (Inl e)
      then have q2: "q' = q2" using Suc.prems(1) Done c by (simp add: Let_def)
      have "insert_error q2 \<noteq> None \<or> pending_insert_tasks q2 = swap_remove i ?ts \<and> is_ok outcome"
        using cs by auto
      moreover have "is_ok outcome \<Longrightarrow> \<exists>m. insert_handle ?t = Done (Inr m)" using Done by (cases outcome) auto
      ultimately show ?thesis
      proof (elim disjE)
        assume "insert_error q2 \<noteq> None"
        then show ?thesis unfolding q2 using sc by auto
      next
        assume live: "pending_insert_tasks q2 = swap_remove i ?ts \<and> is_ok outcome"
          and fin: "is_ok outcome \<Longrightarrow> \<exists>m. insert_handle ?t = Done (Inr m)"
        then have "pending_insert_tasks q2 = swap_remove i ?ts" "\<exists>m. insert_handle ?t = Done (Inr m)" by simp_all
        then show ?thesis unfolding q2 m using sc by auto
      qed
    next
      case (Inr u)
      have live: "insert_error q2 = None" "pending_insert_tasks q2 = swap_remove i ?ts" "is_ok outcome"
        using cs Inr Suc.prems(3) by auto
      have loop: "drain_insert_loop now settle notify n i q2 = (r, q')"
        using Suc.prems(1) Done c Inr by (simp add: Let_def)
      have len: "i + n = length (pending_insert_tasks q2)"
        using Suc.prems(2) live(2) by (simp add: swap_remove_def)
      note IH = Suc.IH [OF loop len live(1)]
      have sc': "same_cursors q q'" using IH sc by (auto simp: same_cursors_def)
      have fin: "\<exists>m. insert_handle ?t = Done (Inr m)" using Done live(3) by (cases outcome) auto
      show ?thesis
      proof (intro conjI impI)
        show "same_cursors q q'" by (rule sc')
        assume e: "insert_error q' = None"
        then have IH': "set (pending_insert_tasks q') \<subseteq> set (swap_remove i ?ts)"
          "\<forall>t \<in> set (swap_remove i ?ts). t \<in> set (pending_insert_tasks q') \<or> (\<exists>m. insert_handle t = Done (Inr m))"
          using IH unfolding live(2) by simp_all
        show "set (pending_insert_tasks q') \<subseteq> set ?ts" using IH'(1) unfolding m by blast
        show "\<forall>t \<in> set ?ts. t \<in> set (pending_insert_tasks q') \<or> (\<exists>m. insert_handle t = Done (Inr m))"
          using IH'(2) fin unfolding m by simp
      qed
    qed
  qed
qed

end
