(* ===== verification/Queue_Order.thy ===== *)
theory Queue_Order
  imports Queue_System
begin

section \<open>The sampler consumes in production order\<close>

text \<open>
  The invariant of the sampler's queue and the store together: the identifiers consumed,
  handed out and ready are a prefix of the identifiers produced, and as long as the queue
  has reported no error every produced identifier is in an insert task, in the store, or
  at or below the cursor. The invariant is proved under the interface \<open>id_source\<close>; the
  property follows for the generator of the code.
\<close>

subsection \<open>Prefixes of sorted lists\<close>

lemma sorted_takeWhile_less:
  "sorted_wrt (<) (xs :: i64 list) \<Longrightarrow> takeWhile (\<lambda>x. x < b) xs = filter (\<lambda>x. x < b) xs"
proof (induction xs)
  case (Cons x xs)
  show ?case
  proof (cases "x < b")
    case False
    then have "\<forall>y \<in> set xs. \<not> y < b" using Cons.prems by auto
    then show ?thesis using False by (simp add: filter_empty_conv)
  qed (use Cons in simp)
qed simp

lemma sorted_same_set:
  "sorted_wrt (<) (xs :: i64 list) \<Longrightarrow> sorted_wrt (<) ys \<Longrightarrow> set xs = set ys \<Longrightarrow> xs = ys"
  by (metis sorted_distinct_set_unique strict_sorted_iff)

lemma sorted_agree_below:
  assumes "sorted_wrt (<) (xs :: i64 list)" "sorted_wrt (<) ys"
    and "\<And>i. i < b \<Longrightarrow> i \<in> set xs \<longleftrightarrow> i \<in> set ys"
  shows "takeWhile (\<lambda>x. x < b) xs = takeWhile (\<lambda>x. x < b) ys"
proof -
  have "filter (\<lambda>x. x < b) xs = filter (\<lambda>x. x < b) ys"
    using assms by (intro sorted_same_set sorted_wrt_filter) auto
  then show ?thesis using assms(1,2) by (simp add: sorted_takeWhile_less)
qed

lemma prefix_takeWhile: "Sublist.prefix (takeWhile P xs) xs"
  by (metis prefixI takeWhile_dropWhile_id)

lemma prefix_takeWhile_mono: "Sublist.prefix xs ys \<Longrightarrow> Sublist.prefix (takeWhile P xs) (takeWhile P ys)"
  by (auto simp: prefix_def takeWhile_append) (metis takeWhile_eq_all_conv)

lemma map_takeWhile_comp: "map f (takeWhile (\<lambda>x. P (f x)) xs) = takeWhile P (map f xs)"
  by (induction xs) auto

lemma sorted_le_last:
  assumes "sorted_wrt (<) (xs :: i64 list)" and "i \<in> set xs"
  shows "i \<le> last xs"
proof (cases xs rule: rev_cases)
  case (snoc ys y)
  then show ?thesis using assms by (auto simp: sorted_wrt_append)
qed (use assms(2) in simp)

definition last_or_zero :: "i64 list \<Rightarrow> i64" where
  "last_or_zero xs = (if xs = [] then 0 else last xs)"

lemma sorted_rest_after:
  assumes "sorted_wrt (<) (xs @ ys)" and "\<forall>i \<in> set (xs @ ys). 0 < i"
  shows "i \<in> set ys \<longleftrightarrow> i \<in> set (xs @ ys) \<and> last_or_zero xs < i"
proof
  assume i: "i \<in> set ys"
  have "last_or_zero xs < i" using assms i by (auto simp: last_or_zero_def sorted_wrt_append)
  then show "i \<in> set (xs @ ys) \<and> last_or_zero xs < i" using i by simp
next
  assume i: "i \<in> set (xs @ ys) \<and> last_or_zero xs < i"
  have "i \<notin> set xs"
  proof
    assume m: "i \<in> set xs"
    then have "i \<le> last xs" using assms(1) sorted_le_last by (auto simp: sorted_wrt_append)
    moreover have "last_or_zero xs = last xs" using m by (auto simp: last_or_zero_def)
    ultimately show False using i by simp
  qed
  then show "i \<in> set ys" using i by simp
qed

subsection \<open>What the store shows of the task\<close>

definition here_ids :: "i32 \<Rightarrow> i64 \<Rightarrow> i64 \<Rightarrow> ('p, 'v, 'o) store \<Rightarrow> i64 list" where
  "here_ids run task after s = map batch_id (task_rows_after run task after s)"

lemma here_ids_set: "set (here_ids run task after s) = {i \<in> present run task s. after < i}"
  by (force simp: here_ids_def task_rows_after_def present_def row_key_def)

lemma here_ids_sorted: "store_ok s \<Longrightarrow> sorted_wrt (<) (here_ids run task after s)"
  unfolding here_ids_def by (rule task_rows_after_sorted) (simp add: store_ok_def)

lemma fetch_below_prefix:
  assumes "store_ok s" and "fetch_completed_batches run task limit True after s = Inr rs"
    and "a = (case after of None \<Rightarrow> 0 | Some l \<Rightarrow> l)"
  shows "Sublist.prefix (map cb_id (fetched_below f (map completed_of rs)))
    (takeWhile (\<lambda>i. i < fetch_before f) (here_ids run task a s))"
proof -
  let ?here = "task_rows_after run task a s"
  have rs: "map (\<lambda>x. batch_id (fst x)) rs = map batch_id (takeWhile (\<lambda>b. status b = Completed) (take limit ?here))"
    using assms(2) fetch_ordered [OF assms(1), of run task limit after]
    by (auto simp: assms(3) comp_def split: if_splits)
  have "Sublist.prefix (takeWhile (\<lambda>b. status b = Completed) (take limit ?here)) ?here"
    by (meson prefix_order.trans prefix_takeWhile take_is_prefix)
  then have "Sublist.prefix (map (\<lambda>x. batch_id (fst x)) rs) (here_ids run task a s)"
    unfolding rs here_ids_def by (rule map_mono_prefix)
  then have "Sublist.prefix (takeWhile (\<lambda>i. i < fetch_before f) (map (\<lambda>x. batch_id (fst x)) rs))
      (takeWhile (\<lambda>i. i < fetch_before f) (here_ids run task a s))"
    by (rule prefix_takeWhile_mono)
  moreover have "map cb_id (fetched_below f (map completed_of rs)) =
      takeWhile (\<lambda>i. i < fetch_before f) (map (\<lambda>x. batch_id (fst x)) rs)"
    using map_takeWhile_comp [of cb_id "\<lambda>i. i < fetch_before f" "map completed_of rs"]
    by (simp add: fetched_below_def comp_def completed_of_def)
  ultimately show ?thesis by simp
qed

subsection \<open>The invariant\<close>

definition seen :: "i64 set \<Rightarrow> i64 list \<Rightarrow> i64 set" where
  "seen D con = D \<union> {i. con \<noteq> [] \<and> i \<le> last con}"

definition task_ok :: "i64 set \<Rightarrow> i64 set \<Rightarrow> 'r insert_task \<Rightarrow> bool" where
  "task_ok P V t \<longleftrightarrow> insert_ids t \<noteq> [] \<and> first_batch_id t = hd (insert_ids t) \<and> sorted_wrt (<) (insert_ids t) \<and>
     length (insert_payload t) = length (insert_ids t) \<and> set (insert_ids t) \<subseteq> P \<and>
     (\<forall>m. insert_handle t = Done (Inr m) \<longrightarrow> set (insert_ids t) \<subseteq> V)"

definition cursor_of :: "i64 list \<Rightarrow> i64 option" where
  "cursor_of con = (if con = [] then None else Some (last con))"

definition fetch_ok :: "i64 \<Rightarrow> i64 list \<Rightarrow> i64 set \<Rightarrow> i64 list \<Rightarrow> 'x fetch_task \<Rightarrow> bool" where
  "fetch_ok lvl P V con f \<longleftrightarrow> fetch_after f = cursor_of con \<and> fetch_before f \<le> lvl \<and>
     {i \<in> set P. i < fetch_before f} \<subseteq> V \<and>
     (\<forall>bs ms. fetch_handle f = Done (Inr (bs, ms)) \<longrightarrow> Sublist.prefix (con @ map cb_id bs) P)"

definition cleanup_ok :: "i64 list \<Rightarrow> cleanup_task \<Rightarrow> bool" where
  "cleanup_ok con c \<longleftrightarrow> con \<noteq> [] \<and> cleanup_up_to c \<le> last con"

text \<open>
  \<open>lvl\<close> is the level of the generator, \<open>P\<close> the identifiers produced, \<open>D\<close> those of the rows,
  \<open>con\<close> those consumed and \<open>hs\<close> those handed to the runner.
\<close>

definition live_ok ::
  "i64 \<Rightarrow> i64 list \<Rightarrow> i64 set \<Rightarrow> i64 list \<Rightarrow> i64 list \<Rightarrow> ('r, 'x) sampler_queue \<Rightarrow> bool" where
  "live_ok lvl P D con hs q \<longleftrightarrow>
     cp_last_completed (sq_checkpoint q) = cursor_of con \<and> D \<subseteq> set P \<and>
     (\<forall>t \<in> set (pending_insert_tasks q). task_ok (set P) (seen D con) t) \<and>
     set P \<subseteq> seen D con \<union> (\<Union>t \<in> set (pending_insert_tasks q). set (insert_ids t)) \<and>
     (\<forall>f. pending_processed_fetch q = Some f \<longrightarrow>
        hs = [] \<and> ready_processed q = [] \<and> fetch_ok lvl P (seen D con) con f) \<and>
     (\<forall>c. pending_completed_cleanup q = Some c \<longrightarrow> cleanup_ok con c)"

definition ids_ok :: "i64 \<Rightarrow> i64 list \<Rightarrow> bool" where
  "ids_ok lvl P \<longleftrightarrow> sorted_wrt (<) P \<and> (\<forall>i \<in> set P. 0 < i \<and> i < lvl)"

definition produced_ids :: "('r, 'p, 'v, 'o, 'g) system \<Rightarrow> i64 list" where
  "produced_ids s = map fst (produced s)"

definition handed_ids :: "('r, 'p, 'v, 'o, 'g) system \<Rightarrow> i64 list" where
  "handed_ids s = map cb_id (handed s)"

definition rows_here :: "('r, 'p, 'v, 'o, 'g) system \<Rightarrow> i64 set" where
  "rows_here s = present (sq_run_id (queue s)) (sq_task_id (queue s)) (db s)"

definition system_ok :: "('g \<Rightarrow> i64) \<Rightarrow> ('r, 'p, 'v, 'o, 'g) system \<Rightarrow> bool" where
  "system_ok level s \<longleftrightarrow> store_ok (db s) \<and> 0 < level (gen s) \<and> ids_ok (level (gen s)) (produced_ids s) \<and>
     map snd (produced s) @ pending_insert (queue s) = ingested s \<and>
     Sublist.prefix (consumed s @ handed_ids s @ map cb_id (ready_processed (queue s))) (produced_ids s) \<and>
     (insert_error (queue s) = None \<longrightarrow>
        live_ok (level (gen s)) (produced_ids s) (rows_here s) (consumed s) (handed_ids s) (queue s))"

lemma task_ok_mono: "task_ok P V t \<Longrightarrow> P \<subseteq> P' \<Longrightarrow> V \<subseteq> V' \<Longrightarrow> task_ok P' V' t"
  unfolding task_ok_def by blast

lemma fetch_ok_mono:
  "fetch_ok lvl P V con f \<Longrightarrow> V \<subseteq> V' \<Longrightarrow> lvl \<le> lvl' \<Longrightarrow> \<forall>i \<in> set ns. lvl \<le> i \<Longrightarrow> fetch_ok lvl' (P @ ns) V' con f"
  unfolding fetch_ok_def by (fastforce intro: prefix_order.trans)

text \<open>Rows appear and, at or below the cursor, disappear.\<close>

lemma live_ok_rows:
  assumes "live_ok lvl P D con hs q" and "D \<subseteq> seen D' con" and "D' \<subseteq> set P"
  shows "live_ok lvl P D' con hs q"
proof -
  have m: "seen D con \<subseteq> seen D' con" using assms(2) by (auto simp: seen_def)
  have "\<forall>t \<in> set (pending_insert_tasks q). task_ok (set P) (seen D' con) t"
    using assms(1) task_ok_mono [OF _ _ m] unfolding live_ok_def by blast
  moreover have "fetch_ok lvl P (seen D con) con f \<Longrightarrow> fetch_ok lvl P (seen D' con) con f" for f :: "'b fetch_task"
    using fetch_ok_mono [OF _ m, of lvl P con f lvl "[]"] by simp
  ultimately show ?thesis using assms(1,3) m unfolding live_ok_def by (auto 0 3)
qed

subsection \<open>The pump\<close>

definition entries :: "'r insert_task list \<Rightarrow> (i64 \<times> 'r evaluation_batch \<times> bool) list" where
  "entries ts = concat (map task_entries ts)"

lemma entries_simps [simp]: "entries [] = []" "entries (ts @ us) = entries ts @ entries us"
  by (simp_all add: entries_def)

definition same_live :: "('r, 'x) sampler_queue \<Rightarrow> ('r, 'x) sampler_queue \<Rightarrow> bool" where
  "same_live q q' \<longleftrightarrow> cp_last_completed (sq_checkpoint q') = cp_last_completed (sq_checkpoint q) \<and>
     ready_processed q' = ready_processed q \<and> pending_processed_fetch q' = pending_processed_fetch q \<and>
     pending_completed_cleanup q' = pending_completed_cleanup q \<and> insert_error q' = insert_error q \<and>
     sq_run_id q' = sq_run_id q \<and> sq_task_id q' = sq_task_id q"

lemma same_live_refl [simp]: "same_live q q"
  by (simp add: same_live_def)

lemma same_live_trans: "same_live q1 q2 \<Longrightarrow> same_live q2 q3 \<Longrightarrow> same_live q1 q3"
  by (simp add: same_live_def)

text \<open>\<open>lo\<close> and \<open>hi\<close> bound the identifiers of the new tasks.\<close>

definition pumped :: "i64 \<Rightarrow> i64 \<Rightarrow> ('r, 'x) sampler_queue \<Rightarrow> ('r, 'x) sampler_queue \<Rightarrow> 'r insert_task list \<Rightarrow> bool" where
  "pumped lo hi q q' new \<longleftrightarrow> same_live q q' \<and>
     pending_insert_tasks q' = pending_insert_tasks q @ new \<and>
     map snd (entries new) @ pending_insert q' = pending_insert q \<and>
     lo \<le> hi \<and> sorted_wrt (<) (map fst (entries new)) \<and> (\<forall>i \<in> set (map fst (entries new)). lo \<le> i \<and> i < hi) \<and>
     (\<forall>t \<in> set new. task_ok (set (map fst (entries new))) {} t) \<and>
     set (map fst (entries new)) = (\<Union>t \<in> set new. set (insert_ids t))"

lemma pumped_refl: "pumped lo lo q q []"
  by (simp add: pumped_def)

lemma pumped_trans:
  assumes "pumped lo mid q q1 ts" and "pumped mid hi q1 q2 us"
  shows "pumped lo hi q q2 (ts @ us)"
proof -
  let ?a = "map fst (entries ts)" and ?b = "map fst (entries us)"
  have p1: "same_live q q1" "pending_insert_tasks q1 = pending_insert_tasks q @ ts"
    "map snd (entries ts) @ pending_insert q1 = pending_insert q" "lo \<le> mid" "sorted_wrt (<) ?a"
    "\<And>i. i \<in> set ?a \<Longrightarrow> lo \<le> i \<and> i < mid" "\<And>t. t \<in> set ts \<Longrightarrow> task_ok (set ?a) {} t"
    "set ?a = (\<Union>t \<in> set ts. set (insert_ids t))"
    using assms(1) unfolding pumped_def by blast+
  have p2: "same_live q1 q2" "pending_insert_tasks q2 = pending_insert_tasks q1 @ us"
    "map snd (entries us) @ pending_insert q2 = pending_insert q1" "mid \<le> hi" "sorted_wrt (<) ?b"
    "\<And>i. i \<in> set ?b \<Longrightarrow> mid \<le> i \<and> i < hi" "\<And>t. t \<in> set us \<Longrightarrow> task_ok (set ?b) {} t"
    "set ?b = (\<Union>t \<in> set us. set (insert_ids t))"
    using assms(2) unfolding pumped_def by blast+
  have ab: "x < y" if "x \<in> set ?a" "y \<in> set ?b" for x y
    using p1(6) [OF that(1)] p2(6) [OF that(2)] by simp
  have "same_live q q2" using p1(1) p2(1) by (rule same_live_trans)
  moreover have "sorted_wrt (<) (?a @ ?b)" using p1(5) p2(5) ab by (simp only: sorted_wrt_append) blast
  moreover have "\<forall>i \<in> set (?a @ ?b). lo \<le> i \<and> i < hi"
    using p1(4,6) p2(4,6) by (simp only: set_append) (meson UnE le_less_trans less_le_trans order.trans less_imp_le)
  moreover have "task_ok (set (?a @ ?b)) {} t" if "t \<in> set (ts @ us)" for t
    using that p1(7) p2(7) task_ok_mono [of "set ?a" "{}" t "set (?a @ ?b)" "{}"]
      task_ok_mono [of "set ?b" "{}" t "set (?a @ ?b)" "{}"] by auto
  moreover have "set (?a @ ?b) = (\<Union>t \<in> set (ts @ us). set (insert_ids t))"
    using p1(8) p2(8) by (simp only: set_append UN_Un)
  ultimately show ?thesis
    using p1(2-4) p2(2-4) unfolding pumped_def entries_simps map_append by (simp del: set_append)
qed

lemma pumped_spawn:
  assumes "pending_insert q \<noteq> []" and "length ids = bundle_count q" and "sorted_wrt (<) ids"
    and "\<forall>i \<in> set ids. lo \<le> i \<and> i < hi" and "lo \<le> hi"
  shows "\<exists>t. pumped lo hi q (spawn_insert ids q) [t]"
proof -
  let ?n = "bundle_count q" and ?p = "pending_insert q"
  define t where "t = last (pending_insert_tasks (spawn_insert ids q))"
  have f: "insert_ids t = ids" "insert_payload t = map fst (take ?n ?p)" "insert_training t = snd (hd ?p)"
    "insert_handle t = Running" "first_batch_id t = hd ids"
    by (simp_all add: t_def spawn_insert_def Let_def)
  have len: "length (insert_payload t) = length ids"
    using f assms(2) bundle_uniform(2) [OF assms(1)] by simp
  have batches: "task_batches t = take ?n ?p"
    unfolding task_batches_def f bundle_uniform(1) [OF assms(1), symmetric] ..
  have len2: "length (take ?n ?p) = length ids" using assms(2) bundle_uniform(2) [OF assms(1)] by simp
  have e: "map fst (entries [t]) = ids" "map snd (entries [t]) = take ?n ?p"
    using len2 by (simp_all add: entries_def task_entries_def batches f(1))
  have ne: "ids \<noteq> []" using assms(1,2) bundle_count_pos [of q] by auto
  have "same_live q (spawn_insert ids q)" by (simp add: same_live_def spawn_insert_def Let_def)
  moreover have "pending_insert_tasks (spawn_insert ids q) = pending_insert_tasks q @ [t]"
    by (simp add: t_def spawn_insert_def Let_def)
  moreover have "pending_insert (spawn_insert ids q) = drop ?n ?p" by (simp add: spawn_insert_def Let_def)
  moreover have "task_ok (set ids) {} t" using f len ne assms(3) by (simp add: task_ok_def)
  ultimately have "pumped lo hi q (spawn_insert ids q) [t]"
    unfolding pumped_def e using assms(3-5) f(1) by simp
  then show ?thesis ..
qed

context id_source
begin

lemma pump_loop_sound:
  assumes "room g (length (pending_insert q) + k)" and "insert_pump_loop fresh slots q g = (q', g')"
  shows "\<exists>new. pumped (level g) (level g') q q' new \<and> room g' (length (pending_insert q') + k)"
  using assms
proof (induction slots arbitrary: q g)
  case 0
  then show ?case using pumped_refl by fastforce
next
  case (Suc slots)
  show ?case
  proof (cases "pending_insert q = []")
    case True
    then show ?thesis using Suc.prems pumped_refl by fastforce
  next
    case False
    obtain ids g1 where fr: "fresh g (bundle_count q) = (ids, g1)" by fastforce
    let ?q = "spawn_insert ids q"
    have pend: "length (pending_insert q) = bundle_count q + length (pending_insert ?q)"
      using bundle_uniform(2) [OF False] by (simp add: spawn_insert_def Let_def)
    have room1: "room g1 (length (pending_insert ?q) + k)"
      using fresh_room [OF _ fr, of "length (pending_insert ?q) + k"] Suc.prems(1) pend by (simp add: add.assoc)
    have "room g (bundle_count q)" using room_mono [OF Suc.prems(1)] pend by simp
    note s = fresh_sound [OF this fr]
    obtain t where t: "pumped (level g) (level g1) q ?q [t]" using pumped_spawn [OF False, of ids "level g" "level g1"] s by auto
    have "insert_pump_loop fresh slots ?q g1 = (q', g')" using Suc.prems(2) False fr by simp
    from Suc.IH [OF room1 this] obtain new where "pumped (level g1) (level g') ?q q' new" "room g' (length (pending_insert q') + k)"
      by blast
    then show ?thesis using pumped_trans [OF t] by blast
  qed
qed

lemma ensure_pump_sound:
  assumes "room g (length (pending_insert q))" and "ensure_insert_pump fresh q g = (q', g')"
  shows "\<exists>new. pumped (level g) (level g') q q' new"
  using pump_loop_sound [of g q 0] assms unfolding ensure_insert_pump_def by auto

end

subsection \<open>Each step keeps the invariant\<close>

lemma live_ok_pump:
  assumes "live_ok lvl P D con hs q" and "pumped lvl lvl' q q' new"
  shows "live_ok lvl' (P @ map fst (entries new)) D con hs q'"
proof -
  let ?ns = "map fst (entries new)"
  have p: "same_live q q'" "pending_insert_tasks q' = pending_insert_tasks q @ new" "lvl \<le> lvl'"
    "\<forall>i \<in> set ?ns. lvl \<le> i" "\<And>t. t \<in> set new \<Longrightarrow> task_ok (set ?ns) {} t"
    "set ?ns = (\<Union>t \<in> set new. set (insert_ids t))"
    using assms(2) unfolding pumped_def by blast+
  have l: "cp_last_completed (sq_checkpoint q) = cursor_of con" "D \<subseteq> set P"
    "\<And>t. t \<in> set (pending_insert_tasks q) \<Longrightarrow> task_ok (set P) (seen D con) t"
    "set P \<subseteq> seen D con \<union> (\<Union>t \<in> set (pending_insert_tasks q). set (insert_ids t))"
    "\<And>f. pending_processed_fetch q = Some f \<Longrightarrow> hs = [] \<and> ready_processed q = [] \<and> fetch_ok lvl P (seen D con) con f"
    "\<And>c. pending_completed_cleanup q = Some c \<Longrightarrow> cleanup_ok con c"
    using assms(1) unfolding live_ok_def by blast+
  have tasks: "task_ok (set (P @ ?ns)) (seen D con) t" if "t \<in> set (pending_insert_tasks q')" for t
  proof (cases "t \<in> set (pending_insert_tasks q)")
    case True
    then show ?thesis using l(3) task_ok_mono [OF _ _ order_refl] by (metis set_append sup_ge1)
  next
    case False
    then have "task_ok (set ?ns) {} t" using that p(2,5) by auto
    then show ?thesis by (rule task_ok_mono) auto
  qed
  have cover: "set (P @ ?ns) \<subseteq> seen D con \<union> (\<Union>t \<in> set (pending_insert_tasks q'). set (insert_ids t))"
    using l(4) p(6) unfolding p(2) set_append UN_Un by blast
  have fetch: "hs = [] \<and> ready_processed q' = [] \<and> fetch_ok lvl' (P @ ?ns) (seen D con) con f"
    if "pending_processed_fetch q' = Some f" for f
  proof -
    have f: "pending_processed_fetch q = Some f" using p(1) that by (simp add: same_live_def)
    have "fetch_ok lvl' (P @ ?ns) (seen D con) con f"
      using l(5) [OF f] p(3,4) by (blast intro: fetch_ok_mono)
    then show ?thesis using l(5) [OF f] p(1) by (simp add: same_live_def)
  qed
  have "D \<subseteq> set (P @ ?ns)" using l(2) by auto
  moreover have "cp_last_completed (sq_checkpoint q') = cursor_of con" "\<And>c. pending_completed_cleanup q' = Some c \<Longrightarrow> cleanup_ok con c"
    using l(1,6) p(1) by (simp_all add: same_live_def)
  ultimately show ?thesis using tasks cover fetch unfolding live_ok_def by blast
qed

lemma pump_keeps:
  assumes "system_ok level s" and "insert_error (queue s) = None"
    and "same_live (queue s) q0" and "pending_insert_tasks q0 = pending_insert_tasks (queue s)"
    and "pending_insert q0 = pending_insert (queue s) @ extra"
    and "pumped (level (gen s)) (level g') q0 q' new"
  shows "system_ok level ((after_pump s (q', g'))\<lparr>ingested := ingested s @ extra\<rparr>)"
proof -
  let ?ns = "map fst (entries new)" and ?s = "(after_pump s (q', g'))\<lparr>ingested := ingested s @ extra\<rparr>"
  have p: "same_live q0 q'" "pending_insert_tasks q' = pending_insert_tasks q0 @ new"
    "map snd (entries new) @ pending_insert q' = pending_insert q0" "level (gen s) \<le> level g'" "sorted_wrt (<) ?ns"
    "\<And>i. i \<in> set ?ns \<Longrightarrow> level (gen s) \<le> i \<and> i < level g'"
    using assms(6) unfolding pumped_def by blast+
  have o: "store_ok (db s)" "0 < level (gen s)" "ids_ok (level (gen s)) (produced_ids s)"
    "map snd (produced s) @ pending_insert (queue s) = ingested s"
    "Sublist.prefix (consumed s @ handed_ids s @ map cb_id (ready_processed (queue s))) (produced_ids s)"
    "live_ok (level (gen s)) (produced_ids s) (rows_here s) (consumed s) (handed_ids s) (queue s)"
    using assms(1,2) unfolding system_ok_def by blast+
  have sl: "same_live (queue s) q'" using assms(3) p(1) by (rule same_live_trans)
  have "drop (length (pending_insert_tasks (queue s))) (pending_insert_tasks q') = new"
    using p(2) assms(4) by simp
  then have f: "produced ?s = produced s @ entries new" "queue ?s = q'" "gen ?s = g'" "db ?s = db s"
    "ingested ?s = ingested s @ extra" "consumed ?s = consumed s" "handed ?s = handed s"
    by (simp_all add: after_pump_def entries_def)
  have pi: "produced_ids ?s = produced_ids s @ ?ns" "handed_ids ?s = handed_ids s" "rows_here ?s = rows_here s"
    using sl by (simp_all add: produced_ids_def handed_ids_def rows_here_def f same_live_def)
  have lt: "\<And>x. x \<in> set (produced_ids s) \<Longrightarrow> 0 < x \<and> x < level (gen s)"
    using o(3) by (simp add: ids_ok_def)
  have "sorted_wrt (<) (produced_ids s @ ?ns)"
    unfolding sorted_wrt_append using o(3) p(5,6) lt by (meson ids_ok_def less_le_trans)
  moreover have "0 < x \<and> x < level g'" if "x \<in> set (produced_ids s @ ?ns)" for x
    using that lt [of x] p(6) [of x] p(4) o(2) by (simp only: set_append) (meson UnE less_le_trans)
  ultimately have "ids_ok (level g') (produced_ids s @ ?ns)" by (simp add: ids_ok_def del: set_append)
  moreover have "live_ok (level g') (produced_ids s @ ?ns) (rows_here s) (consumed s) (handed_ids s) q'"
  proof (rule live_ok_pump [OF _ assms(6)])
    show "live_ok (level (gen s)) (produced_ids s) (rows_here s) (consumed s) (handed_ids s) q0"
      using o(6) assms(3,4) by (simp add: live_ok_def same_live_def)
  qed
  moreover have "map snd (produced s @ entries new) @ pending_insert q' = ingested s @ extra"
    using o(4) p(3) assms(5) by simp
  moreover have "Sublist.prefix (consumed s @ handed_ids s @ map cb_id (ready_processed q')) (produced_ids s @ ?ns)"
    using o(5) sl by (simp add: same_live_def prefix_prefix)
  ultimately show ?thesis using o(1,2) p(4) unfolding system_ok_def f pi by simp
qed

lemma live_ok_handle:
  assumes "live_ok lvl P D con hs q" and "k < length (pending_insert_tasks q)" and "t = pending_insert_tasks q ! k"
    and "D' = D \<or> D' = D \<union> set (insert_ids t)" and "is_ok r \<Longrightarrow> D' = D \<union> set (insert_ids t)"
  shows "live_ok lvl P D' con hs (q\<lparr>pending_insert_tasks := set_handle k r (pending_insert_tasks q)\<rparr>)"
proof -
  let ?ts = "pending_insert_tasks q" and ?t = "t\<lparr>insert_handle := Done r\<rparr>"
  have t: "task_ok (set P) (seen D con) t" using assms(1-3) by (auto simp: live_ok_def)
  have "D' \<subseteq> set P" using assms(1,4) t by (auto simp: live_ok_def task_ok_def)
  moreover have "D \<subseteq> seen D' con" using assms(4) by (auto simp: seen_def)
  ultimately have live: "live_ok lvl P D' con hs q" using live_ok_rows [OF assms(1)] by blast
  have sh: "set_handle k r ?ts = ?ts[k := ?t]" by (simp add: set_handle_def assms(3))
  have "set (insert_ids t) \<subseteq> seen D' con" if "r = Inr m" for m using assms(5) that by (auto simp: seen_def)
  then have "task_ok (set P) (seen D' con) ?t" using t by (auto simp: task_ok_def)
  then have "\<forall>u \<in> set (?ts[k := ?t]). task_ok (set P) (seen D' con) u"
    using live set_update_subset_insert [of ?ts k ?t] unfolding live_ok_def by blast
  moreover have "map insert_ids (?ts[k := ?t]) = map insert_ids ?ts"
    using assms(2,3) by (simp add: map_update list_update_same_conv)
  then have "(\<Union>u \<in> set (?ts[k := ?t]). set (insert_ids u)) = (\<Union>u \<in> set ?ts. set (insert_ids u))"
    by (metis list.set_map image_image)
  ultimately show ?thesis using live unfolding sh live_ok_def by simp
qed

lemma live_ok_drain:
  assumes "live_ok lvl P D con hs q" and "drain_insert_loop now settle notify n 0 q = (r, q')"
    and "n = length (pending_insert_tasks q)" and "insert_error q = None" and "insert_error q' = None"
  shows "live_ok lvl P D con hs q'"
proof -
  have s: "same_cursors q q'" "set (pending_insert_tasks q') \<subseteq> set (pending_insert_tasks q)"
    "\<And>t. t \<in> set (pending_insert_tasks q) \<Longrightarrow> t \<in> set (pending_insert_tasks q') \<or> (\<exists>m. insert_handle t = Done (Inr m))"
    using drain_loop_sound [OF assms(2) _ assms(4)] assms(3,5) by auto
  have "set (insert_ids t) \<subseteq> seen D con" if "t \<in> set (pending_insert_tasks q)" "t \<notin> set (pending_insert_tasks q')" for t
    using s(3) [OF that(1)] that assms(1) unfolding live_ok_def task_ok_def by blast
  then have "(\<Union>t \<in> set (pending_insert_tasks q). set (insert_ids t)) \<subseteq>
      seen D con \<union> (\<Union>t \<in> set (pending_insert_tasks q'). set (insert_ids t))" by blast
  then have "set P \<subseteq> seen D con \<union> (\<Union>t \<in> set (pending_insert_tasks q'). set (insert_ids t))"
    using assms(1) unfolding live_ok_def by blast
  moreover have "pending_processed_fetch q' = Some f \<Longrightarrow> pending_processed_fetch q = Some f"
    "pending_completed_cleanup q' = Some c \<Longrightarrow> pending_completed_cleanup q = Some c" for f c
    using s(1) by (auto simp: same_cursors_def)
  moreover have "sq_checkpoint q' = sq_checkpoint q" "ready_processed q' = ready_processed q"
    using s(1) by (simp_all add: same_cursors_def)
  ultimately show ?thesis using assms(1) s(2) unfolding live_ok_def by (simp add: subset_eq)
qed

lemma system_okD:
  assumes "system_ok level s"
  shows "store_ok (db s)" and "ids_ok (level (gen s)) (produced_ids s)"
    and "Sublist.prefix (consumed s @ handed_ids s @ map cb_id (ready_processed (queue s))) (produced_ids s)"
    and "insert_error (queue s) = None \<Longrightarrow>
      live_ok (level (gen s)) (produced_ids s) (rows_here s) (consumed s) (handed_ids s) (queue s)"
  using assms unfolding system_ok_def by blast+

lemma system_ok_change:
  assumes "system_ok level s" and "produced s' = produced s" and "ingested s' = ingested s"
    and "pending_insert (queue s') = pending_insert (queue s)" and "level (gen s) \<le> level (gen s')" and "store_ok (db s')"
    and "Sublist.prefix (consumed s' @ handed_ids s' @ map cb_id (ready_processed (queue s'))) (produced_ids s)"
    and "insert_error (queue s') = None \<Longrightarrow>
      live_ok (level (gen s')) (produced_ids s) (rows_here s') (consumed s') (handed_ids s') (queue s')"
  shows "system_ok level s'"
proof -
  have "produced_ids s' = produced_ids s" using assms(2) by (simp add: produced_ids_def)
  moreover have "ids_ok (level (gen s')) (produced_ids s)"
    using system_okD(2) [OF assms(1)] assms(5) unfolding ids_ok_def by (meson less_le_trans)
  ultimately show ?thesis using assms unfolding system_ok_def by simp
qed

lemma live_ok_cleanup_start:
  "live_ok lvl P D con hs q \<Longrightarrow> live_ok lvl P D con hs (ensure_completed_cleanup_if_due q now)"
  by (auto simp: ensure_completed_cleanup_if_due_def live_ok_def cleanup_ok_def cursor_of_def split: option.splits if_splits)

lemma cleanup_start_fields [simp]:
  "pending_insert (ensure_completed_cleanup_if_due q now) = pending_insert q"
  "ready_processed (ensure_completed_cleanup_if_due q now) = ready_processed q"
  "insert_error (ensure_completed_cleanup_if_due q now) = insert_error q"
  "sq_run_id (ensure_completed_cleanup_if_due q now) = sq_run_id q"
  "sq_task_id (ensure_completed_cleanup_if_due q now) = sq_task_id q"
  by (auto simp: ensure_completed_cleanup_if_due_def split: option.splits)

lemma live_ok_mark:
  assumes "live_ok lvl P D con hs q" and "ids_ok lvl P" and "Sublist.prefix (con @ hs) P" and "hs = map cb_id bs"
  shows "live_ok lvl P D (con @ hs) [] (mark_processed q now bs)"
proof (cases "bs = []")
  case True
  then show ?thesis using assms(1,4) live_ok_cleanup_start by (simp add: mark_processed_def)
next
  case False
  let ?q = "q\<lparr>sq_checkpoint := (sq_checkpoint q)\<lparr>cp_last_completed := Some (cb_id (last bs))\<rparr>\<rparr>"
  have ne: "hs \<noteq> []" and last: "last (con @ hs) = cb_id (last bs)" using False assms(4) by (simp_all add: last_map)
  have "sorted_wrt (<) (con @ hs)"
    using assms(2,3) by (auto simp: ids_ok_def prefix_def sorted_wrt_append)
  then have le: "con \<noteq> [] \<Longrightarrow> last con \<le> last (con @ hs)" using sorted_le_last [of "con @ hs" "last con"] by simp
  then have m: "seen D con \<subseteq> seen D (con @ hs)" using ne by (auto simp: seen_def)
  have "\<forall>t \<in> set (pending_insert_tasks q). task_ok (set P) (seen D (con @ hs)) t"
    using assms(1) task_ok_mono [OF _ order_refl m] unfolding live_ok_def by blast
  moreover have "pending_processed_fetch q = None"
    using assms(1) ne unfolding live_ok_def by (cases "pending_processed_fetch q") auto
  moreover have "cleanup_ok (con @ hs) c" if "pending_completed_cleanup q = Some c" for c
    using assms(1) that le unfolding live_ok_def cleanup_ok_def by fastforce
  moreover have "set P \<subseteq> seen D (con @ hs) \<union> (\<Union>t \<in> set (pending_insert_tasks q). set (insert_ids t))"
    using assms(1) m unfolding live_ok_def by blast
  ultimately have "live_ok lvl P D (con @ hs) [] ?q"
    using assms(1) ne last unfolding live_ok_def by (simp add: cursor_of_def)
  then show ?thesis using False live_ok_cleanup_start by (simp add: mark_processed_def)
qed

lemma live_ok_fetch_done:
  assumes "live_ok lvl P (present run task d) con [] q" and "ids_ok lvl P" and "Sublist.prefix con P" and "store_ok d"
    and "pending_processed_fetch q = Some f"
    and "fetch_completed_batches run task (fetch_limit f) True (fetch_after f) d = Inr rs"
  shows "Sublist.prefix (con @ map cb_id (fetched_below f (map completed_of rs))) P"
proof -
  have f: "fetch_after f = cursor_of con" "{i \<in> set P. i < fetch_before f} \<subseteq> seen (present run task d) con"
    and D: "present run task d \<subseteq> set P"
    using assms(1,5) unfolding live_ok_def fetch_ok_def by blast+
  obtain ys where P: "P = con @ ys" using assms(3) by (auto simp: prefix_def)
  let ?here = "here_ids run task (last_or_zero con) d"
  have sorted: "sorted_wrt (<) (con @ ys)" "\<forall>i \<in> set (con @ ys). 0 < i" using assms(2) P by (auto simp: ids_ok_def)
  note rest = sorted_rest_after [OF sorted]
  have "i \<in> set ?here \<longleftrightarrow> i \<in> set ys" if "i < fetch_before f" for i
    using rest [of i] f(2) D that P by (auto simp: here_ids_set seen_def last_or_zero_def)
  then have eq: "takeWhile (\<lambda>i. i < fetch_before f) ?here = takeWhile (\<lambda>i. i < fetch_before f) ys"
    using here_ids_sorted [OF assms(4)] sorted(1) by (intro sorted_agree_below) (auto simp: sorted_wrt_append)
  have "Sublist.prefix (map cb_id (fetched_below f (map completed_of rs))) (takeWhile (\<lambda>i. i < fetch_before f) ?here)"
    using assms(4,6) by (rule fetch_below_prefix) (simp add: f(1) cursor_of_def last_or_zero_def)
  then have "Sublist.prefix (map cb_id (fetched_below f (map completed_of rs))) ys"
    unfolding eq using prefix_takeWhile prefix_order.trans by blast
  then show ?thesis by (simp add: P)
qed

lemma live_ok_prefetch:
  assumes "live_ok lvl P D con [] q" and "ids_ok lvl P" and "ready_processed q = []"
    and "lvl \<le> lvl'" and "b \<le> lvl'"
    and "(pending_insert_tasks q = [] \<and> lvl \<le> b) \<or>
      (\<exists>t ts. pending_insert_tasks q = t # ts \<and> b = fold min (map first_batch_id ts) (first_batch_id t))"
  shows "live_ok lvl' P D con [] (q\<lparr>pending_processed_fetch := Some \<lparr>fetch_limit = n,
     fetch_after = cp_last_completed (sq_checkpoint q), fetch_before = b, fetch_handle = Running\<rparr>\<rparr>)"
proof -
  have cover: "set P \<subseteq> seen D con \<union> (\<Union>t \<in> set (pending_insert_tasks q). set (insert_ids t))"
    and tasks: "\<And>t. t \<in> set (pending_insert_tasks q) \<Longrightarrow> task_ok (set P) (seen D con) t"
    using assms(1) unfolding live_ok_def by blast+
  have "{i \<in> set P. i < b} \<subseteq> seen D con"
  proof safe
    fix i
    assume i: "i \<in> set P" "i < b"
    show "i \<in> seen D con"
    proof (rule ccontr)
      assume "i \<notin> seen D con"
      then obtain t where t: "t \<in> set (pending_insert_tasks q)" "i \<in> set (insert_ids t)" using cover i(1) by blast
      then have "pending_insert_tasks q \<noteq> []" by auto
      then obtain u us where u: "pending_insert_tasks q = u # us" "b = fold min (map first_batch_id us) (first_batch_id u)"
        using assms(6) by auto
      have "b \<le> first_batch_id t"
        using fold_min_le [of "map first_batch_id us" "first_batch_id u"] t(1) u by auto
      moreover have "first_batch_id t \<le> i"
        using tasks [OF t(1)] t(2) by (cases "insert_ids t") (auto simp: task_ok_def)
      ultimately show False using i(2) by simp
    qed
  qed
  then show ?thesis using assms(1,3,5) unfolding live_ok_def fetch_ok_def by simp
qed

lemma first_id_level:
  assumes "live_ok lvl P D con hs q" and "ids_ok lvl P" and "t \<in> set (pending_insert_tasks q)"
  shows "first_batch_id t \<le> lvl"
proof -
  have "task_ok (set P) (seen D con) t" using assms(1,3) unfolding live_ok_def by blast
  then have "first_batch_id t \<in> set P" by (cases "insert_ids t") (auto simp: task_ok_def)
  then show ?thesis using assms(2) by (auto simp: ids_ok_def)
qed

lemma drain_finished_insert_fields:
  assumes "insert_error q = None" and "q' = snd (drain_finished_insert q now settle notify)"
  shows "pending_insert q' = pending_insert q" "ready_processed q' = ready_processed q"
    "sq_run_id q' = sq_run_id q" "sq_task_id q' = sq_task_id q"
    and "live_ok lvl P D con hs q \<Longrightarrow> insert_error q' = None \<Longrightarrow> live_ok lvl P D con hs q'"
proof -
  obtain r where r: "drain_insert_loop now settle notify (length (pending_insert_tasks q)) 0 q = (r, q')"
    using assms by (cases "drain_finished_insert q now settle notify") (simp add: drain_finished_insert_def)
  have "same_cursors q q'" using drain_loop_sound [OF r _ assms(1)] by simp
  then show "pending_insert q' = pending_insert q" "ready_processed q' = ready_processed q"
    "sq_run_id q' = sq_run_id q" "sq_task_id q' = sq_task_id q" by (simp_all add: same_cursors_def)
  show "live_ok lvl P D con hs q \<Longrightarrow> insert_error q' = None \<Longrightarrow> live_ok lvl P D con hs q'"
    using live_ok_drain [OF _ r refl assms(1)] by blast
qed

lemma consume_fetch_fields:
  assumes "consume_processed_fetch_task q outcome = Inr q'"
  obtains bs ms where "outcome = Inr (bs, ms)" "ready_processed q' = ready_processed q @ bs"
    "pending_insert q' = pending_insert q" "pending_insert_tasks q' = pending_insert_tasks q"
    "pending_processed_fetch q' = pending_processed_fetch q" "pending_completed_cleanup q' = pending_completed_cleanup q"
    "sq_checkpoint q' = sq_checkpoint q" "insert_error q' = insert_error q" "sq_run_id q' = sq_run_id q" "sq_task_id q' = sq_task_id q"
  using assms by (auto simp: consume_processed_fetch_task_def observe_metric_def Let_def)

lemma insert_step_db:
  assumes "store_ok (db s)" and "task_ok P V t"
    and "d = db s \<or> d = snd (insert_batches enc sz now (sq_run_id (queue s)) (sq_task_id (queue s))
      (insert_training t) (insert_ids t) (insert_payload t) (db s))"
  shows "store_ok d \<and> (present (sq_run_id (queue s)) (sq_task_id (queue s)) d = rows_here s \<or>
    present (sq_run_id (queue s)) (sq_task_id (queue s)) d = rows_here s \<union> set (insert_ids t))"
  using assms(3)
proof
  assume d: "d = snd (insert_batches enc sz now (sq_run_id (queue s)) (sq_task_id (queue s))
      (insert_training t) (insert_ids t) (insert_payload t) (db s))"
  then show ?thesis using insert_ok [OF assms(1)] insert_present [OF prod.collapse [symmetric]]
    unfolding rows_here_def d by metis
qed (use assms(1) in \<open>simp add: rows_here_def\<close>)

lemma insert_keeps:
  assumes "system_ok level s" and "k < length (pending_insert_tasks (queue s))" and "t = pending_insert_tasks (queue s) ! k"
    and "d = db s \<or> d = snd (insert_batches enc sz now (sq_run_id (queue s)) (sq_task_id (queue s))
      (insert_training t) (insert_ids t) (insert_payload t) (db s))"
    and "is_ok r \<Longrightarrow> insert_payload t \<noteq> [] \<Longrightarrow>
      present (sq_run_id (queue s)) (sq_task_id (queue s)) d = rows_here s \<union> set (insert_ids t)"
  shows "system_ok level (s\<lparr>db := d, queue := (queue s)\<lparr>pending_insert_tasks := set_handle k r (pending_insert_tasks (queue s))\<rparr>\<rparr>)"
proof -
  let ?D = "present (sq_run_id (queue s)) (sq_task_id (queue s)) d"
  let ?q = "(queue s)\<lparr>pending_insert_tasks := set_handle k r (pending_insert_tasks (queue s))\<rparr>"
  note ok = system_okD [OF assms(1)]
  have d: "store_ok d" using assms(4) ok(1) insert_ok by metis
  have "live_ok (level (gen s)) (produced_ids s) ?D (consumed s) (handed_ids s) ?q" if e: "insert_error (queue s) = None"
  proof (rule live_ok_handle [OF ok(4) [OF e] assms(2,3)])
    have t: "task_ok (set (produced_ids s)) (seen (rows_here s) (consumed s)) t"
      using ok(4) [OF e] assms(2,3) unfolding live_ok_def by simp
    show "?D = rows_here s \<or> ?D = rows_here s \<union> set (insert_ids t)"
      using insert_step_db [OF ok(1) t assms(4)] by simp
    have "insert_payload t \<noteq> []" using t by (auto simp: task_ok_def)
    then show "is_ok r \<Longrightarrow> ?D = rows_here s \<union> set (insert_ids t)" by (rule assms(5) [rotated])
  qed
  then show ?thesis
    by (intro system_ok_change [OF assms(1)]) (use ok(3) d in \<open>simp_all add: handed_ids_def rows_here_def\<close>)
qed

context id_source
begin

lemma prefetch_keeps:
  assumes "system_ok level s" and "insert_error (queue s) = None" and "handed s = []"
    and "ensure_processed_prefetch fresh (queue s) (gen s) = (q', g')" and "room (gen s) 1"
  shows "system_ok level (s\<lparr>queue := q', gen := g'\<rparr>)"
proof (cases "ready_processed (queue s) \<noteq> [] \<or> pending_processed_fetch (queue s) \<noteq> None")
  case True
  then have "s\<lparr>queue := q', gen := g'\<rparr> = s" using assms(4) by (simp add: ensure_processed_prefetch_def)
  then show ?thesis using assms(1) by simp
next
  case False
  let ?q = "queue s" and ?lvl = "level (gen s)"
  note ok = system_okD [OF assms(1)]
  have live: "live_ok ?lvl (produced_ids s) (rows_here s) (consumed s) [] ?q"
    using ok(4) [OF assms(2)] assms(3) by (simp add: handed_ids_def)
  obtain b where b: "?lvl \<le> level g'" "b \<le> level g'"
    "(pending_insert_tasks ?q = [] \<and> ?lvl \<le> b) \<or>
      (\<exists>t ts. pending_insert_tasks ?q = t # ts \<and> b = fold min (map first_batch_id ts) (first_batch_id t))"
    and q': "q' = ?q\<lparr>pending_processed_fetch := Some \<lparr>fetch_limit = max (completed_batch_fetch_limit (sq_config ?q)) 1,
      fetch_after = cp_last_completed (sq_checkpoint ?q), fetch_before = b, fetch_handle = Running\<rparr>\<rparr>"
  proof (cases "pending_insert_tasks ?q")
    case Nil
    obtain ids g1 where fr: "fresh (gen s) 1 = (ids, g1)" by fastforce
    from fresh_sound [OF assms(5) fr] obtain i where i: "ids = [i]" "?lvl \<le> i" "i < level g1" "?lvl \<le> level g1"
      by (cases ids) auto
    have "g' = g1" "q' = ?q\<lparr>pending_processed_fetch := Some \<lparr>fetch_limit = max (completed_batch_fetch_limit (sq_config ?q)) 1,
      fetch_after = cp_last_completed (sq_checkpoint ?q), fetch_before = i, fetch_handle = Running\<rparr>\<rparr>"
      using assms(4) False Nil fr i(1) by (auto simp: ensure_processed_prefetch_def)
    then show ?thesis using that [of i] i Nil by simp
  next
    case (Cons t ts)
    let ?b = "fold min (map first_batch_id ts) (first_batch_id t)"
    have "?b \<le> first_batch_id t" using fold_min_le by blast
    then have "?b \<le> ?lvl" using first_id_level [OF live ok(2), of t] Cons by simp
    moreover have "g' = gen s" "q' = ?q\<lparr>pending_processed_fetch := Some \<lparr>fetch_limit = max (completed_batch_fetch_limit (sq_config ?q)) 1,
      fetch_after = cp_last_completed (sq_checkpoint ?q), fetch_before = ?b, fetch_handle = Running\<rparr>\<rparr>"
      using assms(4) False Cons by (auto simp: ensure_processed_prefetch_def)
    ultimately show ?thesis using that [of ?b] Cons by simp
  qed
  have "ready_processed ?q = []" using False by simp
  from live_ok_prefetch [OF live ok(2) this b] show ?thesis
    using ok(1,3) b(1) assms(3)
    by (intro system_ok_change [OF assms(1)]) (simp_all add: q' rows_here_def handed_ids_def)
qed

lemma step_keeps:
  assumes "system_step fresh enc s s'" and "system_ok level s" and "room (gen s) (Suc (length (ingested s')))"
  shows "system_ok level s'"
proof -
  note ok = system_okD [OF assms(2)]
  have hist: "map snd (produced s) @ pending_insert (queue s) = ingested s"
    using assms(2) unfolding system_ok_def by blast
  then have short: "length (pending_insert (queue s)) \<le> length (ingested s)" by (metis length_append le_add2)
  note change = system_ok_change [OF assms(2)]
  from assms(1) show ?thesis
  proof cases
    case (ss_ingest fb bs)
    let ?q0 = "(queue s)\<lparr>training_sizing := (training_sizing (queue s))\<lparr>previous_remaining :=
            map_option (\<lambda>r. r - sum_list (map (\<lambda>b. nr_samples (eb_samples b)) bs))
              (previous_remaining (training_sizing (queue s)))\<rparr>,
          pending_insert := pending_insert (queue s) @ map (\<lambda>b. (b, fb)) bs\<rparr>"
    obtain q' g' where r: "ensure_insert_pump fresh ?q0 (gen s) = (q', g')" by fastforce
    have "length (pending_insert ?q0) \<le> Suc (length (ingested s'))" using short ss_ingest(1) by simp
    then have "room (gen s) (length (pending_insert ?q0))" by (rule room_mono [OF assms(3)])
    from ensure_pump_sound [OF this r] obtain new where "pumped (level (gen s)) (level g') ?q0 q' new" by blast
    from pump_keeps [OF assms(2) ss_ingest(2) _ _ _ this] show ?thesis
      using r by (simp add: ss_ingest(1) ingest_def same_live_def)
  next
    case ss_pump
    obtain q' g' where r: "ensure_insert_pump fresh (queue s) (gen s) = (q', g')" by fastforce
    have ing: "ingested s' = ingested s" by (simp add: ss_pump(1) after_pump_def)
    have "room (gen s) (length (pending_insert (queue s)))" using room_mono [OF assms(3)] short ing by simp
    from ensure_pump_sound [OF this r] obtain new where "pumped (level (gen s)) (level g') (queue s) q' new" by blast
    from pump_keeps [OF assms(2) ss_pump(2) same_live_refl refl _ this, of "[]"] have
      "system_ok level ((after_pump s (q', g'))\<lparr>ingested := ingested s\<rparr>)" by simp
    moreover have "(after_pump s (q', g'))\<lparr>ingested := ingested s\<rparr> = after_pump s (q', g')" by (simp add: after_pump_def)
    ultimately show ?thesis by (simp only: ss_pump(1) r)
  next
    case (ss_prefetch q' g')
    then show ?thesis using prefetch_keeps [OF assms(2)] room_mono [OF assms(3), of 1] by simp
  next
    case (ss_drain_insert now settle notify)
    note f = drain_finished_insert_fields [OF ss_drain_insert(2) refl, where now = now and settle = settle and notify = notify]
    show ?thesis unfolding ss_drain_insert(1)
      by (rule change) (use ok f ss_drain_insert(2) in \<open>simp_all add: rows_here_def handed_ids_def\<close>)
  next
    case (ss_workers db')
    have p: "present (sq_run_id (queue s)) (sq_task_id (queue s)) db' = rows_here s"
      using worker_change_present [OF ss_workers(2)] by (simp add: rows_here_def)
    show ?thesis unfolding ss_workers(1)
      by (rule change) (use ok worker_change_ok [OF ss_workers(2)] p in \<open>simp_all add: rows_here_def handed_ids_def\<close>)
  next
    case (ss_take bs q')
    have q': "bs = ready_processed (queue s)" "q' = (queue s)\<lparr>ready_processed := []\<rparr>"
      using ss_take(4) by (simp_all add: take_ready_processed_def)
    show ?thesis unfolding ss_take(1)
    proof (rule change)
      assume "insert_error (queue (s\<lparr>queue := q', handed := bs\<rparr>)) = None"
      then show "live_ok (level (gen (s\<lparr>queue := q', handed := bs\<rparr>))) (produced_ids s) (rows_here (s\<lparr>queue := q', handed := bs\<rparr>))
        (consumed (s\<lparr>queue := q', handed := bs\<rparr>)) (handed_ids (s\<lparr>queue := q', handed := bs\<rparr>)) (queue (s\<lparr>queue := q', handed := bs\<rparr>))"
        using ok(4) ss_take(2) by (simp add: q' rows_here_def handed_ids_def live_ok_def)
    qed (use ok(1,3) ss_take(3) q' in \<open>simp_all add: handed_ids_def\<close>)
  next
    case (ss_mark now)
    have pre: "Sublist.prefix (consumed s @ handed_ids s) (produced_ids s)"
      using ok(3) by (metis append_assoc append_prefixD)
    note live = live_ok_mark [OF ok(4) [OF ss_mark(2)] ok(2) pre, of "handed s" now]
    have f: "pending_insert (mark_processed q now bs) = pending_insert q"
      "ready_processed (mark_processed q now bs) = ready_processed q"
      "sq_run_id (mark_processed q now bs) = sq_run_id q" "sq_task_id (mark_processed q now bs) = sq_task_id q" for q bs
      by (simp_all add: mark_processed_def)
    show ?thesis unfolding ss_mark(1)
      by (rule change) (use ok(1,3) live in \<open>simp_all add: handed_ids_def rows_here_def f\<close>)
  next
    case (ss_cleanup_start now)
    show ?thesis unfolding ss_cleanup_start(1)
      by (rule change) (use ok live_ok_cleanup_start in \<open>simp_all add: handed_ids_def rows_here_def\<close>)
  next
    case (ss_drain_cleanup now d q')
    have q': "pending_insert q' = pending_insert (queue s)" "ready_processed q' = ready_processed (queue s)"
      "sq_run_id q' = sq_run_id (queue s)" "sq_task_id q' = sq_task_id (queue s)" "insert_error q' = insert_error (queue s)"
      "live_ok lvl P D con hs (queue s) \<Longrightarrow> live_ok lvl P D con hs q'" for lvl P D con hs
      using ss_drain_cleanup(3)
      by (auto simp: drain_finished_completed_cleanup_def consume_completed_cleanup_task_def live_ok_def
          split: option.splits task.splits)
    show ?thesis unfolding ss_drain_cleanup(1)
      by (rule change) (use ok q' in \<open>simp_all add: handed_ids_def rows_here_def\<close>)
  next
    case (ss_cleanup_done c db' r)
    let ?q = "(queue s)\<lparr>pending_completed_cleanup := Some (c\<lparr>cleanup_handle := Done r\<rparr>)\<rparr>"
    let ?D = "present (sq_run_id (queue s)) (sq_task_id (queue s)) db'"
    have db': "store_ok db'" using ss_cleanup_done(4) ok(1) cleanup_ok by metis
    have live: "live_ok (level (gen s)) (produced_ids s) ?D (consumed s) (handed_ids s) ?q" if "insert_error (queue s) = None"
    proof -
      note l = ok(4) [OF that]
      have c: "cleanup_ok (consumed s) c" and D: "rows_here s \<subseteq> set (produced_ids s)"
        using l ss_cleanup_done(2) unfolding live_ok_def by blast+
      have "?D \<subseteq> rows_here s" "rows_here s \<subseteq> seen ?D (consumed s)"
        using ss_cleanup_done(4) cleanup_present [OF ok(1)] c unfolding rows_here_def seen_def cleanup_ok_def by fastforce+
      then have "live_ok (level (gen s)) (produced_ids s) ?D (consumed s) (handed_ids s) (queue s)"
        using live_ok_rows [OF l] D by blast
      then show ?thesis using c unfolding live_ok_def cleanup_ok_def by simp
    qed
    show ?thesis unfolding ss_cleanup_done(1)
      by (rule change) (use ok(3) db' live in \<open>simp_all add: handed_ids_def rows_here_def\<close>)
  next
    case (ss_insert_done k t now r db' m)
    let ?r = "case r of Inl e \<Rightarrow> Inl e | Inr _ \<Rightarrow> Inr m"
    let ?D = "present (sq_run_id (queue s)) (sq_task_id (queue s)) db'"
    have db': "db' = snd (insert_batches enc (\<lambda>b. nr_samples (eb_samples b)) now (sq_run_id (queue s)) (sq_task_id (queue s))
      (insert_training t) (insert_ids t) (insert_payload t) (db s))" using ss_insert_done(5) by simp
    have D: "is_ok ?r \<Longrightarrow> insert_payload t \<noteq> [] \<Longrightarrow> ?D = rows_here s \<union> set (insert_ids t)"
    proof (cases r)
      case (Inr ids)
      assume "insert_payload t \<noteq> []"
      with insert_present_ok [OF ss_insert_done(5) [unfolded Inr]] show ?thesis by (simp add: rows_here_def)
    qed simp
    show ?thesis unfolding ss_insert_done(1) using insert_keeps [OF assms(2) ss_insert_done(2,3) disjI2 [OF db'] D] by simp
  next
    case (ss_insert_lost k t db' now e)
    show ?thesis unfolding ss_insert_lost(1)
      by (rule insert_keeps [OF assms(2) ss_insert_lost(2,3,5)]) simp
  next
    case (ss_fetch_done f outcome e ms)
    let ?f = "f\<lparr>fetch_handle := Done outcome\<rparr>"
    have live: "live_ok (level (gen s)) (produced_ids s) (rows_here s) (consumed s) (handed_ids s)
        ((queue s)\<lparr>pending_processed_fetch := Some ?f\<rparr>)" if "insert_error (queue s) = None"
    proof -
      note l = ok(4) [OF that]
      have f: "fetch_ok (level (gen s)) (produced_ids s) (seen (rows_here s) (consumed s)) (consumed s) f" "handed_ids s = []"
        "ready_processed (queue s) = []"
        using l ss_fetch_done(2) unfolding live_ok_def by blast+
      have l0: "live_ok (level (gen s)) (produced_ids s) (present (sq_run_id (queue s)) (sq_task_id (queue s)) (db s)) (consumed s) [] (queue s)"
        and pre: "Sublist.prefix (consumed s) (produced_ids s)"
        using l ok(3) f(2,3) by (simp_all add: rows_here_def)
      have "Sublist.prefix (consumed s @ map cb_id bs) (produced_ids s)" if out: "outcome = Inr (bs, ms')" for bs ms'
      proof -
        obtain rs where "fetch_completed_batches (sq_run_id (queue s)) (sq_task_id (queue s)) (fetch_limit f) True (fetch_after f) (db s) = Inr rs"
          "bs = fetched_below f (map completed_of rs)"
          using ss_fetch_done(4) out by (auto split: sum.splits)
        then show ?thesis using live_ok_fetch_done [OF l0 ok(2) pre ok(1) ss_fetch_done(2)] by simp
      qed
      then have "fetch_ok (level (gen s)) (produced_ids s) (seen (rows_here s) (consumed s)) (consumed s) ?f"
        using f(1) unfolding fetch_ok_def by simp
      then show ?thesis using l f(2,3) unfolding live_ok_def by simp
    qed
    show ?thesis unfolding ss_fetch_done(1)
      by (rule change) (use ok(1,3) live in \<open>simp_all add: handed_ids_def rows_here_def\<close>)
  next
    case (ss_drain_fetch q')
    show ?thesis
    proof (cases "\<exists>f outcome. pending_processed_fetch (queue s) = Some f \<and> fetch_handle f = Done outcome")
      case False
      then have "q' = queue s"
        using ss_drain_fetch(3) by (auto simp: drain_finished_processed_fetch_def split: option.splits task.splits)
      then show ?thesis using assms(2) by (simp add: ss_drain_fetch(1))
    next
      case True
      then obtain f outcome where f: "pending_processed_fetch (queue s) = Some f" "fetch_handle f = Done outcome" by blast
      then have "consume_processed_fetch_task ((queue s)\<lparr>pending_processed_fetch := None\<rparr>) outcome = Inr q'"
        using ss_drain_fetch(3) by (simp add: drain_finished_processed_fetch_def)
      then obtain bs ms where q': "outcome = Inr (bs, ms)" "ready_processed q' = ready_processed (queue s) @ bs"
        "pending_insert q' = pending_insert (queue s)" "pending_insert_tasks q' = pending_insert_tasks (queue s)"
        "pending_processed_fetch q' = None" "pending_completed_cleanup q' = pending_completed_cleanup (queue s)"
        "sq_checkpoint q' = sq_checkpoint (queue s)" "insert_error q' = insert_error (queue s)"
        "sq_run_id q' = sq_run_id (queue s)" "sq_task_id q' = sq_task_id (queue s)"
        by (rule consume_fetch_fields) simp
      note l = ok(4) [OF ss_drain_fetch(2)]
      have "handed_ids s = []" "ready_processed (queue s) = []"
        "Sublist.prefix (consumed s @ map cb_id bs) (produced_ids s)"
        using l f q'(1) unfolding live_ok_def fetch_ok_def by blast+
      moreover have "live_ok (level (gen s)) (produced_ids s) (rows_here s) (consumed s) (handed_ids s) q'"
        using l q' unfolding live_ok_def by simp
      ultimately show ?thesis unfolding ss_drain_fetch(1)
        by (intro change) (use ok(1) q' in \<open>simp_all add: handed_ids_def rows_here_def\<close>)
    qed
  qed
qed

end

subsection \<open>Reachable states\<close>

text \<open>The sampler starts on a new task: nothing of it is in the store, the cursors are empty.\<close>

definition system_start :: "('g \<Rightarrow> i64) \<Rightarrow> ('r, 'p, 'v, 'o, 'g) system \<Rightarrow> bool" where
  "system_start level s \<longleftrightarrow>
     (\<exists>run task config n now. queue s = queue_new run task config
        \<lparr>cp_last_completed = None, cp_last_produced = None, cp_batch_size = n\<rparr> now) \<and>
     store_ok (db s) \<and> rows_here s = {} \<and> 0 < level (gen s) \<and>
     handed s = [] \<and> ingested s = [] \<and> produced s = [] \<and> consumed s = []"

inductive system_reachable ::
  "('g \<Rightarrow> nat \<Rightarrow> bool) \<Rightarrow> ('g \<Rightarrow> i64) \<Rightarrow> ('g \<Rightarrow> nat \<Rightarrow> i64 list \<times> 'g) \<Rightarrow> ('r evaluation_batch \<Rightarrow> string + 'p)
    \<Rightarrow> ('r, 'p, 'v, 'o, 'g) system \<Rightarrow> bool"
  for room level fresh enc where
  sr_start: "system_start level s \<Longrightarrow> system_reachable room level fresh enc s"
| sr_step: "system_reachable room level fresh enc s \<Longrightarrow> system_step fresh enc s s' \<Longrightarrow>
    room (gen s) (Suc (length (ingested s'))) \<Longrightarrow> system_reachable room level fresh enc s'"

lemma system_start_ok: "system_start level s \<Longrightarrow> system_ok level s"
  by (auto simp: system_start_def system_ok_def queue_new_def ids_ok_def produced_ids_def handed_ids_def
      live_ok_def cursor_of_def)

context id_source
begin

lemma reachable_system_ok: "system_reachable room level fresh enc s \<Longrightarrow> system_ok level s"
  by (induction rule: system_reachable.induct) (simp_all add: system_start_ok step_keeps)

end

lemma consumed_prefix:
  assumes "system_ok level s"
  shows "consumed s = map fst (take (length (consumed s)) (produced s))"
    and "map snd (take (length (consumed s)) (produced s)) = take (length (consumed s)) (ingested s)"
    and "sorted_wrt (<) (map fst (produced s))"
proof -
  have "Sublist.prefix (consumed s) (produced_ids s)" using system_okD(3) [OF assms] by (metis append_prefixD)
  then obtain ys where ys: "map fst (produced s) = consumed s @ ys" by (auto simp: produced_ids_def prefix_def)
  then have len: "length (consumed s) \<le> length (produced s)" by (metis length_append length_map le_add1)
  show "consumed s = map fst (take (length (consumed s)) (produced s))"
    using ys by (metis append_eq_conv_conj take_map)
  have "ingested s = map snd (produced s) @ pending_insert (queue s)"
    using assms by (simp add: system_ok_def)
  then show "map snd (take (length (consumed s)) (produced s)) = take (length (consumed s)) (ingested s)"
    using len by (simp add: take_map)
  show "sorted_wrt (<) (map fst (produced s))"
    using system_okD(2) [OF assms] by (simp add: ids_ok_def produced_ids_def)
qed

text \<open>C1. The sampler consumes in production order: in every state the queue, the store and the other
  workers can reach together, whatever is lost, delayed, retried or reordered on the way, the
  \<open>k\<close>-th result consumed is that of the \<open>k\<close>-th batch the sampler ingested, and the identifiers
  increase strictly, so no batch is skipped and none is consumed twice.\<close>

theorem consumption_follows_production:
  assumes "system_reachable id_room (\<lambda>g. stand (fst g)) next_batch_ids enc s"
  shows "consumed s = map fst (take (length (consumed s)) (produced s)) \<and>
    map snd (take (length (consumed s)) (produced s)) = take (length (consumed s)) (ingested s) \<and>
    sorted_wrt (<) (map fst (produced s))"
  using consumed_prefix [OF ids.reachable_system_ok [OF assms]] by blast

lemma no_batch_lost_aux:
  assumes "system_ok level s" and "insert_error (queue s) = None" and "i \<in> set (map fst (produced s))"
  shows "i \<in> set (consumed s) \<or> i \<in> rows_here s \<or> (\<exists>t \<in> set (pending_insert_tasks (queue s)). i \<in> set (insert_ids t))"
proof -
  note ok = system_okD [OF assms(1)]
  have "Sublist.prefix (consumed s) (produced_ids s)" using ok(3) by (metis append_prefixD)
  then obtain ys where ys: "produced_ids s = consumed s @ ys" by (auto simp: prefix_def)
  have "i \<in> set (consumed s)" if "consumed s \<noteq> []" "i \<le> last (consumed s)"
  proof (rule ccontr)
    assume "i \<notin> set (consumed s)"
    then have "i \<in> set ys" using assms(3) ys by (metis UnE produced_ids_def set_append)
    moreover have "last (consumed s) \<in> set (consumed s)" using that(1) by simp
    ultimately show False using ok(2) that(2) unfolding ids_ok_def ys by (fastforce simp: sorted_wrt_append)
  qed
  moreover have "i \<in> seen (rows_here s) (consumed s) \<union> (\<Union>t \<in> set (pending_insert_tasks (queue s)). set (insert_ids t))"
    using ok(4) [OF assms(2)] assms(3) unfolding live_ok_def produced_ids_def by blast
  ultimately show ?thesis by (auto simp: seen_def)
qed

text \<open>C2. No batch is lost: until the queue reports an error, every batch the sampler produced has been
  consumed, or is a row of its task in the store, or is in an insert task still in flight.\<close>

theorem no_batch_is_lost:
  assumes "system_reachable id_room (\<lambda>g. stand (fst g)) next_batch_ids enc s"
    and "insert_error (queue s) = None" and "(i, b) \<in> set (produced s)"
  shows "i \<in> set (consumed s) \<or> i \<in> rows_here s \<or> (\<exists>t \<in> set (pending_insert_tasks (queue s)). i \<in> set (insert_ids t))"
  using no_batch_lost_aux [OF ids.reachable_system_ok [OF assms(1)] assms(2)] assms(3) by force

end
