(* ===== verification/Queue_Demo.thy ===== *)
theory Queue_Demo
  imports Queue_Order
begin

section \<open>One batch through the whole system\<close>

text \<open>
  A concrete run of the system: the sampler ingests a batch, the insert commits, an
  evaluator claims and completes it, the sampler fetches it, hands it out and marks it
  consumed. It shows that the hypotheses of the properties of \<open>Queue_Order\<close> can hold
  at a state where something has been consumed.
\<close>

definition trip_config :: sampler_queue_config where
  "trip_config = demo_queue_config"

definition trip_batch :: "nat evaluation_batch" where
  "trip_batch = \<lparr>eb_stratification = None,
     eb_samples = \<lparr>nr_samples = 1, payload = IndexedBatch [[]] [0] [0] [] [f64_one]\<rparr>,
     eb_accumulator = accumulator_scalar\<rparr>"

definition trip_enc :: "nat evaluation_batch \<Rightarrow> string + nat" where
  "trip_enc b = Inr 10"

definition trip_renc :: "nat option \<times> nat \<Rightarrow> store_error + (nat option \<times> nat)" where
  "trip_renc x = Inr x"

type_synonym trip = "(nat, nat, nat, nat, batch_id_generator \<times> (nat \<Rightarrow> u64)) system"

definition trip_db :: "(nat, nat, nat) store" where
  "trip_db = empty_store\<lparr>node_rows := [demo_node]\<rparr>"

definition trip0 :: trip where
  "trip0 = \<lparr>queue = queue_new 7 3 trip_config \<lparr>cp_last_completed = None, cp_last_produced = None, cp_batch_size = 16\<rparr> 0,
     db = trip_db, gen = (generator_new 1, \<lambda>_. 5), handed = [], ingested = [], produced = [], consumed = []\<rparr>"

abbreviation trip_id :: i64 where "trip_id \<equiv> 20971584"

lemma trip_ids: "next_batch_ids (generator_new 1, \<lambda>_. 5) 1 =
    ([trip_id], (\<lparr>last_millis = 5, id_counter = 1, process_entropy = 1\<rparr>, \<lambda>_. 5))"
  by (simp add: next_batch_ids_def generator_new_def tick_def id_of_def batch_id_layout saturating_add_u16_def)

abbreviation trip_gen :: "batch_id_generator \<times> (nat \<Rightarrow> u64)" where
  "trip_gen \<equiv> (\<lparr>last_millis = 5, id_counter = 1, process_entropy = 1\<rparr>, \<lambda>_. 5)"

abbreviation trip_task :: "(store_error + insert_metrics) task \<Rightarrow> nat insert_task" where
  "trip_task h \<equiv> \<lparr>first_batch_id = trip_id, batch_count = 1, local_pending_at_start = 1, db_pending_at_start = None,
     insert_ids = [trip_id], insert_payload = [trip_batch], insert_training = False, insert_handle = h\<rparr>"

definition trip1 :: trip where
  "trip1 = (after_pump trip0 (ingest next_batch_ids (queue trip0) (gen trip0) [trip_batch] False))
     \<lparr>ingested := ingested trip0 @ map (\<lambda>b. (b, False)) [trip_batch]\<rparr>"

lemma trip1_fields:
  "queue trip1 = (queue trip0)\<lparr>pending_insert_tasks := [trip_task Running],
     sq_checkpoint := \<lparr>cp_last_completed = None, cp_last_produced = Some trip_id, cp_batch_size = 16\<rparr>\<rparr>"
  "db trip1 = trip_db" "gen trip1 = trip_gen" "handed trip1 = []" "consumed trip1 = []"
  "ingested trip1 = [(trip_batch, False)]" "produced trip1 = [(trip_id, trip_batch, False)]"
  using trip_ids
  by (simp_all add: trip1_def trip0_def ingest_def ensure_insert_pump_def queue_new_def trip_config_def
      demo_queue_config_def spawn_insert_def bundle_count_def after_pump_def task_entries_def task_batches_def
      configured_size_def clamp_usize_def effective_max_batch_size_def min_batch_size_def training_sizing_default_def
      numeral_2_eq_2 Let_def)
abbreviation trip_metrics :: insert_metrics where
  "trip_metrics \<equiv> \<lparr>serialize_ms = f64_zero, payload_bytes = 0, insert_batches_exec_ms = f64_zero,
     insert_inputs_exec_ms = f64_zero, commit_ms = f64_zero, end_to_end_ms = f64_zero\<rparr>"

abbreviation trip_row :: batch_row where
  "trip_row \<equiv> new_row 1 7 3 False trip_id 1"

definition trip_db2 :: "(nat, nat, nat) store" where
  "trip_db2 = snd (insert_batches trip_enc (\<lambda>b. nr_samples (eb_samples b)) 1 7 3 False [trip_id] [trip_batch] trip_db)"

definition trip_db3 :: "(nat, nat, nat) store" where
  "trip_db3 = snd (claim_batch demo_enc (\<lambda>_. False) 2 7 ''u'' ''t'' trip_db2)"

definition trip_db4 :: "(nat, nat, nat) store" where
  "trip_db4 = snd (submit_batch_results trip_renc 3 trip_id ''u'' ''t'' (None, 42) 1 trip_db3)"

lemma trip_insert:
  "insert_batches trip_enc (\<lambda>b. nr_samples (eb_samples b)) 1 7 3 False [trip_id] [trip_batch] trip_db = (Inr [trip_id], trip_db2)"
  "rows trip_db2 = [trip_row]" "inputs trip_db2 trip_id = Some 10" "node_rows trip_db2 = [demo_node]" "results trip_db2 = (\<lambda>_. None)"
  unfolding trip_db2_def
  by (simp_all add: insert_batches_def trip_enc_def trip_db_def empty_store_def insert_rows_def trip_batch_def)

lemma trip_claim:
  "rows trip_db3 = [mark_claimed 2 (Some ''n'') ''u'' ''t'' trip_row]" "results trip_db3 = (\<lambda>_. None)"
  unfolding trip_db3_def
  by (simp_all add: claim_batch_def next_batch_def existing_claim_def trip_insert new_row_def evaluator_live_def
      demo_node_def demo_enc_def)

lemma trip_submit:
  "rows trip_db4 = [mark_completed 3 (mark_claimed 2 (Some ''n'') ''u'' ''t'' trip_row)]"
  "results trip_db4 trip_id = Some \<lparr>result_values = None, batch_observable = Some 42, total_eval_time_ms = 1, result_completed_at = 3\<rparr>"
  unfolding trip_db4_def
  by (simp_all add: submit_batch_results_def trip_renc_def owned_row_def trip_claim mark_claimed_def new_row_def)

abbreviation trip_done :: "batch_row \<times> (nat, nat) result_row" where
  "trip_done \<equiv> (mark_completed 3 (mark_claimed 2 (Some ''n'') ''u'' ''t'' trip_row),
     \<lparr>result_values = None, batch_observable = Some 42, total_eval_time_ms = 1, result_completed_at = 3\<rparr>)"

lemma trip_fetch: "fetch_completed_batches 7 3 16 True None trip_db4 = Inr [trip_done]"
  using trip_submit
  by (simp add: fetch_completed_batches_def task_rows_after_def completed_prefix_def first_incomplete_def
      mark_completed_def mark_claimed_def new_row_def join_result_def completed_of_row_def)

definition trip2 :: trip where
  "trip2 = trip1\<lparr>db := trip_db2, queue := (queue trip1)\<lparr>pending_insert_tasks := [trip_task (Done (Inr trip_metrics))]\<rparr>\<rparr>"

definition trip4 :: trip where "trip4 = trip2\<lparr>db := trip_db3, db := trip_db4\<rparr>"

definition trip5 :: trip where
  "trip5 = trip4\<lparr>queue := snd (drain_finished_insert (queue trip4) 4 (Inr 0) (Inr ()))\<rparr>"

lemma trip5_fields:
  "pending_insert_tasks (queue trip5) = []" "pending_insert (queue trip5) = []" "insert_error (queue trip5) = None"
  "ready_processed (queue trip5) = []" "pending_processed_fetch (queue trip5) = None"
  "sq_run_id (queue trip5) = 7" "sq_task_id (queue trip5) = 3" "cp_last_completed (sq_checkpoint (queue trip5)) = None"
  "completed_batch_fetch_limit (sq_config (queue trip5)) = 16"
  "db trip5 = trip_db4" "gen trip5 = trip_gen" "handed trip5 = []" "consumed trip5 = []"
  by (simp_all add: trip5_def trip4_def trip2_def trip1_fields trip0_def queue_new_def drain_finished_insert_def
      consume_insert_task_def swap_remove_def trip_config_def demo_queue_config_def)
    (simp add: observe_insert_def observe_metric_def Let_def)
abbreviation trip_fetch_task :: "(nat, nat) result_row itself \<Rightarrow> i64 \<Rightarrow>
  (store_error + (batch_row \<times> (nat, nat) result_row) completed_batch list \<times> f64) task \<Rightarrow> (batch_row \<times> (nat, nat) result_row) fetch_task" where
  "trip_fetch_task ty b h \<equiv> \<lparr>fetch_limit = 16, fetch_after = None, fetch_before = b, fetch_handle = h\<rparr>"

definition trip6 :: trip where
  "trip6 = (let (q, g) = ensure_processed_prefetch next_batch_ids (queue trip5) (gen trip5) in trip5\<lparr>queue := q, gen := g\<rparr>)"

lemma trip_ids2: "next_batch_ids trip_gen 1 =
    ([20971585], (\<lparr>last_millis = 5, id_counter = 2, process_entropy = 1\<rparr>, \<lambda>_. 5))"
  by (simp add: next_batch_ids_def tick_def id_of_def batch_id_layout saturating_add_u16_def)

lemma trip6_fields:
  "queue trip6 = (queue trip5)\<lparr>pending_processed_fetch := Some (trip_fetch_task TYPE((nat, nat) result_row) 20971585 Running)\<rparr>"
  "db trip6 = trip_db4" "handed trip6 = []" "consumed trip6 = []"
  using trip_ids2 by (simp_all add: trip6_def ensure_processed_prefetch_def trip5_fields)

definition trip7 :: trip where
  "trip7 = trip6\<lparr>queue := (queue trip6)\<lparr>pending_processed_fetch :=
     Some ((trip_fetch_task TYPE((nat, nat) result_row) 20971585 Running)\<lparr>fetch_handle :=
       Done (Inr ([completed_of trip_done], f64_zero))\<rparr>)\<rparr>\<rparr>"

definition trip8 :: trip where
  "trip8 = trip7\<lparr>queue := (case drain_finished_processed_fetch (queue trip7) of Inr q \<Rightarrow> q)\<rparr>"

definition trip9 :: trip where
  "trip9 = trip8\<lparr>queue := snd (take_ready_processed (queue trip8)), handed := fst (take_ready_processed (queue trip8))\<rparr>"

definition trip10 :: trip where
  "trip10 = trip9\<lparr>queue := mark_processed (queue trip9) 6 (handed trip9), handed := [],
     consumed := consumed trip9 @ map cb_id (handed trip9)\<rparr>"

lemma trip8_fields:
  "drain_finished_processed_fetch (queue trip7) = Inr (queue trip8)"
  "ready_processed (queue trip8) = [completed_of trip_done]" "insert_error (queue trip8) = None"
  "handed trip8 = []" "consumed trip8 = []"
  by (simp_all add: trip8_def trip7_def trip6_fields trip5_fields drain_finished_processed_fetch_def
      consume_processed_fetch_task_def observe_metric_def Let_def)

lemma trip9_fields:
  "handed trip9 = [completed_of trip_done]" "insert_error (queue trip9) = None" "consumed trip9 = []"
  by (simp_all add: trip9_def take_ready_processed_def trip8_fields)

lemma trip10_consumed: "consumed trip10 = [trip_id]"
  by (simp add: trip10_def trip9_fields completed_of_def mark_completed_def mark_claimed_def new_row_def)

subsection \<open>The run is a run of the system\<close>

abbreviation trip_reachable :: "trip \<Rightarrow> bool" where
  "trip_reachable \<equiv> system_reachable id_room (\<lambda>g. stand (fst g)) next_batch_ids trip_enc"

lemma trip_room:
  "id_room (generator_new 1, \<lambda>_. 5) 9" "id_room trip_gen 9"
  by (auto simp: id_room_def generator_ok_def generator_new_def batch_id_layout intro!: exI [of _ 5])

lemma trip_db_ok: "store_ok trip_db"
proof -
  have "queue_reachable demo_enc demo_enc (\<lambda>x. x) demo_renc trip_db"
    unfolding trip_db_def by (rule reachable_step, rule reachable_empty, rule queue_step.step_nodes)
  then show ?thesis by (rule reachable_ok)
qed

lemma trip0_reachable: "trip_reachable trip0"
proof (rule sr_start)
  have "rows_here trip0 = {}"
    by (simp add: rows_here_def trip0_def present_def trip_db_def empty_store_def)
  then show "system_start (\<lambda>g. stand (fst g)) trip0"
    using trip_db_ok unfolding system_start_def
    by (intro conjI exI [of _ 7] exI [of _ 3] exI [of _ trip_config] exI [of _ 16] exI [of _ 0])
      (simp_all add: trip0_def stand_def generator_new_def)
qed

lemma trip1_reachable: "trip_reachable trip1"
proof (rule sr_step [OF trip0_reachable])
  show "system_step next_batch_ids trip_enc trip0 trip1"
    unfolding trip1_def by (rule ss_ingest) (simp add: trip0_def queue_new_def)
  show "id_room (gen trip0) (Suc (length (ingested trip1)))"
    using ids.room_mono [OF trip_room(1)] by (simp add: trip0_def trip1_fields)
qed

lemma trip_further:
  assumes "trip_reachable s" and "system_step next_batch_ids trip_enc s s'" and "gen s = trip_gen"
    and "ingested s' = [(trip_batch, False)]"
  shows "trip_reachable s'"
proof (rule sr_step [OF assms(1,2)])
  have "id_room trip_gen 2" by (rule ids.room_mono [OF trip_room(2)]) simp
  then show "id_room (gen s) (Suc (length (ingested s')))" by (simp add: assms(3,4) numeral_2_eq_2)
qed

lemma trip2_reachable: "trip_reachable trip2"
proof (rule trip_further [OF trip1_reachable])
  show "system_step next_batch_ids trip_enc trip1 trip2"
  proof -
    have "trip2 = trip1\<lparr>db := trip_db2, queue := (queue trip1)\<lparr>pending_insert_tasks :=
        set_handle 0 (case Inr [trip_id] of Inl e \<Rightarrow> Inl e | Inr _ \<Rightarrow> Inr trip_metrics) (pending_insert_tasks (queue trip1))\<rparr>\<rparr>"
      by (simp add: trip2_def trip1_fields set_handle_def)
    moreover have "system_step next_batch_ids trip_enc trip1 \<dots>"
    proof (rule ss_insert_done)
      show "insert_batches trip_enc (\<lambda>b. nr_samples (eb_samples b)) 1 (sq_run_id (queue trip1)) (sq_task_id (queue trip1))
          (insert_training (trip_task Running)) (insert_ids (trip_task Running)) (insert_payload (trip_task Running)) (db trip1) =
        (Inr [trip_id], trip_db2)"
        using trip_insert(1) by (simp add: trip1_fields trip0_def queue_new_def)
    qed (simp_all add: trip1_fields)
    ultimately show ?thesis by simp
  qed
qed (simp_all add: trip1_fields trip2_def)

lemma trip4_reachable: "trip_reachable trip4"
proof (rule trip_further)
  show "trip_reachable (trip2\<lparr>db := trip_db3\<rparr>)"
  proof (rule trip_further [OF trip2_reachable])
    show "system_step next_batch_ids trip_enc trip2 (trip2\<lparr>db := trip_db3\<rparr>)"
      unfolding trip_db3_def by (rule ss_workers) (simp add: trip2_def wc_claim)
  qed (simp_all add: trip1_fields trip2_def)
  show "system_step next_batch_ids trip_enc (trip2\<lparr>db := trip_db3\<rparr>) trip4"
  proof -
    have w: "worker_change (sq_run_id (queue trip2)) (sq_task_id (queue trip2)) trip_db3 trip_db4"
      unfolding trip_db4_def by (rule wc_submit)
    have "trip4 = (trip2\<lparr>db := trip_db3\<rparr>)\<lparr>db := trip_db4\<rparr>" by (simp add: trip4_def)
    moreover have "system_step next_batch_ids trip_enc (trip2\<lparr>db := trip_db3\<rparr>) \<dots>"
      by (rule ss_workers) (use w in simp)
    ultimately show ?thesis by simp
  qed
qed (simp_all add: trip1_fields trip2_def trip4_def)

lemma trip5_reachable: "trip_reachable trip5"
proof (rule trip_further [OF trip4_reachable])
  show "system_step next_batch_ids trip_enc trip4 trip5"
    unfolding trip5_def by (rule ss_drain_insert) (simp add: trip4_def trip2_def trip1_fields trip0_def queue_new_def)
qed (simp_all add: trip1_fields trip2_def trip4_def trip5_def)

lemma trip6_further:
  assumes "trip_reachable s" and "system_step next_batch_ids trip_enc s s'"
    and "gen s = (\<lparr>last_millis = 5, id_counter = 2, process_entropy = 1\<rparr>, \<lambda>_. 5)" and "ingested s' = [(trip_batch, False)]"
  shows "trip_reachable s'"
proof (rule sr_step [OF assms(1,2)])
  show "id_room (gen s) (Suc (length (ingested s')))"
    by (auto simp: assms(3,4) id_room_def generator_ok_def batch_id_layout intro!: exI [of _ 5])
qed

lemma trip5_more: "ingested trip5 = [(trip_batch, False)]"
  by (simp add: trip5_def trip4_def trip2_def trip1_fields)

lemma trip6_more: "gen trip6 = (\<lparr>last_millis = 5, id_counter = 2, process_entropy = 1\<rparr>, \<lambda>_. 5)"
    "ingested trip6 = [(trip_batch, False)]"
  using trip_ids2 by (simp_all add: trip6_def ensure_processed_prefetch_def trip5_fields trip5_more)

lemma trip6_reachable: "trip_reachable trip6"
proof (rule trip_further [OF trip5_reachable])
  obtain q g where r: "ensure_processed_prefetch next_batch_ids (queue trip5) (gen trip5) = (q, g)" by (metis surj_pair)
  then show "system_step next_batch_ids trip_enc trip5 trip6"
    unfolding trip6_def by (simp add: ss_prefetch [OF trip5_fields(3) _ r] trip5_fields)
qed (simp_all add: trip5_fields trip6_more)

lemma trip7_reachable: "trip_reachable trip7"
proof (rule trip6_further [OF trip6_reachable])
  show "system_step next_batch_ids trip_enc trip6 trip7"
    unfolding trip7_def
  proof (rule ss_fetch_done)
    show "Inr ([completed_of trip_done], f64_zero) =
        (case fetch_completed_batches (sq_run_id (queue trip6)) (sq_task_id (queue trip6))
            (fetch_limit (trip_fetch_task TYPE((nat, nat) result_row) 20971585 Running)) True
            (fetch_after (trip_fetch_task TYPE((nat, nat) result_row) 20971585 Running)) (db trip6) of
          Inl e \<Rightarrow> Inl e
        | Inr rs \<Rightarrow> Inr (fetched_below (trip_fetch_task TYPE((nat, nat) result_row) 20971585 Running) (map completed_of rs), f64_zero)) \<or>
      Inr ([completed_of trip_done], f64_zero) = Inl (Database [])"
      by (simp add: trip6_fields trip5_fields trip_fetch fetched_below_def completed_of_def mark_completed_def
          mark_claimed_def new_row_def)
  qed (simp_all add: trip6_fields)
qed (simp_all add: trip6_more trip7_def)

lemma trip8_reachable: "trip_reachable trip8"
proof (rule trip6_further [OF trip7_reachable])
  have "trip8 = trip7\<lparr>queue := queue trip8\<rparr>" by (simp add: trip8_def)
  moreover have "system_step next_batch_ids trip_enc trip7 \<dots>"
    by (rule ss_drain_fetch [OF _ trip8_fields(1)]) (simp add: trip7_def trip6_fields trip5_fields)
  ultimately show "system_step next_batch_ids trip_enc trip7 trip8" by simp
qed (simp_all add: trip6_more trip7_def trip8_def)

lemma trip9_reachable: "trip_reachable trip9"
proof (rule trip6_further [OF trip8_reachable])
  show "system_step next_batch_ids trip_enc trip8 trip9"
    unfolding trip9_def by (rule ss_take [OF trip8_fields(3,4)]) simp
qed (simp_all add: trip6_more trip7_def trip8_def trip9_def)

lemma trip10_reachable: "trip_reachable trip10"
proof (rule trip6_further [OF trip9_reachable])
  show "system_step next_batch_ids trip_enc trip9 trip10"
    unfolding trip10_def by (rule ss_mark [OF trip9_fields(2)])
qed (simp_all add: trip6_more trip7_def trip8_def trip9_def trip10_def)

lemma trip_produced: "produced trip10 = [(trip_id, trip_batch, False)]"
  by (simp add: trip10_def trip9_def trip8_def trip7_def trip6_def ensure_processed_prefetch_def Let_def
      trip5_def trip4_def trip2_def trip1_fields split: prod.splits)

lemma consumption_follows_production_witness:
  "consumed trip10 = [trip_id] \<and> consumed trip10 = map fst (take 1 (produced trip10))"
  using consumption_follows_production [OF trip10_reachable] trip10_consumed by simp

lemma no_batch_is_lost_witness:
  "trip_id \<in> set (consumed trip1) \<union> rows_here trip1 \<union> (\<Union>t \<in> set (pending_insert_tasks (queue trip1)). set (insert_ids t))"
proof -
  have "insert_error (queue trip1) = None" by (simp add: trip1_fields trip0_def queue_new_def)
  from no_batch_is_lost [OF trip1_reachable this, of trip_id "(trip_batch, False)"] show ?thesis
    by (simp only: trip1_fields(7)) auto
qed

end
