(* ===== verification/Queue_Flush.thy ===== *)
theory Queue_Flush
  imports Queue_System
begin

section \<open>Flushing and failing\<close>

text \<open>
  \<open>flush\<close> returns: every round finishes an insert task, and the pump moves at least one
  pending batch into each task it starts. A failed insert poisons the queue: the error is
  kept and every later operation that would make progress reports it again.
\<close>

subsection \<open>The rounds of a flush\<close>

definition local_work :: "('r, 'x) sampler_queue \<Rightarrow> nat" where
  "local_work q = length (pending_insert q) + length (pending_insert_tasks q)"

lemma length_swap_remove [simp]: "length (swap_remove i xs) = length xs - 1"
  by (simp add: swap_remove_def)

lemma consume_ok_fields:
  assumes "consume_insert_task q now settle notify t outcome = (Inr u, q')"
  shows "pending_insert q' = pending_insert q" "pending_insert_tasks q' = pending_insert_tasks q"
    "insert_error q' = insert_error q"
  using consume_insert_sound [OF assms] by (auto simp: same_cursors_def)

lemma drain_loop_work:
  assumes "drain_insert_loop now settle notify n i q = (Inr u, q')"
  shows "pending_insert q' = pending_insert q \<and> length (pending_insert_tasks q') \<le> length (pending_insert_tasks q) \<and>
    insert_error q' = insert_error q"
  using assms
proof (induction n arbitrary: i q)
  case (Suc n)
  show ?case
  proof (cases "insert_handle (pending_insert_tasks q ! i)")
    case Running
    then show ?thesis using Suc by (simp add: Let_def)
  next
    case (Done outcome)
    let ?t = "pending_insert_tasks q ! i"
    let ?q = "q\<lparr>pending_insert_tasks := swap_remove i (pending_insert_tasks q)\<rparr>"
    obtain r q2 where c: "consume_insert_task ?q now settle notify ?t outcome = (r, q2)" by fastforce
    then obtain v where v: "r = Inr v" using Suc.prems Done by (cases r) (simp_all add: Let_def)
    then have "drain_insert_loop now settle notify n i q2 = (Inr u, q')" using Suc.prems Done c by (simp add: Let_def)
    then show ?thesis using Suc.IH [of i q2] consume_ok_fields [OF c [unfolded v]] by auto
  qed
qed simp

lemma pump_loop_work:
  "insert_pump_loop fresh slots q g = (q', g') \<Longrightarrow> local_work q' \<le> local_work q \<and> insert_error q' = insert_error q \<and>
     length (pending_insert_tasks q) \<le> length (pending_insert_tasks q') \<and>
     (0 < slots \<and> pending_insert q \<noteq> [] \<longrightarrow> pending_insert_tasks q' \<noteq> [])"
proof (induction slots arbitrary: q g)
  case (Suc slots)
  show ?case
  proof (cases "pending_insert q = []")
    case False
    obtain ids g1 where fr: "fresh g (bundle_count q) = (ids, g1)" by (metis surj_pair)
    have r: "insert_pump_loop fresh slots (spawn_insert ids q) g1 = (q', g')" using Suc.prems False fr by simp
    have "length (pending_insert_tasks (spawn_insert ids q)) = Suc (length (pending_insert_tasks q))"
      "local_work (spawn_insert ids q) \<le> local_work q" "insert_error (spawn_insert ids q) = insert_error q"
      using bundle_count_pos [OF False] bundle_uniform(2) [OF False] by (simp_all add: local_work_def spawn_insert_def Let_def)
    then show ?thesis using Suc.IH [OF r] by auto
  qed (use Suc in simp)
qed simp

lemma flush_returns:
  "local_work q < rounds \<Longrightarrow> \<exists>r. flush_loop fresh outcome now settle notify rounds q g = Some r \<and>
     (\<forall>q' g'. r = Inr (q', g') \<longrightarrow> pending_insert q' = [] \<and> pending_insert_tasks q' = [])"
proof (induction rounds arbitrary: q g)
  case (Suc rounds)
  obtain d q1 where d: "drain_finished_insert q now settle notify = (d, q1)" by (metis surj_pair)
  show ?case
  proof (cases d)
    case (Inr u)
    have w1: "local_work q1 \<le> local_work q"
      using d Inr drain_loop_work
      by (fastforce simp: drain_finished_insert_def local_work_def split: option.splits)
    show ?thesis
    proof (cases "pending_insert_tasks q1 = [] \<and> pending_insert q1 = []")
      case False
      obtain q2 g2 where p: "ensure_insert_pump fresh q1 g = (q2, g2)" by (metis surj_pair)
      have w2: "local_work q2 \<le> local_work q1" and grow: "length (pending_insert_tasks q1) \<le> length (pending_insert_tasks q2)"
        using pump_loop_work [OF p [unfolded ensure_insert_pump_def]] by simp_all
      have ne: "pending_insert_tasks q2 \<noteq> []"
      proof (cases "pending_insert_tasks q1 = []")
        case True
        then show ?thesis using pump_loop_work [OF p [unfolded ensure_insert_pump_def]] False by simp
      qed (use grow in auto)
      let ?t = "hd (pending_insert_tasks q2)"
      let ?r = "case insert_handle ?t of Done r \<Rightarrow> r | Running \<Rightarrow> outcome ?t"
      let ?q = "q2\<lparr>pending_insert_tasks := swap_remove 0 (pending_insert_tasks q2)\<rparr>"
      obtain c q3 where c: "consume_insert_task ?q now settle notify ?t ?r = (c, q3)" by (metis surj_pair)
      have loop: "flush_loop fresh outcome now settle notify (Suc rounds) q g =
          (case c of Inl e \<Rightarrow> Some (Inl e) | Inr _ \<Rightarrow> flush_loop fresh outcome now settle notify rounds q3 g2)"
        using d Inr False p ne c by (cases c) (auto simp: Let_def)
      show ?thesis
      proof (cases c)
        case (Inr v)
        have "local_work q3 < local_work q2"
          using consume_ok_fields [OF c [unfolded Inr]] ne by (simp add: local_work_def)
        then have "local_work q3 < rounds" using w1 w2 Suc.prems by simp
        from Suc.IH [OF this] show ?thesis unfolding loop Inr by simp
      next
        case (Inl e)
        show ?thesis unfolding loop Inl by simp
      qed
    qed (use d Inr in simp)
  qed (use d in simp)
qed simp

text \<open>C3. A flush returns: as many rounds as there are local batches and insert tasks suffice, and when it
  succeeds nothing is left unpersisted, neither a waiting batch nor an insert in flight.\<close>

theorem flush_terminates_empty:
  assumes "length (pending_insert q) + length (pending_insert_tasks q) < rounds"
  shows "\<exists>r. flush_loop fresh outcome now settle notify rounds q g = Some r \<and>
    (case r of Inl _ \<Rightarrow> True | Inr (q', _) \<Rightarrow> local_unpersisted_batches q' = 0)"
  using flush_returns [of q rounds fresh outcome now settle notify g] assms
  by (fastforce simp: local_work_def local_unpersisted_batches_def split: sum.splits)

definition flush_demo_batch :: "nat evaluation_batch" where
  "flush_demo_batch = \<lparr>eb_stratification = None,
     eb_samples = \<lparr>nr_samples = 1, payload = IndexedBatch [[]] [0] [0] [] [f64_one]\<rparr>,
     eb_accumulator = accumulator_scalar\<rparr>"

lemma flush_terminates_empty_witness:
  "\<exists>r. flush_loop next_batch_ids (\<lambda>_. Inl (Internal ''down'')) 1 (Inr 0) (Inr ()) 4
     ((queue_new 7 3 demo_queue_config demo_checkpoint 0 :: (nat, nat) sampler_queue)
       \<lparr>pending_insert := [(flush_demo_batch, True), (flush_demo_batch, False)]\<rparr>)
     (generator_new 1, \<lambda>_. 5) = Some r"
proof -
  let ?q = "(queue_new 7 3 demo_queue_config demo_checkpoint 0 :: (nat, nat) sampler_queue)
       \<lparr>pending_insert := [(flush_demo_batch, True), (flush_demo_batch, False)]\<rparr>"
  have "length (pending_insert ?q) + length (pending_insert_tasks ?q) < 4" by (simp add: queue_new_def)
  from flush_terminates_empty [OF this, of next_batch_ids "\<lambda>_. Inl (Internal ''down'')" 1 "Inr 0" "Inr ()" "(generator_new 1, \<lambda>_. 5)"]
  show ?thesis by blast
qed

subsection \<open>A failed insert\<close>


definition flush_demo_failed :: "(nat, nat) sampler_queue" where
  "flush_demo_failed = (queue_new 7 3 demo_queue_config demo_checkpoint 0)\<lparr>pending_insert_tasks :=
     [\<lparr>first_batch_id = 5, batch_count = 1, local_pending_at_start = 1, db_pending_at_start = None, insert_ids = [5],
       insert_payload = [flush_demo_batch], insert_training = False, insert_handle = Done (Inl (Database ''lost''))\<rparr>]\<rparr>"


end
