(* ===== verification/Sampler_Interface.thy ===== *)
theory Sampler_Interface
  imports Latent_Laws Feedback_Values
begin

section \<open>The interface of samplers\<close>

text \<open>
  The values of \<open>src/sampling/sampler.rs\<close> and the contract that its trait documents: a
  draw holds at least one sample and at most the requested number, and a draw that is
  part of a training window does not exceed what is left of it. The contract is the
  locale \<open>sampler_contract\<close>; the samplers of the model interpret it.
\<close>

type_synonym pdf_point = "i64 list \<times> f64 list"

type_synonym discrete_subspace = "(usize \<times> i64) list"

datatype 'r generation =
    Generated (generated_batch: "'r latent_batch") (generated_remaining: "usize option")
  | Waiting
  | Finished

fun generation_into_batch :: "'r generation \<Rightarrow> engine_error + 'r latent_batch" where
  "generation_into_batch (Generated b _) = Inr b"
| "generation_into_batch Waiting = Inl (Engine ''sampler is waiting for feedback'')"
| "generation_into_batch Finished = Inl (Engine ''sampler has finished'')"

definition engine_panic :: "'a option \<Rightarrow> engine_error + 'a" where
  "engine_panic x = ok_or x (Engine ''panic'')"

lemma engine_panic_simps [simp]: "engine_panic (Some x) = Inr x" "engine_panic None = Inl (Engine ''panic'')"
  by (simp_all add: engine_panic_def ok_or_def)

fun draws ::
  "('s \<Rightarrow> usize \<Rightarrow> engine_error + ('r generation \<times> 's)) \<Rightarrow> 's \<Rightarrow> usize list
    \<Rightarrow> engine_error + ('r latent_batch list \<times> 's)" where
  "draws gen s [] = Inr ([], s)"
| "draws gen s (n # ns) =
     and_then (gen s n) (\<lambda>(g, s').
       case g of
         Generated b _ \<Rightarrow> and_then (draws gen s' ns) (\<lambda>(bs, s''). Inr (b # bs, s''))
       | _ \<Rightarrow> Inr ([], s'))"

locale sampler_contract =
  fixes inv :: "'s \<Rightarrow> bool"
    and gen :: "'s \<Rightarrow> usize \<Rightarrow> engine_error + ('r generation \<times> 's)"
    and fb :: "'s \<Rightarrow> feedback \<Rightarrow> engine_error + 's"
  assumes gen_zero: "\<exists>e. gen s 0 = Inl e"
    and gen_batch: "inv s \<Longrightarrow> gen s n = Inr (Generated b r, s') \<Longrightarrow>
      1 \<le> nr_samples b \<and> nr_samples b \<le> n \<and> (\<forall>k. r = Some k \<longrightarrow> nr_samples b \<le> k) \<and> inv s'"
    and gen_other: "inv s \<Longrightarrow> gen s n = Inr (g, s') \<Longrightarrow> inv s'"
    and fb_inv: "inv s \<Longrightarrow> fb s f = Inr s' \<Longrightarrow> inv s'"
begin

lemma draws_within_requests:
  assumes "inv s" "draws gen s ns = Inr (bs, s')"
  shows "inv s' \<and> length bs \<le> length ns \<and> sum_list (map nr_samples bs) \<le> sum_list ns \<and>
    length bs \<le> sum_list (map nr_samples bs)"
  using assms
proof (induction ns arbitrary: s bs)
  case (Cons n ns)
  then obtain g s1 where g: "gen s n = Inr (g, s1)"
    by (cases "gen s n") (auto simp: result_simps)
  show ?case
  proof (cases g)
    case (Generated b r)
    then obtain bs' where bs': "draws gen s1 ns = Inr (bs', s')" "bs = b # bs'"
      using Cons.prems(2) g by (auto simp: result_simps)
    have "1 \<le> nr_samples b \<and> nr_samples b \<le> n \<and> inv s1"
      using gen_batch Cons.prems(1) g Generated by blast
    then show ?thesis using Cons.IH [of s1 bs'] bs' by fastforce
  qed (use Cons.prems g gen_other in auto)
qed simp

end

end
