(* ===== verification/Raster_Geometry.thy ===== *)
theory Raster_Geometry
  imports F64 Domain_Tree Errors
begin

section \<open>Raster geometries\<close>

text \<open>
  The plane and line rasters of \<open>src/core/tasks.rs\<close> (\<open>Linspace\<close>, \<open>PlaneRasterGeometry\<close>,
  \<open>LineRasterGeometry\<close>), their validation against a domain and the order in which the
  raster samplers of \<open>src/sampling/sampler_aggregator/raster.rs\<close> visit the pixels. The
  trait \<open>RasterGeometry\<close> is the datatype of its two implementations. The square root of
  the platform is the parameter \<open>sqrt_f\<close>.

  Unchecked products and sums of \<open>usize\<close> that overflow are the result None (a panic).
\<close>

record linspace =
  ls_start :: f64
  ls_stop :: f64
  ls_count :: usize

record plane_geometry =
  pg_offset :: "f64 list"
  u_vector :: "f64 list"
  v_vector :: "f64 list"
  u_linspace :: linspace
  v_linspace :: linspace
  pg_discrete :: "i64 list"

record line_geometry =
  lg_offset :: "f64 list"
  direction :: "f64 list"
  lg_linspace :: linspace
  lg_discrete :: "i64 list"

datatype raster_geometry = Plane plane_geometry | Line line_geometry

subsection \<open>Linear spacing\<close>

definition linspace_validate :: "linspace \<Rightarrow> string + unit" where
  "linspace_validate l =
     (if ls_count l = 0 then Inl ''count must be > 0''
      else if \<not> f64_is_finite (ls_start l) \<or> \<not> f64_is_finite (ls_stop l)
      then Inl ''bounds must be finite'' else Inr ())"

definition value_at :: "linspace \<Rightarrow> usize \<Rightarrow> f64" where
  "value_at l idx =
     (if ls_count l \<le> 1 then ls_start l
      else
        let clamped_index = min idx (ls_count l - 1);
            t = f64_div (f64_of_nat clamped_index) (f64_of_nat (ls_count l - 1))
        in f64_add (ls_start l) (f64_mul t (f64_sub (ls_stop l) (ls_start l))))"

definition linspace_values :: "linspace \<Rightarrow> f64 list" where
  "linspace_values l = map (value_at l) [0..<ls_count l]"

subsection \<open>Geometries\<close>

definition vector_norm_sq :: "f64 list \<Rightarrow> f64" where
  "vector_norm_sq vs = f64_sum (map (\<lambda>v. f64_mul v v) vs)"

definition vectors_are_independent :: "(f64 \<Rightarrow> f64) \<Rightarrow> f64 list \<Rightarrow> f64 list \<Rightarrow> bool" where
  "vectors_are_independent sqrt_f left right =
     (let left_norm = sqrt_f (vector_norm_sq left); right_norm = sqrt_f (vector_norm_sq right) in
      if f64_eq left_norm f64_zero \<or> f64_eq right_norm f64_zero then False
      else
        let cosine = f64_div (f64_sum (map2 f64_mul left right)) (f64_mul left_norm right_norm)
        in f64_lt (f64_of_rat (1 / 10 ^ 9)) (f64_sub f64_one (f64_abs cosine)))"

definition plane_validate :: "(f64 \<Rightarrow> f64) \<Rightarrow> plane_geometry \<Rightarrow> string + unit" where
  "plane_validate sqrt_f g =
     and_then (linspace_validate (u_linspace g)) (\<lambda>_.
     and_then (linspace_validate (v_linspace g)) (\<lambda>_.
       let dims = length (pg_offset g) in
       if dims = 0 then Inl ''plane geometry offset must have at least one continuous dimension''
       else if length (u_vector g) \<noteq> dims \<or> length (v_vector g) \<noteq> dims
       then Inl ''plane geometry vectors must match offset dimensionality''
       else if f64_eq (vector_norm_sq (u_vector g)) f64_zero \<or> f64_eq (vector_norm_sq (v_vector g)) f64_zero
       then Inl ''plane geometry vectors must be non-zero''
       else if \<not> vectors_are_independent sqrt_f (u_vector g) (v_vector g)
       then Inl ''plane geometry vectors must not be parallel''
       else Inr ()))"

definition plane_nr_points :: "plane_geometry \<Rightarrow> usize" where
  "plane_nr_points g = saturating_mul_usize (ls_count (u_linspace g)) (ls_count (v_linspace g))"

definition plane_point_at_indices :: "plane_geometry \<Rightarrow> usize \<Rightarrow> usize \<Rightarrow> f64 list" where
  "plane_point_at_indices g u_idx v_idx =
     (let u = value_at (u_linspace g) u_idx; v = value_at (v_linspace g) v_idx in
      map (\<lambda>((off, basis_u), basis_v). f64_add (f64_add off (f64_mul u basis_u)) (f64_mul v basis_v))
        (zip (zip (pg_offset g) (u_vector g)) (v_vector g)))"

definition plane_point_at :: "plane_geometry \<Rightarrow> usize \<Rightarrow> f64 list" where
  "plane_point_at g idx =
     (let width = max (ls_count (u_linspace g)) 1
      in plane_point_at_indices g (idx mod width) (idx div width))"

definition line_validate :: "line_geometry \<Rightarrow> string + unit" where
  "line_validate g =
     and_then (linspace_validate (lg_linspace g)) (\<lambda>_.
       let dims = length (lg_offset g) in
       if dims = 0 then Inl ''line geometry offset must have at least one continuous dimension''
       else if length (direction g) \<noteq> dims
       then Inl ''line geometry direction must match offset dimensionality''
       else if f64_eq (vector_norm_sq (direction g)) f64_zero
       then Inl ''line geometry direction must be non-zero''
       else Inr ())"

definition line_nr_points :: "line_geometry \<Rightarrow> usize" where
  "line_nr_points g = ls_count (lg_linspace g)"

definition parameter_at :: "line_geometry \<Rightarrow> usize \<Rightarrow> f64" where
  "parameter_at g idx = value_at (lg_linspace g) idx"

definition line_point_at :: "line_geometry \<Rightarrow> usize \<Rightarrow> f64 list" where
  "line_point_at g idx =
     (let t = parameter_at g idx
      in map2 (\<lambda>off dir. f64_add off (f64_mul t dir)) (lg_offset g) (direction g))"

subsection \<open>The common interface\<close>

fun nr_points :: "raster_geometry \<Rightarrow> usize" where
  "nr_points (Plane g) = plane_nr_points g"
| "nr_points (Line g) = line_nr_points g"

fun point_at :: "raster_geometry \<Rightarrow> usize \<Rightarrow> f64 list" where
  "point_at (Plane g) idx = plane_point_at g idx"
| "point_at (Line g) idx = line_point_at g idx"

fun raster_discrete :: "raster_geometry \<Rightarrow> i64 list" where
  "raster_discrete (Plane g) = pg_discrete g"
| "raster_discrete (Line g) = lg_discrete g"

fun with_discrete :: "raster_geometry \<Rightarrow> i64 list \<Rightarrow> raster_geometry" where
  "with_discrete (Plane g) d = Plane (g\<lparr>pg_discrete := d\<rparr>)"
| "with_discrete (Line g) d = Line (g\<lparr>lg_discrete := d\<rparr>)"

definition validate_plane_geometry ::
  "(f64 \<Rightarrow> f64) \<Rightarrow> plane_geometry \<Rightarrow> domain \<Rightarrow> engine_error + unit" where
  "validate_plane_geometry sqrt_f g d =
     and_then (map_err InvalidInput (plane_validate sqrt_f g)) (\<lambda>_.
     and_then (map_err (\<lambda>_. Incompatible ''plane geometry discrete path is not valid for domain'')
       (continuous_dims_at_discrete_path d (pg_discrete g))) (\<lambda>dims.
       if length (pg_offset g) \<noteq> dims
       then Inl (Incompatible ''plane geometry continuous dimension mismatch'') else Inr ()))"

definition validate_line_geometry :: "line_geometry \<Rightarrow> domain \<Rightarrow> engine_error + unit" where
  "validate_line_geometry g d =
     and_then (map_err InvalidInput (line_validate g)) (\<lambda>_.
     and_then (map_err (\<lambda>_. Incompatible ''line geometry discrete path is not valid for domain'')
       (continuous_dims_at_discrete_path d (lg_discrete g))) (\<lambda>dims.
       if length (lg_offset g) \<noteq> dims
       then Inl (Incompatible ''line geometry continuous dimension mismatch'') else Inr ()))"

fun raster_validate_domain :: "(f64 \<Rightarrow> f64) \<Rightarrow> raster_geometry \<Rightarrow> domain \<Rightarrow> engine_error + unit" where
  "raster_validate_domain sqrt_f (Plane g) d = validate_plane_geometry sqrt_f g d"
| "raster_validate_domain sqrt_f (Line g) d = validate_line_geometry g d"

subsection \<open>The order of the pixels\<close>

definition permuted_raster_index :: "usize \<Rightarrow> usize \<Rightarrow> usize \<Rightarrow> usize option" where
  "permuted_raster_index idx total_samples stride =
     (if total_samples \<le> 1 then Some (min idx (total_samples - 1))
      else if idx * stride \<le> usize_max then Some (idx * stride mod total_samples)
      else None)"

text \<open>The search for a stride without a common divisor; the loop wraps to one, which has none.\<close>

function stride_loop :: "usize \<Rightarrow> usize \<Rightarrow> usize" where
  "stride_loop total_samples candidate =
     (if gcd candidate total_samples \<noteq> 1
      then stride_loop total_samples (if candidate + 1 \<ge> total_samples then 1 else candidate + 1)
      else candidate)"
  by auto
termination
  by (relation "measure (\<lambda>(n, c). if c = 1 then 0 else Suc (n - c))") (auto simp: gcd_nat.simps [of 1])

declare stride_loop.simps [simp del]

definition phi_minus_one :: f64 where
  "phi_minus_one = f64_of_rat (6180339887498949 / 10 ^ 16)"

text \<open>\<open>x.floor()\<close>\<close>

fun f64_floor :: "f64 \<Rightarrow> f64" where
  "f64_floor (F_Num s m) = F_Num s (of_int (if s then \<lceil>m\<rceil> else \<lfloor>m\<rfloor>))"
| "f64_floor x = x"

definition coprime_stride :: "usize \<Rightarrow> usize" where
  "coprime_stride total_samples =
     (if total_samples \<le> 1 then 1
      else stride_loop total_samples
        (clamp_usize 1 (total_samples - 1)
          (f64_as_usize (f64_floor (f64_mul (f64_of_nat total_samples) phi_minus_one)))))"

subsection \<open>Laws\<close>

lemma stride_loop_coprime:
  "1 \<le> c \<Longrightarrow> c < n \<Longrightarrow> coprime (stride_loop n c) n \<and> 1 \<le> stride_loop n c \<and> stride_loop n c < n"
proof (induction n c rule: stride_loop.induct)
  case (1 n c)
  show ?case
  proof (cases "gcd c n = 1")
    case True
    then show ?thesis
      using "1.prems" by (simp add: stride_loop.simps [of n c] coprime_iff_gcd_eq_1)
  next
    case False
    then show ?thesis
      using "1.IH" "1.prems" by (simp add: stride_loop.simps [of n c])
  qed
qed

lemma coprime_stride_small [simp]: "n \<le> 1 \<Longrightarrow> coprime_stride n = 1"
  by (simp add: coprime_stride_def)

lemma coprime_stride_spec:
  assumes "2 \<le> n"
  shows "coprime (coprime_stride n) n \<and> 1 \<le> coprime_stride n \<and> coprime_stride n < n"
proof -
  let ?c = "clamp_usize 1 (n - 1) (f64_as_usize (f64_floor (f64_mul (f64_of_nat n) phi_minus_one)))"
  have "1 \<le> ?c \<and> ?c \<le> n - 1" by (rule clamp_usize_bounds) (use assms in simp)
  then have "1 \<le> ?c" "?c < n" using assms by linarith+
  from stride_loop_coprime [OF this] show ?thesis using assms by (simp add: coprime_stride_def)
qed

lemma coprime_stride_coprime: "0 < n \<Longrightarrow> coprime (coprime_stride n) n"
  using coprime_stride_spec [of n] by (cases "n = 1") auto

lemma coprime_stride_product:
  assumes "0 < n" "n \<le> 2 ^ 32"
  shows "(n - 1) * coprime_stride n \<le> usize_max"
proof (cases "n = 1")
  case False
  then have "coprime_stride n \<le> n - 1" using coprime_stride_spec [of n] assms(1) by linarith
  then have "(n - 1) * coprime_stride n \<le> (2 ^ 32 - 1) * (2 ^ 32 - 1)"
    using assms(2) by (intro mult_le_mono) auto
  then show ?thesis by (simp add: usize_max_def)
qed (simp add: usize_max_def)

lemma permuted_raster_index_bij:
  assumes "coprime stride n" "0 < n" "(n - 1) * stride \<le> usize_max"
  shows "\<exists>f. (\<forall>i < n. permuted_raster_index i n stride = Some (f i)) \<and> bij_betw f {..<n} {..<n}"
proof (cases "n = 1")
  case True
  then show ?thesis by (intro exI [of _ id]) (auto simp: permuted_raster_index_def bij_betw_def)
next
  case False
  define f where "f i = i * stride mod n" for i
  have "i * stride \<le> usize_max" if "i < n" for i
    using that assms(3) mult_le_mono1 [of i "n - 1" stride] by linarith
  then have "permuted_raster_index i n stride = Some (f i)" if "i < n" for i
    using that False assms(2) by (simp add: permuted_raster_index_def f_def)
  moreover have "i = j" if "i \<le> j" "j < n" "f i = f j" for i j
  proof -
    have "n dvd j * stride - i * stride"
      using that mod_eq_dvd_iff_nat [of "i * stride" "j * stride" n] by (simp add: f_def)
    then have "n dvd (j - i) * stride" by (simp add: diff_mult_distrib)
    then have "n dvd j - i" using assms(1) by (simp add: coprime_commute coprime_dvd_mult_left_iff)
    then show "i = j" using that nat_dvd_not_less [of "j - i" n] by linarith
  qed
  then have "inj_on f {..<n}" by (metis inj_onI lessThan_iff nat_le_linear)
  moreover have "f ` {..<n} \<subseteq> {..<n}" using assms(2) by (auto simp: f_def)
  ultimately have "bij_betw f {..<n} {..<n}"
    by (simp add: bij_betw_def card_image card_subset_eq)
  then show ?thesis using \<open>\<And>i. i < n \<Longrightarrow> permuted_raster_index i n stride = Some (f i)\<close> by blast
qed

end
