(* ===== verification/Raster_Sampler.thy ===== *)
theory Raster_Sampler
  imports Sampler_Interface Raster_Geometry Stratification
begin

section \<open>Raster samplers\<close>

text \<open>
  \<open>RasterSampler\<close> and \<open>PdfAdaptationRasterSampler\<close> of
  \<open>src/sampling/sampler_aggregator/raster.rs\<close>: generation of the pixels in permuted order
  and recording of the values that come back. The source sampler of a PDF image is a
  state \<open>'s\<close> with its \<open>pdf_batch\<close> as a parameter. The label and the exact step
  representation of a line, both computed once for display, are left out.
\<close>

record raster_sampler =
  rs_geometry :: raster_geometry
  next_index :: usize
  stride :: usize

definition raster_from_params ::
  "(f64 \<Rightarrow> f64) \<Rightarrow> raster_geometry \<Rightarrow> domain \<Rightarrow> engine_error + raster_sampler" where
  "raster_from_params sqrt_f g d =
     and_then (raster_validate_domain sqrt_f g d) (\<lambda>_.
       Inr \<lparr>rs_geometry = g, next_index = 0, stride = coprime_stride (nr_points g)\<rparr>)"

definition raster_snapshot :: "raster_sampler \<Rightarrow> usize \<times> usize" where
  "raster_snapshot s = (next_index s, stride s)"

definition raster_from_snapshot ::
  "(f64 \<Rightarrow> f64) \<Rightarrow> raster_geometry \<Rightarrow> usize \<times> usize \<Rightarrow> domain \<Rightarrow> engine_error + raster_sampler" where
  "raster_from_snapshot sqrt_f g snap d =
     and_then (raster_from_params sqrt_f g d) (\<lambda>s.
       Inr (s\<lparr>next_index := fst snap, stride := snd snap\<rparr>))"

subsection \<open>Generation\<close>

definition raster_indices :: "usize \<Rightarrow> usize \<Rightarrow> usize \<Rightarrow> usize \<Rightarrow> engine_error + usize list" where
  "raster_indices first n npoints str =
     try_map (\<lambda>row. engine_panic (permuted_raster_index (first + row) npoints str)) [0..<n]"

definition produce_raster_batch ::
  "usize \<Rightarrow> usize \<Rightarrow> usize \<Rightarrow> i64 list \<Rightarrow> (usize \<Rightarrow> f64 list) \<Rightarrow> usize
    \<Rightarrow> engine_error + ('r latent_batch \<times> usize)" where
  "produce_raster_batch next npoints str discrete pt requested_samples =
     (let n = min requested_samples (npoints - next) in
      if n = 0 then Inl (Engine ''sampler cannot produce an empty batch'')
      else and_then (raster_indices next n npoints str) (\<lambda>is.
        and_then (map_err (\<lambda>_. Engine ''panic'')
          (latent_from_batch (map (\<lambda>i. point_new (pt i) discrete f64_one) is))) (\<lambda>b.
        Inr (b, next + n))))"

definition raster_generate ::
  "raster_sampler \<Rightarrow> usize \<Rightarrow> engine_error + ('r generation \<times> raster_sampler)" where
  "raster_generate s max_samples =
     (if max_samples = 0 then Inl (InvalidInput ''max_samples must be positive'')
      else if next_index s = nr_points (rs_geometry s) then Inr (Finished, s)
      else
        let g = rs_geometry s in
        and_then (produce_raster_batch (next_index s) (nr_points g) (stride s) (raster_discrete g)
            (point_at g) max_samples) (\<lambda>(b, next).
          Inr (Generated b None, s\<lparr>next_index := next\<rparr>)))"

definition raster_feedback :: "raster_sampler \<Rightarrow> feedback \<Rightarrow> engine_error + raster_sampler" where
  "raster_feedback s f = Inr s"

subsection \<open>Images of a probability density\<close>

record pdf_strata_output =
  ps_prefixes :: "i64 list list"
  ps_probabilities :: "f64 option list"
  ps_pdf_values :: "f64 option list list"
  actual_strata :: "usize option list"

record pdf_image_output =
  integrand_values :: "f64 option list"
  pdf_values :: "f64 option list"
  image_strata :: "pdf_strata_output option"

record 's pdf_raster_sampler = raster_sampler +
  ingested_samples :: usize
  output_state :: pdf_image_output
  source_sampler :: 's
  evaluation_discrete :: "i64 list"

definition image_output_new :: "usize \<Rightarrow> pdf_image_output" where
  "image_output_new npoints =
     \<lparr>integrand_values = replicate npoints None, pdf_values = replicate npoints None, image_strata = None\<rparr>"

text \<open>\<open>v[i] = x\<close> panics out of range.\<close>

definition store_at :: "usize \<Rightarrow> 'a \<Rightarrow> 'a list \<Rightarrow> engine_error + 'a list" where
  "store_at i x xs = (if i < length xs then Inr (xs[i := x]) else Inl (Engine ''panic''))"

fun record_integrand ::
  "f64 option list \<times> f64 option list \<Rightarrow> (usize \<times> f64) list
    \<Rightarrow> engine_error + ((f64 option list \<times> f64 option list) \<times> usize list)" where
  "record_integrand (vals, pdfs) [] = Inr ((vals, pdfs), [])"
| "record_integrand (vals, pdfs) ((i, v) # rest) =
     (if \<not> f64_is_finite v
      then and_then (store_at i None vals) (\<lambda>vals'.
        and_then (store_at i None pdfs) (\<lambda>pdfs'. record_integrand (vals', pdfs') rest))
      else and_then (store_at i (Some v) vals) (\<lambda>vals'.
        and_then (record_integrand (vals', pdfs) rest) (\<lambda>(st, is). Inr (st, i # is))))"

definition finite_only :: "f64 option \<Rightarrow> f64 option" where
  "finite_only p = (case p of Some x \<Rightarrow> if f64_is_finite x then Some x else None | None \<Rightarrow> None)"

definition record_pdf_adaptation_values ::
  "('s \<Rightarrow> pdf_point list \<Rightarrow> engine_error + (f64 option list \<times> 's)) \<Rightarrow> pdf_image_output \<Rightarrow> 's
    \<Rightarrow> usize list \<Rightarrow> f64 list \<Rightarrow> (usize \<Rightarrow> pdf_point) \<Rightarrow> engine_error + (pdf_image_output \<times> 's)" where
  "record_pdf_adaptation_values pdf_batch out src canonical training pt =
     and_then (record_integrand (integrand_values out, pdf_values out) (zip canonical training))
       (\<lambda>((vals, pdfs), is).
     and_then (pdf_batch src (map pt is)) (\<lambda>(ps, src').
       if length ps \<noteq> length is
       then Inl (Engine ''pdf adaptation raster sampler pdf output size mismatch'')
       else and_then (try_fold (\<lambda>pdfs (i, p). store_at i (finite_only p) pdfs) pdfs (zip is ps)) (\<lambda>pdfs'.
         Inr (out\<lparr>integrand_values := vals, pdf_values := pdfs'\<rparr>, src'))))"

definition ingest_pdf_adaptation_values ::
  "('s \<Rightarrow> pdf_point list \<Rightarrow> engine_error + (f64 option list \<times> 's)) \<Rightarrow> 's pdf_raster_sampler
    \<Rightarrow> f64 list \<Rightarrow> engine_error + 's pdf_raster_sampler" where
  "ingest_pdf_adaptation_values pdf_batch s training =
     (let npoints = nr_points (rs_geometry s) in
      if ingested_samples s + length training > npoints
      then Inl (Engine ''pdf adaptation raster sampler ingest overflow'')
      else and_then (raster_indices (ingested_samples s) (length training) npoints (stride s)) (\<lambda>is.
        and_then (record_pdf_adaptation_values pdf_batch (output_state s) (source_sampler s) is training
            (\<lambda>i. (raster_discrete (rs_geometry s), point_at (rs_geometry s) i))) (\<lambda>(out, src).
          Inr (s\<lparr>output_state := out, source_sampler := src,
                 ingested_samples := ingested_samples s + length training\<rparr>))))"

text \<open>Stratified feedback: the densities of every stratum at the pixels, then the values.\<close>

fun record_densities ::
  "('s \<Rightarrow> pdf_point list \<Rightarrow> engine_error + (f64 option list \<times> 's)) \<Rightarrow> raster_geometry \<Rightarrow> usize list
    \<Rightarrow> 's \<Rightarrow> (i64 list \<times> f64 option list) list \<Rightarrow> engine_error + (f64 option list list \<times> 's)" where
  "record_densities pdf_batch g is src [] = Inr ([], src)"
| "record_densities pdf_batch g is src ((pre, row) # rows) =
     (let points = map (\<lambda>i. (pre @ raster_discrete g, point_at g i)) is in
      and_then (pdf_batch src points) (\<lambda>(vals, src').
        if length vals \<noteq> length points
           \<or> list_ex (\<lambda>p. case p of None \<Rightarrow> False | Some x \<Rightarrow> \<not> f64_is_finite x \<or> f64_lt x f64_zero) vals
        then Inl (Eval ''invalid PDF diagnostic density response'')
        else and_then (try_fold (\<lambda>r (i, v). store_at i v r) row (zip is vals)) (\<lambda>row'.
          and_then (record_densities pdf_batch g is src' rows) (\<lambda>(rows', src''). Inr (row' # rows', src'')))))"

fun column :: "f64 option list list \<Rightarrow> usize \<Rightarrow> engine_error + f64 list option" where
  "column [] i = Inr (Some [])"
| "column (row # rows) i =
     and_then (engine_panic (nth_opt row i)) (\<lambda>p.
       case p of None \<Rightarrow> Inr None
       | Some x \<Rightarrow> and_then (column rows i) (\<lambda>xs. Inr (map_option (Cons x) xs)))"

definition total_density :: "f64 option list list \<Rightarrow> usize \<Rightarrow> engine_error + f64 option" where
  "total_density rows i = and_then (column rows i) (\<lambda>xs. Inr (map_option f64_sum xs))"

fun record_values ::
  "pdf_image_output \<Rightarrow> pdf_strata_output \<Rightarrow> (usize \<times> f64 \<times> usize) list
    \<Rightarrow> engine_error + (pdf_image_output \<times> pdf_strata_output)" where
  "record_values out st [] = Inr (out, st)"
| "record_values out st ((i, v, a) # rest) =
     and_then (store_at i (Some v) (integrand_values out)) (\<lambda>vals.
     and_then (store_at i (Some a) (actual_strata st)) (\<lambda>acts.
     and_then (total_density (ps_pdf_values st) i) (\<lambda>p.
     and_then (store_at i p (pdf_values out)) (\<lambda>pdfs.
       record_values (out\<lparr>integrand_values := vals, pdf_values := pdfs\<rparr>) (st\<lparr>actual_strata := acts\<rparr>) rest))))"

definition record_strata ::
  "('s \<Rightarrow> pdf_point list \<Rightarrow> engine_error + (f64 option list \<times> 's)) \<Rightarrow> 's pdf_raster_sampler
    \<Rightarrow> feedback \<Rightarrow> engine_error + 's pdf_raster_sampler" where
  "record_strata pdf_batch s f =
     (let g = rs_geometry s; npoints = nr_points g in
      and_then (engine_panic (image_strata (output_state s))) (\<lambda>st.
      and_then (ok_or (Feedback_Values.strata f) (Eval ''PDF diagnostics require actual stratum assignments'')) (\<lambda>a.
        if prefixes a \<noteq> ps_prefixes st \<or> list_ex (\<lambda>k. k \<noteq> 0) (requested a)
           \<or> ingested_samples s + feedback_len f > npoints
        then Inl (Eval ''PDF diagnostic feedback layout mismatch'')
        else and_then (raster_indices (ingested_samples s) (feedback_len f) npoints (stride s)) (\<lambda>is.
          and_then (record_densities pdf_batch g is (source_sampler s)
              (zip (ps_prefixes st) (ps_pdf_values st))) (\<lambda>(rows, src).
          and_then (record_values (output_state s) (st\<lparr>ps_pdf_values := rows\<rparr>)
              (zip is (zip (unmasked_values f) (actual a)))) (\<lambda>(out, st').
            Inr (s\<lparr>output_state := out\<lparr>image_strata := Some st'\<rparr>, source_sampler := src,
                   ingested_samples := ingested_samples s + feedback_len f\<rparr>)))))))"

definition pdf_generate ::
  "'s pdf_raster_sampler \<Rightarrow> usize \<Rightarrow> engine_error + ('r generation \<times> 's pdf_raster_sampler)" where
  "pdf_generate s max_samples =
     (if max_samples = 0 then Inl (InvalidInput ''max_samples must be positive'')
      else if next_index s = nr_points (rs_geometry s) then Inr (Finished, s)
      else
        let g = rs_geometry s in
        and_then (produce_raster_batch (next_index s) (nr_points g) (stride s) (evaluation_discrete s)
            (point_at g) max_samples) (\<lambda>(b, next).
          Inr (Generated b (Some (nr_points g - next + nr_samples b)), s\<lparr>next_index := next\<rparr>)))"

definition pdf_feedback ::
  "('s \<Rightarrow> pdf_point list \<Rightarrow> engine_error + (f64 option list \<times> 's)) \<Rightarrow> 's pdf_raster_sampler
    \<Rightarrow> feedback \<Rightarrow> engine_error + 's pdf_raster_sampler" where
  "pdf_feedback pdf_batch s f =
     (if image_strata (output_state s) \<noteq> None
      then and_then (feedback_validate f) (\<lambda>_. record_strata pdf_batch s f)
      else ingest_pdf_adaptation_values pdf_batch s (unmasked_values f))"

subsection \<open>Construction of a PDF image\<close>

text \<open>The restored source sampler \<open>src\<close>, its partition and whether it has a materializer
  come from the saved sampler; \<open>mass_batch\<close> is its query for the masses of subspaces.\<close>

definition prefix_queries :: "i64 list list \<Rightarrow> discrete_subspace list" where
  "prefix_queries ps = map (\<lambda>p. zip [0..<length p] p) ps"

definition image_strata_new ::
  "('s \<Rightarrow> discrete_subspace list \<Rightarrow> engine_error + (f64 option list \<times> 's)) \<Rightarrow> 's \<Rightarrow> usize
    \<Rightarrow> i64 list list \<Rightarrow> engine_error + (pdf_strata_output \<times> 's)" where
  "image_strata_new mass_batch src n ps =
     and_then (mass_batch src (prefix_queries ps)) (\<lambda>(probs, src').
       if length probs \<noteq> length ps
          \<or> list_ex (\<lambda>p. case p of None \<Rightarrow> False
              | Some x \<Rightarrow> \<not> f64_is_finite x \<or> \<not> (f64_le f64_zero x \<and> f64_le x f64_one)) probs
       then Inl (Eval ''invalid stratum probabilities for PDF diagnostics'')
       else Inr (\<lparr>ps_prefixes = ps, ps_probabilities = probs,
          ps_pdf_values = replicate (length ps) (replicate n None), actual_strata = replicate n None\<rparr>, src'))"

definition pdf_from_params_and_snapshot ::
  "(f64 \<Rightarrow> f64) \<Rightarrow> ('s \<Rightarrow> discrete_subspace list \<Rightarrow> engine_error + (f64 option list \<times> 's))
    \<Rightarrow> raster_geometry \<Rightarrow> 's \<Rightarrow> stratification_config option \<Rightarrow> bool \<Rightarrow> domain
    \<Rightarrow> engine_error + 's pdf_raster_sampler" where
  "pdf_from_params_and_snapshot sqrt_f mass_batch g src part has_materializer d =
     and_then (raster_validate_domain sqrt_f g d) (\<lambda>_.
       let n = nr_points g;
           s = \<lparr>rs_geometry = g, next_index = 0, stride = coprime_stride n, ingested_samples = 0,
                output_state = image_output_new n, source_sampler = src,
                evaluation_discrete = raster_discrete g\<rparr>
       in if has_materializer
          then Inl (InvalidInput ''PDF slices require a sampler-coordinate PDF and direct point materialization'')
          else case part of
            None \<Rightarrow> Inr s
          | Some c \<Rightarrow>
              let ps = config_prefixes c in
              and_then (image_strata_new mass_batch src n ps) (\<lambda>(st, src').
              and_then (engine_panic (nth_opt ps 0)) (\<lambda>first.
              let e = first @ raster_discrete g in
              and_then (sampling_domain c d) (\<lambda>sd.
              and_then (raster_validate_domain sqrt_f (with_discrete g e) sd) (\<lambda>_.
                Inr (s\<lparr>output_state := (output_state s)\<lparr>image_strata := Some st\<rparr>,
                       source_sampler := src', evaluation_discrete := e\<rparr>))))))"

text \<open>A checkpoint keeps the indices and the output; the source sampler is restored again.\<close>

definition pdf_from_snapshot ::
  "(f64 \<Rightarrow> f64) \<Rightarrow> ('s \<Rightarrow> discrete_subspace list \<Rightarrow> engine_error + (f64 option list \<times> 's))
    \<Rightarrow> raster_geometry \<Rightarrow> usize \<times> usize \<times> usize \<times> pdf_image_output \<Rightarrow> 's
    \<Rightarrow> stratification_config option \<Rightarrow> bool \<Rightarrow> domain \<Rightarrow> engine_error + 's pdf_raster_sampler" where
  "pdf_from_snapshot sqrt_f mass_batch g snap src part has_materializer d =
     and_then (pdf_from_params_and_snapshot sqrt_f mass_batch g src part has_materializer d) (\<lambda>s.
       case snap of (next, str, ingested, out) \<Rightarrow>
         Inr (s\<lparr>next_index := next, stride := str, ingested_samples := ingested, output_state := out\<rparr>))"

subsection \<open>The permutation of the pixels\<close>

definition pixel :: "usize \<Rightarrow> usize \<Rightarrow> usize" where
  "pixel n i = (if n \<le> 1 then 0 else i * coprime_stride n mod n)"

fun raster_width :: "raster_geometry \<Rightarrow> usize" where
  "raster_width (Plane g) = length (pg_offset g)"
| "raster_width (Line g) = length (lg_offset g)"

text \<open>Rasters whose products of indices and whose coordinates fit a \<open>usize\<close>.\<close>

definition raster_fits :: "raster_geometry \<Rightarrow> bool" where
  "raster_fits g \<longleftrightarrow> 0 < nr_points g \<and> nr_points g \<le> 2 ^ 32 \<and> nr_points g * raster_width g \<le> usize_max"

lemma length_point_at: "length (point_at g i) \<le> raster_width g"
  by (cases g) (auto simp: plane_point_at_def plane_point_at_indices_def line_point_at_def Let_def)

lemma permuted_index_pixel:
  assumes "i < n" "n \<le> 2 ^ 32"
  shows "permuted_raster_index i n (coprime_stride n) = Some (pixel n i)"
proof -
  have "i * coprime_stride n \<le> usize_max"
    using coprime_stride_product [of n] assms mult_le_mono1 [of i "n - 1" "coprime_stride n"] by linarith
  then show ?thesis using assms by (auto simp: permuted_raster_index_def pixel_def)
qed

lemma pixel_bij:
  assumes "0 < n" "n \<le> 2 ^ 32"
  shows "bij_betw (pixel n) {..<n} {..<n}"
proof -
  obtain f where f: "\<And>i. i < n \<Longrightarrow> permuted_raster_index i n (coprime_stride n) = Some (f i)"
      and bij: "bij_betw f {..<n} {..<n}"
    using permuted_raster_index_bij [OF coprime_stride_coprime [OF assms(1)] assms(1) coprime_stride_product]
      assms by blast
  have "f i = pixel n i" if "i < n" for i
    using f [OF that] permuted_index_pixel [OF that assms(2)] by simp
  then show ?thesis using bij by (simp add: bij_betw_def inj_on_def)
qed

lemma pixel_less: "i < n \<Longrightarrow> n \<le> 2 ^ 32 \<Longrightarrow> pixel n i < n"
  using pixel_bij [of n] by (auto simp: bij_betw_def)

lemma raster_indices_pixels:
  assumes "first + k \<le> n" "n \<le> 2 ^ 32"
  shows "raster_indices first k n (coprime_stride n) = Inr (map (pixel n) [first..<first + k])"
proof -
  have "try_map (\<lambda>row. engine_panic (permuted_raster_index (first + row) n (coprime_stride n))) [0..<k]
      = Inr (map (\<lambda>row. pixel n (first + row)) [0..<k])"
    using assms by (intro try_map_total) (simp add: permuted_index_pixel)
  also have "map (\<lambda>row. pixel n (first + row)) [0..<k] = map (pixel n) [first..<first + k]"
    by (rule nth_equalityI) auto
  finally show ?thesis by (simp only: raster_indices_def)
qed

lemma produce_raster_batch_spec:
  assumes "raster_fits g" "n = nr_points g" "next < n" "0 < req" and k: "k = min req (n - next)"
  shows "\<exists>b. produce_raster_batch next n (coprime_stride n) disc (point_at g) req =
      Inr (b :: 'r latent_batch, next + k) \<and> nr_samples b = k \<and>
    into_batch (payload b) =
      Inr (map (\<lambda>i. point_new (point_at g (pixel n i)) disc f64_one) [next..<next + k])"
proof -
  define rows where "rows = map (\<lambda>i. (disc, point_at g (pixel n i), f64_one)) [next..<next + k]"
  have "sum_list (map (length \<circ> fst \<circ> snd) rows) \<le> k * raster_width g"
    using sum_list_mono [of "[next..<next + k]" "\<lambda>i. length (point_at g (pixel n i))" "\<lambda>_. raster_width g"]
      length_point_at by (simp add: rows_def comp_def sum_list_triv)
  also have "\<dots> \<le> n * raster_width g" using k by (intro mult_le_mono1) auto
  also have "\<dots> \<le> usize_max" using assms(1,2) by (simp add: raster_fits_def)
  finally obtain b :: "'r latent_batch" where
    "latent_from_batch (map (\<lambda>(d, c, w). point_new c d w) rows) = Inr b"
    "nr_samples b = length rows" "into_batch (payload b) = Inr (map (\<lambda>(d, c, w). point_new c d w) rows)"
    using latent_from_new_points [OF refl] by (metis length_map)
  moreover have "raster_indices next k n (coprime_stride n) = Inr (map (pixel n) [next..<next + k])"
    using assms by (intro raster_indices_pixels) (auto simp: raster_fits_def)
  ultimately show ?thesis
    using assms by (auto simp: produce_raster_batch_def Let_def rows_def comp_def map_err_def
        simp del: upt_Suc)
qed

lemma produce_raster_batch_size:
  "produce_raster_batch next n str disc pt req = Inr (b, next') \<Longrightarrow>
   nr_samples b = min req (n - next) \<and> next' = next + min req (n - next) \<and> 1 \<le> nr_samples b"
  by (auto simp: produce_raster_batch_def Let_def latent_from_batch_def raster_indices_def
      dest: try_map_length split: if_splits)

subsection \<open>The samplers keep the contract\<close>

interpretation raster: sampler_contract "\<lambda>s. next_index s \<le> nr_points (rs_geometry s)"
  raster_generate raster_feedback
proof unfold_locales
  show "\<exists>e. raster_generate s 0 = Inl e" for s by (simp add: raster_generate_def)
next
  fix s n b r s'
  assume "next_index s \<le> nr_points (rs_geometry s)" "raster_generate s n = Inr (Generated b r, s')"
  then show "1 \<le> nr_samples b \<and> nr_samples b \<le> n \<and> (\<forall>k. r = Some k \<longrightarrow> nr_samples b \<le> k) \<and>
      next_index s' \<le> nr_points (rs_geometry s')"
    by (auto simp: raster_generate_def Let_def dest!: produce_raster_batch_size split: if_splits)
next
  fix s n g s'
  assume "next_index s \<le> nr_points (rs_geometry s)" "raster_generate s n = Inr (g, s')"
  then show "next_index s' \<le> nr_points (rs_geometry s')"
    by (auto simp: raster_generate_def Let_def dest!: produce_raster_batch_size split: if_splits)
qed (simp add: raster_feedback_def)

interpretation pdf_raster: sampler_contract "\<lambda>s. next_index s \<le> nr_points (rs_geometry s)"
  pdf_generate "pdf_feedback pdf_batch"
proof unfold_locales
  show "\<exists>e. pdf_generate s 0 = Inl e" for s :: "'a pdf_raster_sampler" by (simp add: pdf_generate_def)
next
  fix s s' :: "'a pdf_raster_sampler" and n b r
  assume "next_index s \<le> nr_points (rs_geometry s)" "pdf_generate s n = Inr (Generated b r, s')"
  then show "1 \<le> nr_samples b \<and> nr_samples b \<le> n \<and> (\<forall>k. r = Some k \<longrightarrow> nr_samples b \<le> k) \<and>
      next_index s' \<le> nr_points (rs_geometry s')"
    by (auto simp: pdf_generate_def Let_def dest!: produce_raster_batch_size split: if_splits)
next
  fix s s' :: "'a pdf_raster_sampler" and n g
  assume "next_index s \<le> nr_points (rs_geometry s)" "pdf_generate s n = Inr (g, s')"
  then show "next_index s' \<le> nr_points (rs_geometry s')"
    by (auto simp: pdf_generate_def Let_def dest!: produce_raster_batch_size split: if_splits)
next
  fix s s' :: "'a pdf_raster_sampler" and f
  assume "next_index s \<le> nr_points (rs_geometry s)" "pdf_feedback pdf_batch s f = Inr s'"
  then show "next_index s' \<le> nr_points (rs_geometry s')"
    by (auto simp: pdf_feedback_def record_strata_def ingest_pdf_adaptation_values_def Let_def
        split: if_splits)
qed

end
