(* ===== verification/Raster_Laws.thy ===== *)
theory Raster_Laws
  imports Raster_Sampler
begin

section \<open>What a raster produces\<close>

text \<open>
  Whatever the sizes of the draws, a raster sampler hands out every pixel exactly once, and
  a PDF image ends up with the values of its pixels, however the feedback is split.
\<close>

definition raster_ready :: "raster_sampler \<Rightarrow> bool" where
  "raster_ready s \<longleftrightarrow> raster_fits (rs_geometry s) \<and> stride s = coprime_stride (nr_points (rs_geometry s))
     \<and> next_index s \<le> nr_points (rs_geometry s)"

definition raster_point :: "raster_geometry \<Rightarrow> usize \<Rightarrow> point" where
  "raster_point g i = point_new (point_at g i) (raster_discrete g) f64_one"

lemma raster_generate_step:
  assumes "raster_ready s" "0 < req" "next_index s < nr_points (rs_geometry s)"
    and k: "k = min req (nr_points (rs_geometry s) - next_index s)"
  shows "\<exists>b. raster_generate s req = Inr (Generated (b :: 'r latent_batch) None, s\<lparr>next_index := next_index s + k\<rparr>) \<and>
    nr_samples b = k \<and> raster_ready (s\<lparr>next_index := next_index s + k\<rparr>) \<and>
    into_batch (payload b) = Inr (map (raster_point (rs_geometry s) \<circ> pixel (nr_points (rs_geometry s)))
        [next_index s..<next_index s + k])"
proof -
  let ?g = "rs_geometry s"
  obtain b :: "'r latent_batch" where
    "produce_raster_batch (next_index s) (nr_points ?g) (coprime_stride (nr_points ?g)) (raster_discrete ?g)
       (point_at ?g) req = Inr (b, next_index s + k)"
    "nr_samples b = k"
    "into_batch (payload b) = Inr (map (\<lambda>i. point_new (point_at ?g (pixel (nr_points ?g) i)) (raster_discrete ?g) f64_one)
        [next_index s..<next_index s + k])"
    using produce_raster_batch_spec [OF _ refl assms(3,2) k, of "raster_discrete ?g"] assms(1)
    by (auto simp: raster_ready_def)
  then show ?thesis
    using assms by (auto simp: raster_generate_def raster_ready_def raster_point_def comp_def)
qed

lemma raster_draws_decode:
  assumes "raster_ready s" "\<forall>n \<in> set ns. 0 < n"
  shows "\<exists>bs pss s'. draws raster_generate s ns = Inr (bs :: 'r latent_batch list, s') \<and>
    list_all2 (\<lambda>b ps. into_batch (payload b) = Inr ps) bs pss \<and>
    next_index s' = min (nr_points (rs_geometry s)) (next_index s + sum_list ns) \<and>
    concat pss = map (raster_point (rs_geometry s) \<circ> pixel (nr_points (rs_geometry s))) [next_index s..<next_index s']"
  using assms
proof (induction ns arbitrary: s)
  case Nil
  then show ?case by (auto simp: raster_ready_def intro!: exI [of _ "[]"])
next
  case (Cons n ns)
  let ?g = "rs_geometry s" and ?N = "nr_points (rs_geometry s)"
  show ?case
  proof (cases "next_index s < ?N")
    case True
    define k where "k = min n (?N - next_index s)"
    define s1 where "s1 = s\<lparr>next_index := next_index s + k\<rparr>"
    obtain b :: "'r latent_batch" where b: "raster_generate s n = Inr (Generated b None, s1)" "raster_ready s1"
      "into_batch (payload b) = Inr (map (raster_point ?g \<circ> pixel ?N) [next_index s..<next_index s + k])"
      using raster_generate_step [OF Cons.prems(1) _ True k_def] Cons.prems(2) by (auto simp: s1_def)
    have g1: "rs_geometry s1 = ?g" "next_index s1 = next_index s + k" by (simp_all add: s1_def)
    obtain bs pss s' where rest: "draws raster_generate s1 ns = Inr (bs :: 'r latent_batch list, s')"
      "list_all2 (\<lambda>b ps. into_batch (payload b) = Inr ps) bs pss"
      "next_index s' = min ?N (next_index s1 + sum_list ns)"
      "concat pss = map (raster_point ?g \<circ> pixel ?N) [next_index s1..<next_index s']"
      using Cons.IH [OF b(2)] Cons.prems(2) unfolding g1(1) by auto
    have le: "next_index s \<le> next_index s1" "next_index s1 \<le> next_index s'"
      using True rest(3) by (auto simp: g1 k_def)
    then have "[next_index s..<next_index s'] = [next_index s..<next_index s + k] @ [next_index s1..<next_index s']"
      using g1(2) upt_add_eq_append [of "next_index s" "next_index s1" "next_index s' - next_index s1"] by simp
    moreover have "next_index s' = min ?N (next_index s + sum_list (n # ns))"
      using rest(3) True by (auto simp: g1 k_def)
    ultimately show ?thesis
      using b rest by (intro exI [of _ "b # bs"] exI [of _ "map (raster_point ?g \<circ> pixel ?N) [next_index s..<next_index s + k] # pss"]
          exI [of _ s']) simp
  next
    case False
    then have "next_index s = ?N" using Cons.prems(1) by (simp add: raster_ready_def)
    then show ?thesis
      using Cons.prems(2) by (auto simp: raster_generate_def intro!: exI [of _ "[]"])
  qed
qed

lemma mset_pixels:
  assumes "0 < n" "n \<le> 2 ^ 32"
  shows "image_mset (pixel n) (mset [0..<n]) = mset [0..<n]"
proof -
  have inj: "inj_on (pixel n) {0..<n}" and img: "pixel n ` {0..<n} = {0..<n}"
    using pixel_bij [OF assms] by (simp_all add: bij_betw_def atLeast0LessThan)
  have "mset [0..<n] = mset_set {0..<n}" by (simp add: mset_upt)
  then show ?thesis using image_mset_mset_set [OF inj] img by simp
qed

lemma raster_from_params_ready:
  assumes "raster_from_params sqrt_f g d = Inr s" "raster_fits g"
  shows "raster_ready s" "rs_geometry s = g" "next_index s = 0"
  using assms by (auto simp: raster_from_params_def raster_ready_def)

lemma draws_geometry:
  "draws raster_generate s ns = Inr (bs :: 'r latent_batch list, s') \<Longrightarrow> rs_geometry s' = rs_geometry s"
proof (induction ns arbitrary: s bs)
  case (Cons n ns)
  then obtain g :: "'r generation" and s1 where g: "raster_generate s n = Inr (g, s1)"
    by (auto simp: result_simps)
  then have "rs_geometry s1 = rs_geometry s"
    by (auto simp: raster_generate_def Let_def split: if_splits)
  then show ?case using Cons g by (cases g) (auto simp: result_simps)
qed simp

text \<open>C21. A raster sampler visits every pixel exactly once: for every geometry of at most
  2^32 pixels that is valid in the domain, and for all sizes of the draws that suffice, each
  draw is a batch that decodes, and together the batches hold exactly the points of the
  geometry, each with weight one; afterwards the sampler reports that it has finished.\<close>

theorem raster_visits_every_pixel_once:
  assumes "raster_from_params sqrt_f g d = Inr s" "raster_fits g"
    and "\<forall>n \<in> set ns. 0 < n" "nr_points g \<le> sum_list ns"
  shows "\<exists>bs pss s'. draws raster_generate s ns = Inr (bs :: 'r latent_batch list, s') \<and>
    list_all2 (\<lambda>b ps. into_batch (payload b) = Inr ps) bs pss \<and>
    mset (concat pss) =
      mset (map (\<lambda>i. point_new (point_at g i) (raster_discrete g) f64_one) [0..<nr_points g]) \<and>
    raster_generate s' 1 = Inr (Finished :: 'r generation, s')"
proof -
  note ready = raster_from_params_ready [OF assms(1,2)]
  obtain bs pss s' where d: "draws raster_generate s ns = Inr (bs :: 'r latent_batch list, s')"
    "list_all2 (\<lambda>b ps. into_batch (payload b) = Inr ps) bs pss"
    "next_index s' = nr_points g"
    "concat pss = map (raster_point g \<circ> pixel (nr_points g)) [0..<nr_points g]"
    using raster_draws_decode [OF ready(1) assms(3)] assms(4) unfolding ready(2,3) by auto
  have "mset (concat pss) = image_mset (raster_point g) (image_mset (pixel (nr_points g)) (mset [0..<nr_points g]))"
    by (simp add: d(4) multiset.map_comp del: mset_upt)
  also have "\<dots> = mset (map (raster_point g) [0..<nr_points g])"
    using mset_pixels [of "nr_points g"] assms(2) by (simp add: raster_fits_def del: mset_upt)
  finally have "mset (concat pss) = mset (map (raster_point g) [0..<nr_points g])" .
  moreover have "rs_geometry s' = g"
    using draws_geometry [OF d(1)] ready(2) by simp
  then have "raster_generate s' 1 = Inr (Finished :: 'r generation, s')"
    using d(3) by (simp add: raster_generate_def)
  ultimately show ?thesis using d(1,2) by (auto simp: raster_point_def [abs_def])
qed

definition demo_line :: line_geometry where
  "demo_line = \<lparr>lg_offset = [f64_zero], direction = [f64_one],
     lg_linspace = \<lparr>ls_start = f64_zero, ls_stop = F_Num False 4, ls_count = 5\<rparr>, lg_discrete = []\<rparr>"

lemma demo_line_valid:
  "raster_from_params sqrt_f (Line demo_line) (domain_continuous 1) =
     Inr \<lparr>rs_geometry = Line demo_line, next_index = 0, stride = coprime_stride 5\<rparr>"
  by (simp add: raster_from_params_def validate_line_geometry_def line_validate_def linspace_validate_def
      demo_line_def vector_norm_sq_def f64_sum_def f64_zero_def f64_one_def line_nr_points_def
      domain_continuous_def rectangular_def rectangular_with_cardinalities_def map_err_def ok_or_def
      f64_signed_def f64_of_rat_def)

lemma raster_visits_every_pixel_once_witness:
  "\<exists>bs pss s'. draws raster_generate \<lparr>rs_geometry = Line demo_line, next_index = 0, stride = coprime_stride 5\<rparr> [2, 4]
      = Inr (bs :: nat latent_batch list, s') \<and> length (concat pss) = 5 \<and>
    list_all2 (\<lambda>b ps. into_batch (payload b) = Inr ps) bs pss"
proof -
  have fits: "raster_fits (Line demo_line)"
    by (simp add: raster_fits_def demo_line_def line_nr_points_def usize_max_def)
  have n: "nr_points (Line demo_line) = 5" by (simp add: demo_line_def line_nr_points_def)
  then have enough: "\<forall>k \<in> set [2, 4]. 0 < (k :: nat)" "nr_points (Line demo_line) \<le> sum_list [2, 4]"
    by simp_all
  obtain bs :: "nat latent_batch list" and pss s' where
    d: "draws raster_generate \<lparr>rs_geometry = Line demo_line, next_index = 0, stride = coprime_stride 5\<rparr> [2, 4]
        = Inr (bs, s')" "list_all2 (\<lambda>b ps. into_batch (payload b) = Inr ps) bs pss"
    and points: "mset (concat pss) = mset (map (\<lambda>i. point_new (point_at (Line demo_line) i)
        (raster_discrete (Line demo_line)) f64_one) [0..<5])"
    using raster_visits_every_pixel_once [OF demo_line_valid fits enough, where 'r = nat] unfolding n by blast
  have "length (concat pss) = 5" using mset_eq_length [OF points] by simp
  with d show ?thesis by blast
qed

section \<open>PDF images\<close>

subsection \<open>Stores into a vector\<close>

definition patch :: "(nat \<Rightarrow> 'a) \<Rightarrow> nat list \<Rightarrow> 'a list \<Rightarrow> 'a list" where
  "patch h is xs = map (\<lambda>j. if j \<in> set is then h j else xs ! j) [0..<length xs]"

lemma length_patch [simp]: "length (patch h is xs) = length xs"
  by (simp add: patch_def)

lemma nth_patch [simp]: "j < length xs \<Longrightarrow> patch h is xs ! j = (if j \<in> set is then h j else xs ! j)"
  by (simp add: patch_def)

lemma patch_Nil [simp]: "patch h [] xs = xs"
  by (rule nth_equalityI) auto

lemma patch_Cons: "i < length xs \<Longrightarrow> patch h is (xs[i := h i]) = patch h (i # is) xs"
  by (rule nth_equalityI) (auto simp: nth_list_update)

lemma store_fold:
  "set is \<subseteq> {..<length xs} \<Longrightarrow>
   try_fold (\<lambda>r (i, v). store_at i (f v) r) xs (zip is (map g is)) = Inr (patch (\<lambda>i. f (g i)) is xs)"
proof (induction "is" arbitrary: xs)
  case (Cons i "is")
  then show ?case using patch_Cons [of i xs "\<lambda>i. f (g i)" "is"] by (simp add: store_at_def)
qed simp

lemma record_integrand_patch:
  "set is \<subseteq> {..<length vals} \<Longrightarrow> set is \<subseteq> {..<length pdfs} \<Longrightarrow>
   record_integrand (vals, pdfs) (zip is (map F is)) =
     Inr ((patch (\<lambda>i. finite_only (Some (F i))) is vals,
           patch (\<lambda>_. None) (filter (\<lambda>i. \<not> f64_is_finite (F i)) is) pdfs),
          filter (\<lambda>i. f64_is_finite (F i)) is)"
proof (induction "is" arbitrary: vals pdfs)
  case (Cons i "is")
  show ?case
  proof (cases "f64_is_finite (F i)")
    case True
    then show ?thesis
      using Cons.IH [of "vals[i := Some (F i)]" pdfs] Cons.prems
        patch_Cons [of i vals "\<lambda>i. finite_only (Some (F i))" "is"]
      by (simp add: store_at_def finite_only_def)
  next
    case False
    then show ?thesis
      using Cons.IH [of "vals[i := None]" "pdfs[i := None]"] Cons.prems
        patch_Cons [of i vals "\<lambda>i. finite_only (Some (F i))" "is"]
        patch_Cons [of i pdfs "\<lambda>_. None" "filter (\<lambda>i. \<not> f64_is_finite (F i)) is"]
      by (simp add: store_at_def finite_only_def)
  qed
qed simp

subsection \<open>The image after some of the samples\<close>

text \<open>\<open>F\<close> is the training value of a pixel and \<open>P\<close> the density at a point.\<close>

definition partial_image :: "usize \<Rightarrow> usize \<Rightarrow> (usize \<Rightarrow> 'a option) \<Rightarrow> 'a option list" where
  "partial_image n k h = map (\<lambda>j. if j \<in> pixel n ` {..<k} then h j else None) [0..<n]"

definition pixel_value :: "(usize \<Rightarrow> f64) \<Rightarrow> usize \<Rightarrow> f64 option" where
  "pixel_value F j = finite_only (Some (F j))"

definition pixel_density :: "(usize \<Rightarrow> f64) \<Rightarrow> (pdf_point \<Rightarrow> f64 option) \<Rightarrow> raster_geometry \<Rightarrow> usize \<Rightarrow> f64 option" where
  "pixel_density F P g j =
     (if f64_is_finite (F j) then finite_only (P (raster_discrete g, point_at g j)) else None)"

definition image_ready ::
  "(usize \<Rightarrow> f64) \<Rightarrow> (pdf_point \<Rightarrow> f64 option) \<Rightarrow> 's pdf_raster_sampler \<Rightarrow> bool" where
  "image_ready F P s \<longleftrightarrow>
     (let g = rs_geometry s; n = nr_points g; k = ingested_samples s in
      raster_fits g \<and> stride s = coprime_stride n \<and> k \<le> n \<and>
      integrand_values (output_state s) = partial_image n k (pixel_value F) \<and>
      pdf_values (output_state s) = partial_image n k (pixel_density F P g))"

text \<open>The source sampler answers a query of densities point by point.\<close>

definition answers_pointwise ::
  "('s \<Rightarrow> pdf_point list \<Rightarrow> engine_error + (f64 option list \<times> 's)) \<Rightarrow> (pdf_point \<Rightarrow> f64 option) \<Rightarrow> bool" where
  "answers_pointwise pdf_batch P \<longleftrightarrow> (\<forall>src pts. \<exists>src'. pdf_batch src pts = Inr (map P pts, src'))"

lemma image_lessThan_Suc: "f ` {..<k + m} = f ` {..<k} \<union> set (map f [k..<k + m])"
  by (force simp: image_iff)

lemma partial_image_extend:
  "patch h (map (pixel n) [k..<k + m]) (partial_image n k h) = partial_image n (k + m) h"
  by (rule nth_equalityI) (auto simp: partial_image_def image_lessThan_Suc)

lemma ingest_step:
  assumes "image_ready F P s"
    and pdf: "answers_pointwise pdf_batch P"
    and m: "ingested_samples s + m \<le> nr_points (rs_geometry s)"
    and vs: "vs = map (F \<circ> pixel (nr_points (rs_geometry s))) [ingested_samples s..<ingested_samples s + m]"
  shows "\<exists>s'. ingest_pdf_adaptation_values pdf_batch s vs = Inr s' \<and> image_ready F P s' \<and>
    rs_geometry s' = rs_geometry s \<and> ingested_samples s' = ingested_samples s + m"
proof -
  let ?g = "rs_geometry s" and ?n = "nr_points (rs_geometry s)" and ?k = "ingested_samples s"
  let ?out = "output_state s"
  define js where "js = map (pixel ?n) [?k..<?k + m]"
  have n: "0 < ?n" "?n \<le> 2 ^ 32" and ready: "stride s = coprime_stride ?n"
    "integrand_values ?out = partial_image ?n ?k (pixel_value F)"
    "pdf_values ?out = partial_image ?n ?k (pixel_density F P ?g)"
    using assms(1) by (auto simp: image_ready_def Let_def raster_fits_def)
  have indices: "raster_indices ?k m ?n (stride s) = Inr js"
    using raster_indices_pixels [of ?k m ?n] m n ready by (simp add: js_def)
  have js: "set js \<subseteq> {..<?n}" using pixel_less [of _ ?n] m n by (auto simp: js_def)
  have lens: "length (integrand_values ?out) = ?n" "length (pdf_values ?out) = ?n"
    by (simp_all add: ready partial_image_def)
  have vs': "vs = map F js" by (simp add: vs js_def)
  let ?fin = "filter (\<lambda>i. f64_is_finite (F i)) js" and ?bad = "filter (\<lambda>i. \<not> f64_is_finite (F i)) js"
  let ?pt = "\<lambda>i. (raster_discrete ?g, point_at ?g i)"
  obtain src' where src: "pdf_batch (source_sampler s) (map ?pt ?fin) = Inr (map P (map ?pt ?fin), src')"
    using pdf unfolding answers_pointwise_def by blast
  define vals' where "vals' = patch (pixel_value F) js (integrand_values ?out)"
  define pdfs' where "pdfs' = patch (\<lambda>i. finite_only (P (?pt i))) ?fin (patch (\<lambda>_. None) ?bad (pdf_values ?out))"
  have "try_fold (\<lambda>r (i, v). store_at i (finite_only v) r) (patch (\<lambda>_. None) ?bad (pdf_values ?out))
      (zip ?fin (map (\<lambda>i. P (?pt i)) ?fin)) = Inr pdfs'"
    unfolding pdfs'_def using js lens by (intro store_fold) auto
  then have "record_pdf_adaptation_values pdf_batch ?out (source_sampler s) js vs ?pt =
      Inr (?out\<lparr>integrand_values := vals', pdf_values := pdfs'\<rparr>, src')"
    using record_integrand_patch [of js "integrand_values ?out" "pdf_values ?out" F] js lens src
    by (simp add: record_pdf_adaptation_values_def vs' vals'_def pixel_value_def [abs_def] comp_def)
  then have "ingest_pdf_adaptation_values pdf_batch s vs =
      Inr (s\<lparr>output_state := ?out\<lparr>integrand_values := vals', pdf_values := pdfs'\<rparr>, source_sampler := src',
        ingested_samples := ?k + m\<rparr>)"
    using m indices by (simp add: ingest_pdf_adaptation_values_def vs)
  moreover have "vals' = partial_image ?n (?k + m) (pixel_value F)"
    by (simp only: vals'_def js_def ready partial_image_extend)
  moreover have "pdfs' = patch (pixel_density F P ?g) js (pdf_values ?out)"
    using lens by (intro nth_equalityI) (auto simp: pdfs'_def pixel_density_def)
  then have "pdfs' = partial_image ?n (?k + m) (pixel_density F P ?g)"
    by (simp only: js_def ready partial_image_extend)
  ultimately show ?thesis
    using assms(1) m by (auto simp: image_ready_def Let_def)
qed

subsection \<open>Feedback in fragments\<close>

fun pdf_feedbacks ::
  "('s \<Rightarrow> pdf_point list \<Rightarrow> engine_error + (f64 option list \<times> 's)) \<Rightarrow> 's pdf_raster_sampler
    \<Rightarrow> f64 list list \<Rightarrow> engine_error + 's pdf_raster_sampler" where
  "pdf_feedbacks pdf_batch s [] = Inr s"
| "pdf_feedbacks pdf_batch s (vs # vss) =
     and_then (pdf_feedback pdf_batch s (feedback_new vs)) (\<lambda>s'. pdf_feedbacks pdf_batch s' vss)"

lemma upt_split_append:
  assumes "xs @ ys = map f [k..<n]"
  shows "xs = map f [k..<k + length xs] \<and> ys = map f [k + length xs..<n] \<and>
    (length xs = 0 \<or> k + length xs \<le> n)"
proof -
  have "length xs \<le> n - k" using arg_cong [OF assms, of length] by simp
  moreover have "xs = take (length xs) (map f [k..<n])" "ys = drop (length xs) (map f [k..<n])"
    using assms by (metis append_eq_conv_conj)+
  ultimately show ?thesis by (cases "k \<le> n") (auto simp: take_map drop_map)
qed

lemma pdf_feedbacks_image:
  assumes "image_ready F P s" "image_strata (output_state s) = None"
    and pdf: "answers_pointwise pdf_batch P"
    and "concat vss = map (F \<circ> pixel (nr_points (rs_geometry s))) [ingested_samples s..<nr_points (rs_geometry s)]"
  shows "\<exists>s'. pdf_feedbacks pdf_batch s vss = Inr s' \<and> image_ready F P s' \<and>
    rs_geometry s' = rs_geometry s \<and> ingested_samples s' = nr_points (rs_geometry s) \<and>
    image_strata (output_state s') = None"
  using assms(1,2,4)
proof (induction vss arbitrary: s)
  case Nil
  then show ?case by (auto simp: image_ready_def Let_def)
next
  case (Cons vs vss)
  let ?g = "rs_geometry s" and ?n = "nr_points (rs_geometry s)" and ?k = "ingested_samples s"
  have k: "?k \<le> ?n" using Cons.prems(1) by (simp add: image_ready_def Let_def)
  have eq: "vs @ concat vss = map (F \<circ> pixel ?n) [?k..<?n]" using Cons.prems(3) by simp
  have vs: "vs = map (F \<circ> pixel ?n) [?k..<?k + length vs]" "?k + length vs \<le> ?n"
    "concat vss = map (F \<circ> pixel ?n) [?k + length vs..<?n]"
    using upt_split_append [OF eq] k by fastforce+
  obtain s1 where s1: "ingest_pdf_adaptation_values pdf_batch s vs = Inr s1" "image_ready F P s1"
    "rs_geometry s1 = ?g" "ingested_samples s1 = ?k + length vs"
    using ingest_step [OF Cons.prems(1) pdf vs(2,1)] by blast
  moreover have "image_strata (output_state s1) = None"
    using s1(1) Cons.prems(2)
    by (auto simp: ingest_pdf_adaptation_values_def record_pdf_adaptation_values_def Let_def split: if_splits)
  ultimately show ?case
    using Cons.IH [of s1] Cons.prems(2) vs(3) by (auto simp: pdf_feedback_def feedback_new_def)
qed


lemma demo_line_pdf:
  "pdf_from_params_and_snapshot sqrt_f mass_batch (Line demo_line) src None False (domain_continuous 1) =
     Inr \<lparr>rs_geometry = Line demo_line, next_index = 0, stride = coprime_stride 5, ingested_samples = 0,
       output_state = image_output_new 5, source_sampler = src, evaluation_discrete = []\<rparr>"
proof -
  have "raster_validate_domain sqrt_f (Line demo_line) (domain_continuous 1) = Inr ()"
    using demo_line_valid [of sqrt_f] by (auto simp: raster_from_params_def)
  then show ?thesis
    by (simp add: pdf_from_params_and_snapshot_def demo_line_def line_nr_points_def Let_def)
qed


end
