(* ===== verification/Parameter_Grid.thy ===== *)
theory Parameter_Grid
  imports F64 Errors Text_Codec
begin

section \<open>Parameter values and cartesian grids\<close>

text \<open>
  The value sources of parameter scans and tunings (\<open>ParameterValueSourceSpec\<close> and its
  parts in \<open>src/core/tasks.rs\<close>) and the enumeration of the grid they span
  (\<open>src/runners/parameter_grid.rs\<close>). A \<open>toml::Value\<close> is the datatype of its
  variants; a date keeps its text. A \<open>BTreeMap\<close> that is only looked up is a map.
\<close>

datatype toml_value =
    Toml_String string
  | Toml_Integer i64
  | Toml_Float f64
  | Toml_Boolean bool
  | Toml_Datetime string
  | Toml_Array "toml_value list"
  | Toml_Table "(string \<times> toml_value) list"

record parameter_linspace =
  pl_start :: f64
  pl_stop :: f64
  pl_count :: usize

record parameter_integer_range =
  pr_min :: i64
  pr_max :: i64
  pr_step :: "i64 option"

datatype parameter_source =
    Values "toml_value list"
  | Linspace_Values parameter_linspace
  | Range_Values parameter_integer_range

subsection \<open>Values\<close>

definition linspace_value :: "parameter_linspace \<Rightarrow> f64 \<Rightarrow> usize \<Rightarrow> toml_value" where
  "linspace_value l denominator index =
     Toml_Float (f64_add (pl_start l)
       (f64_mul (f64_div (f64_of_nat index) denominator) (f64_sub (pl_stop l) (pl_start l))))"

definition parameter_linspace_values :: "parameter_linspace \<Rightarrow> string + toml_value list" where
  "parameter_linspace_values l =
     (if \<not> f64_is_finite (pl_start l) \<or> \<not> f64_is_finite (pl_stop l)
      then Inl ''linspace bounds must be finite''
      else if pl_count l = 0 then Inl ''linspace.count must be > 0''
      else if pl_count l = 1 then Inr [Toml_Float (pl_start l)]
      else Inr (map (linspace_value l (f64_of_nat (pl_count l - 1))) [0..<pl_count l]))"

text \<open>
  The \<open>while\<close> loop over an integer range. It only runs with a positive step (the caller
  has rejected the others, with which the loop would not end).
\<close>

function range_loop :: "i64 \<Rightarrow> i64 \<Rightarrow> i64 \<Rightarrow> toml_value list" where
  "range_loop hi step v =
     (if v \<le> hi \<and> 0 < step
      then Toml_Integer v #
        (case checked_add_i64 v step of None \<Rightarrow> [] | Some next \<Rightarrow> range_loop hi step next)
      else [])"
  by auto
termination
  by (relation "measure (\<lambda>(hi, step, v). nat (hi + 1 - v))")
    (auto simp: checked_add_i64_def split: if_splits)

declare range_loop.simps [simp del]

definition integer_range_values :: "parameter_integer_range \<Rightarrow> string + toml_value list" where
  "integer_range_values r =
     (if pr_min r > pr_max r then Inl ''range.min must be <= max''
      else
        let step = (case pr_step r of None \<Rightarrow> 1 | Some s \<Rightarrow> s) in
        if step \<le> 0 then Inl ''range.step must be > 0''
        else Inr (range_loop (pr_max r) step (pr_min r)))"

fun source_values :: "parameter_source \<Rightarrow> string + toml_value list" where
  "source_values (Values vs) = (if vs = [] then Inl ''values must not be empty'' else Inr vs)"
| "source_values (Linspace_Values l) = parameter_linspace_values l"
| "source_values (Range_Values r) = integer_range_values r"

definition source_len :: "parameter_source \<Rightarrow> string + usize" where
  "source_len s = and_then (source_values s) (\<lambda>vs. Inr (length vs))"

definition source_validate :: "parameter_source \<Rightarrow> string + unit" where
  "source_validate s = and_then (source_values s) (\<lambda>_. Inr ())"

definition validate_source_name :: "string \<Rightarrow> string + unit" where
  "validate_source_name name =
     (let trimmed = trim name in
      if trimmed = [] then Inl ''from_name must be non-empty''
      else if trimmed \<noteq> name then Inl ''from_name cannot have leading/trailing whitespace''
      else Inr ())"

record scan_parameter =
  sp_name :: string
  sp_source :: parameter_source

definition scan_parameter_values :: "scan_parameter \<Rightarrow> string + toml_value list" where
  "scan_parameter_values p = source_values (sp_source p)"

definition scan_parameter_validate :: "scan_parameter \<Rightarrow> string + unit" where
  "scan_parameter_validate p =
     and_then (validate_source_name (sp_name p)) (\<lambda>_. source_validate (sp_source p))"

text \<open>The fold of \<open>checked_mul\<close> with its early exits.\<close>

fun scan_len_fold :: "usize \<Rightarrow> scan_parameter list \<Rightarrow> usize option" where
  "scan_len_fold acc [] = Some acc"
| "scan_len_fold acc (p # ps) =
     (case scan_parameter_values p of
        Inl _ \<Rightarrow> None
      | Inr vs \<Rightarrow>
          (case checked_mul_usize acc (length vs) of
             None \<Rightarrow> None | Some acc' \<Rightarrow> scan_len_fold acc' ps))"

definition parameter_scan_grid_len :: "scan_parameter list \<Rightarrow> usize option" where
  "parameter_scan_grid_len ps = (if ps = [] then None else scan_len_fold 1 ps)"

subsection \<open>Grids\<close>

record grid_item =
  item_name :: string
  item_values :: "toml_value list"

definition cartesian_grid_len :: "grid_item list \<Rightarrow> store_error + usize" where
  "cartesian_grid_len items =
     try_fold (\<lambda>size item.
       ok_or (checked_mul_usize size (length (item_values item)))
         (Internal ''parameter grid size overflow'')) 1 items"

text \<open>The loop over the items in reverse, the last one fastest.\<close>

fun grid_point_loop ::
  "grid_item list \<Rightarrow> usize \<Rightarrow> (string \<rightharpoonup> toml_value) \<Rightarrow> store_error + (usize \<times> (string \<rightharpoonup> toml_value))" where
  "grid_point_loop [] index selected = Inr (index, selected)"
| "grid_point_loop (item # items) index selected =
     (let n = length (item_values item) in
      if n = 0 then Inl (Internal ''parameter grid item has no values'')
      else grid_point_loop items (index div n)
             (selected(item_name item \<mapsto> item_values item ! (index mod n))))"

definition cartesian_grid_point :: "grid_item list \<Rightarrow> usize \<Rightarrow> store_error + (string \<rightharpoonup> toml_value)" where
  "cartesian_grid_point items index =
     and_then (grid_point_loop (rev items) index Map.empty) (\<lambda>(rest, selected).
       if rest \<noteq> 0 then Inl (Internal ''parameter grid index exceeds grid size'')
       else Inr selected)"

subsection \<open>Laws of the value sources\<close>

lemma le_div_iff_int:
  fixes a b k :: int
  assumes "0 < b"
  shows "k \<le> a div b \<longleftrightarrow> k * b \<le> a"
proof
  assume "k \<le> a div b"
  then have "k * b \<le> a div b * b" using assms by simp
  also have "\<dots> \<le> a" using div_mult_mod_eq [of a b] pos_mod_sign [OF assms, of a] by linarith
  finally show "k * b \<le> a" .
next
  assume "k * b \<le> a"
  then have "k * b div b \<le> a div b" using assms by (rule zdiv_mono1)
  then show "k \<le> a div b" using assms by simp
qed

lemma range_loop_spec:
  assumes "0 < step" "hi \<le> i64_max" "lo \<ge> - i64_max - 1" "lo \<le> hi"
  shows "range_loop hi step lo = map (\<lambda>k. Toml_Integer (lo + int k * step)) [0..<nat ((hi - lo) div step) + 1]"
  using assms
proof (induction hi step lo rule: range_loop.induct)
  case (1 hi step v)
  show ?case
  proof (cases "v + step \<le> hi")
    case True
    then have next_value: "checked_add_i64 v step = Some (v + step)"
      using 1(2-5) by (simp add: checked_add_i64_def)
    have "nat ((hi - v) div step) = Suc (nat ((hi - (v + step)) div step))"
    proof -
      have "(hi - v) div step = (hi - (v + step)) div step + 1"
        using div_add_self1 [of step "hi - (v + step)"] 1(2) by (simp add: algebra_simps)
      then show ?thesis using True 1(2) by (simp add: pos_imp_zdiv_nonneg_iff nat_add_distrib)
    qed
    then show ?thesis
      using 1(1) [OF _ next_value] 1(2-5) True
      by (subst range_loop.simps)
        (simp add: next_value upt_conv_Cons [of 0] map_Suc_upt [symmetric] algebra_simps
          del: upt_Suc map_Suc_upt)
  next
    case False
    then have "(hi - v) div step = 0" using 1(2-5) by (simp add: div_pos_pos_trivial)
    then show ?thesis
      using False 1(2-5)
      by (subst range_loop.simps)
        (auto simp: checked_add_i64_def range_loop.simps [of hi step "v + step"])
  qed
qed

lemma integer_range_values_Inr:
  assumes "- i64_max - 1 \<le> pr_min r" "pr_max r \<le> i64_max"
  shows "integer_range_values r = Inr vs \<longleftrightarrow>
    pr_min r \<le> pr_max r \<and> (\<exists>step > 0. step = (case pr_step r of None \<Rightarrow> 1 | Some s \<Rightarrow> s) \<and>
      vs = map (\<lambda>k. Toml_Integer (pr_min r + int k * step)) [0..<nat ((pr_max r - pr_min r) div step) + 1])"
  using assms by (auto simp: integer_range_values_def Let_def range_loop_spec)

lemma source_values_nonempty:
  assumes "source_values s = Inr vs"
  shows "vs \<noteq> []"
  using assms
  by (cases s)
    (auto simp: parameter_linspace_values_def integer_range_values_def Let_def
      range_loop.simps [of _ _ "pr_min _"] split: if_splits)

lemma scan_len_fold_eq:
  "(\<forall>p \<in> set ps. \<exists>vs. scan_parameter_values p = Inr vs) \<Longrightarrow>
   scan_len_fold n ps = (case try_fold (\<lambda>size item.
       ok_or (checked_mul_usize size (length (item_values item))) e) n
       (map (\<lambda>p. \<lparr>item_name = sp_name p, item_values = (case scan_parameter_values p of Inr vs \<Rightarrow> vs | Inl _ \<Rightarrow> [])\<rparr>) ps)
     of Inl _ \<Rightarrow> None | Inr k \<Rightarrow> Some k)"
  by (induction ps arbitrary: n) (auto simp: ok_or_def split: sum.splits option.splits)

subsection \<open>Laws of the grid\<close>

lemma nth_concat_blocks:
  assumes "r < length ys" "k < length xs"
  shows "concat (map (\<lambda>x. map (f x) ys) xs) ! (k * length ys + r) = f (xs ! k) (ys ! r)"
  using assms(2)
proof (induction xs arbitrary: k)
  case (Cons x xs)
  then show ?case
    using assms(1) by (cases k) (auto simp: nth_append)
qed simp

lemma length_product_lists: "length (product_lists xss) = prod_list (map length xss)"
  by (induction xss) (auto simp: length_concat o_def sum_list_triv)

abbreviation grid_size :: "grid_item list \<Rightarrow> nat" where
  "grid_size items \<equiv> prod_list (map (\<lambda>i. length (item_values i)) items)"

abbreviation grid_tuples :: "grid_item list \<Rightarrow> toml_value list list" where
  "grid_tuples items \<equiv> product_lists (map item_values items)"

abbreviation grid_assignment :: "grid_item list \<Rightarrow> toml_value list \<Rightarrow> (string \<rightharpoonup> toml_value)" where
  "grid_assignment items t \<equiv> map_of (zip (map item_name items) t)"

lemma length_grid_tuples: "length (grid_tuples items) = grid_size items"
  by (simp add: length_product_lists o_def)

lemma grid_size_pos: "\<forall>x \<in> set items. item_values x \<noteq> [] \<Longrightarrow> 0 < grid_size items"
  by (induction items) auto

lemma grid_size_zero: "\<exists>x \<in> set items. item_values x = [] \<Longrightarrow> grid_size items = 0"
  by (induction items) force+

lemma grid_point_loop_append:
  "grid_point_loop (xs @ ys) i m = and_then (grid_point_loop xs i m) (\<lambda>(r, m'). grid_point_loop ys r m')"
  by (induction xs arbitrary: i m) (auto simp: Let_def)

lemma grid_tuples_nth_Cons:
  assumes "0 < length (item_values x)" "0 < grid_size xs"
  shows "grid_tuples (x # xs) ! (i mod (length (item_values x) * grid_size xs)) =
    item_values x ! (i div grid_size xs mod length (item_values x)) # grid_tuples xs ! (i mod grid_size xs)"
proof -
  let ?n = "length (item_values x)" and ?N = "grid_size xs"
  have "i mod (?n * ?N) = (i div ?N mod ?n) * ?N + i mod ?N"
    using mod_mult2_eq [of i ?N ?n] by (simp add: mult.commute)
  then show ?thesis
    using nth_concat_blocks [of "i mod ?N" "grid_tuples xs" "i div ?N mod ?n" "item_values x" Cons] assms
    by (simp add: length_grid_tuples)
qed

lemma grid_point_loop_rev:
  assumes "\<forall>x \<in> set items. item_values x \<noteq> []"
  shows "grid_point_loop (rev items) i m =
    Inr (i div grid_size items, m ++ grid_assignment items (grid_tuples items ! (i mod grid_size items)))"
  using assms
proof (induction items)
  case (Cons x xs)
  then have n: "0 < length (item_values x)" and N: "0 < grid_size xs"
    by (auto intro: grid_size_pos)
  show ?case
    using Cons grid_tuples_nth_Cons [OF n N, of i] n
    by (auto simp: grid_point_loop_append Let_def div_mult2_eq [symmetric] mult.commute
        map_add_def fun_eq_iff simp del: product_lists.simps)
qed simp

lemma grid_point_loop_empty_item:
  "\<exists>x \<in> set items. item_values x = [] \<Longrightarrow> \<exists>e. grid_point_loop (rev items) i m = Inl e"
proof (induction items)
  case (Cons x xs)
  show ?case
  proof (cases "\<exists>y \<in> set xs. item_values y = []")
    case True
    then show ?thesis using Cons.IH by (auto simp: grid_point_loop_append)
  next
    case False
    then show ?thesis using Cons.prems by (simp add: grid_point_loop_append grid_point_loop_rev Let_def)
  qed
qed simp

lemma checked_mul_Some: "checked_mul_usize a b = Some c \<longleftrightarrow> a * b \<le> usize_max \<and> c = a * b"
  by (auto simp: checked_mul_usize_def)

lemma cartesian_fold:
  "try_fold (\<lambda>size item. ok_or (checked_mul_usize size (length (item_values item))) e) k items = Inr n \<Longrightarrow>
   n = k * grid_size items"
  by (induction items arbitrary: k) (fastforce simp: checked_mul_Some mult.assoc)+

lemma cartesian_grid_len_Inr: "cartesian_grid_len items = Inr n \<Longrightarrow> n = grid_size items"
  using cartesian_fold by (force simp: cartesian_grid_len_def)

lemma cartesian_grid_point_cases:
  "cartesian_grid_point items i = Inr m \<longleftrightarrow>
   i < grid_size items \<and> m = grid_assignment items (grid_tuples items ! i)"
proof (cases "\<exists>x \<in> set items. item_values x = []")
  case True
  then have "grid_size items = 0" by (rule grid_size_zero)
  with grid_point_loop_empty_item [OF True, of i Map.empty] show ?thesis
    by (auto simp: cartesian_grid_point_def)
next
  case False
  then have "0 < grid_size items" by (auto intro: grid_size_pos)
  then show ?thesis
    using False by (auto simp: cartesian_grid_point_def grid_point_loop_rev div_eq_0_iff)
qed

subsection \<open>Properties\<close>

text \<open>C24. The grid of a parameter scan is enumerated completely: when the size of the grid
  fits a \<open>usize\<close>, the points of the indices below it are exactly the assignments of the
  cartesian product of the value lists, in lexicographic order with the last parameter
  fastest, every other index is an error, and no assignment comes twice when the
  parameter names and the values of each parameter are distinct.\<close>

theorem grid_points_enumerate_product:
  assumes "cartesian_grid_len items = Inr n"
  shows "map (cartesian_grid_point items) [0..<n] =
      map (\<lambda>t. Inr (map_of (zip (map item_name items) t))) (product_lists (map item_values items))
    \<and> (is_ok (cartesian_grid_point items i) \<longleftrightarrow> i < n)
    \<and> (distinct (map item_name items) \<and> (\<forall>x \<in> set items. distinct (item_values x))
        \<longrightarrow> distinct (map (cartesian_grid_point items) [0..<n]))"
proof -
  have n: "n = grid_size items" using assms by (rule cartesian_grid_len_Inr)
  have enum: "map (cartesian_grid_point items) [0..<n] =
      map (\<lambda>t. Inr (grid_assignment items t)) (grid_tuples items)"
    by (rule nth_equalityI) (auto simp: n length_grid_tuples cartesian_grid_point_cases)
  moreover have "is_ok (cartesian_grid_point items i) \<longleftrightarrow> i < n"
    by (simp add: is_ok_iff cartesian_grid_point_cases n)
  moreover have "inj_on (\<lambda>t. Inr (grid_assignment items t) :: store_error + _) (set (grid_tuples items))"
    if "distinct (map item_name items)"
  proof (rule inj_onI)
    fix s t :: "toml_value list"
    assume st: "s \<in> set (grid_tuples items)" "t \<in> set (grid_tuples items)"
      and eq: "(Inr (grid_assignment items s) :: store_error + _) = Inr (grid_assignment items t)"
    have "length s = length items" "length t = length items"
      using st [THEN in_set_product_lists_length] by simp_all
    then show "s = t" using map_of_zip_inject [OF _ _ that, of s t] eq by simp
  qed
  moreover have "distinct (grid_tuples items)" if "\<forall>x \<in> set items. distinct (item_values x)"
    using that by (intro distinct_product_lists) auto
  ultimately show ?thesis by (auto simp: distinct_map)
qed

definition demo_items :: "grid_item list" where
  "demo_items =
     [\<lparr>item_name = ''a'', item_values = [Toml_Integer 1, Toml_Integer 2]\<rparr>,
      \<lparr>item_name = ''b'', item_values = [Toml_String ''x'', Toml_String ''y'']\<rparr>]"

lemma grid_points_enumerate_product_witness:
  "cartesian_grid_len demo_items = Inr 4 \<and>
   cartesian_grid_point demo_items 1 =
     Inr [''a'' \<mapsto> Toml_Integer 1, ''b'' \<mapsto> Toml_String ''y''] \<and>
   distinct (map (cartesian_grid_point demo_items) [0..<4])"
proof -
  have len: "cartesian_grid_len demo_items = Inr 4"
    by (simp add: demo_items_def cartesian_grid_len_def checked_mul_usize_def usize_max_def ok_or_def)
  have "cartesian_grid_point demo_items 1 = Inr [''a'' \<mapsto> Toml_Integer 1, ''b'' \<mapsto> Toml_String ''y'']"
    by (simp add: demo_items_def cartesian_grid_point_def fun_upd_twist)
  moreover have "distinct (map (cartesian_grid_point demo_items) [0..<4])"
    using grid_points_enumerate_product [OF len, of 0] by (auto simp: demo_items_def)
  ultimately show ?thesis using len by blast
qed

text \<open>An integer range yields the arithmetic progression from its minimum, by its step,
  up to its maximum, and nothing beyond it: it is accepted exactly with ordered bounds and a
  positive step, its values are the integers of the interval in the residue class of the
  minimum, and the loop ends also when the last addition leaves the range of \<open>i64\<close>.\<close>

theorem integer_range_is_progression:
  assumes "- i64_max - 1 \<le> pr_min r" "pr_max r \<le> i64_max"
    and "step = (case pr_step r of None \<Rightarrow> 1 | Some s \<Rightarrow> s)"
  shows "(is_ok (integer_range_values r) \<longleftrightarrow> pr_min r \<le> pr_max r \<and> 0 < step) \<and>
    (integer_range_values r = Inr vs \<longrightarrow>
      vs = map (\<lambda>k. Toml_Integer (pr_min r + int k * step)) [0..<length vs] \<and>
      set vs = {Toml_Integer v |v. pr_min r \<le> v \<and> v \<le> pr_max r \<and> v mod step = pr_min r mod step})"
proof -
  have ok: "is_ok (integer_range_values r) \<longleftrightarrow> pr_min r \<le> pr_max r \<and> 0 < step"
    using assms by (auto simp: is_ok_iff integer_range_values_def Let_def)
  have "vs = map (\<lambda>k. Toml_Integer (pr_min r + int k * step)) [0..<length vs] \<and>
      set vs = {Toml_Integer v |v. pr_min r \<le> v \<and> v \<le> pr_max r \<and> v mod step = pr_min r mod step}"
    if "integer_range_values r = Inr vs"
  proof -
    define N where "N = nat ((pr_max r - pr_min r) div step) + 1"
    have step: "0 < step" "pr_min r \<le> pr_max r"
      and vs: "vs = map (\<lambda>k. Toml_Integer (pr_min r + int k * step)) [0..<N]"
      using that assms integer_range_values_Inr [OF assms(1,2)] by (auto simp: N_def)
    have below: "k < N \<longleftrightarrow> int k * step \<le> pr_max r - pr_min r" for k
    proof -
      have "k < N \<longleftrightarrow> int k \<le> (pr_max r - pr_min r) div step"
        using step by (simp add: N_def less_Suc_eq_le le_nat_iff pos_imp_zdiv_nonneg_iff)
      then show ?thesis using step(1) by (simp add: le_div_iff_int)
    qed
    have "Toml_Integer v \<in> set vs \<longleftrightarrow> pr_min r \<le> v \<and> v \<le> pr_max r \<and> v mod step = pr_min r mod step" for v
    proof
      assume "Toml_Integer v \<in> set vs"
      then obtain k where "k < N" "v = pr_min r + int k * step" using vs by auto
      then show "pr_min r \<le> v \<and> v \<le> pr_max r \<and> v mod step = pr_min r mod step"
        using below [of k] step(1) by simp
    next
      assume v: "pr_min r \<le> v \<and> v \<le> pr_max r \<and> v mod step = pr_min r mod step"
      then obtain q where q: "v - pr_min r = step * q" by (metis mod_eq_dvd_iff dvdE)
      then have "0 \<le> q" using v step(1) by (metis diff_ge_0_iff_ge zero_le_mult_iff not_le)
      then have k: "v = pr_min r + int (nat q) * step" using q by (simp add: algebra_simps)
      then have "nat q < N" using v below [of "nat q"] by simp
      then have "Toml_Integer (pr_min r + int (nat q) * step) \<in>
          (\<lambda>k. Toml_Integer (pr_min r + int k * step)) ` {0..<N}" by (intro imageI) simp
      then show "Toml_Integer v \<in> set vs" by (subst vs) (simp only: k set_map set_upt)
    qed
    moreover have "\<exists>v. x = Toml_Integer v" if "x \<in> set vs" for x
      using that vs by auto
    ultimately have "set vs = {Toml_Integer v |v. pr_min r \<le> v \<and> v \<le> pr_max r \<and> v mod step = pr_min r mod step}"
      by blast
    with vs show ?thesis by simp
  qed
  with ok show ?thesis by blast
qed

lemma integer_range_is_progression_witness:
  "integer_range_values \<lparr>pr_min = 9223372036854775800, pr_max = 9223372036854775807, pr_step = Some 5\<rparr> =
     Inr [Toml_Integer 9223372036854775800, Toml_Integer 9223372036854775805] \<and>
   is_ok (integer_range_values \<lparr>pr_min = 9223372036854775800, pr_max = 9223372036854775807, pr_step = Some 5\<rparr>)"
  using integer_range_is_progression [of "\<lparr>pr_min = 9223372036854775800, pr_max = 9223372036854775807, pr_step = Some 5\<rparr>" 5]
  by (simp add: i64_max_def integer_range_values_def range_loop.simps checked_add_i64_def)

end
