(* ===== verification/Task_Spec.thy ===== *)
theory Task_Spec
  imports Parameter_Grid Raster_Geometry Stratification Sampler_Queue "HOL-Library.Signed_Division"
begin

section \<open>Task specifications\<close>

text \<open>
  \<open>src/core/tasks.rs\<close> and the sampling configuration of \<open>src/core/run_spec.rs\<close>: what a task
  of a run asks for, its validation and the questions the rest of the program asks of it.
  The payloads that are only stored and handed to their engines are type parameters: \<open>'e\<close>
  an evaluator configuration, \<open>'t\<close> a batch transform, \<open>'p\<close> the parameters of a sampler or
  a materializer. A \<open>BTreeMap\<close> is its entries in key order.
\<close>

subsection \<open>States and measurements\<close>

datatype run_task_state = TaskPending | TaskActive | TaskCompleted | TaskFailed

fun task_state_as_str :: "run_task_state \<Rightarrow> string" where
  "task_state_as_str TaskPending = ''pending''"
| "task_state_as_str TaskActive = ''active''"
| "task_state_as_str TaskCompleted = ''completed''"
| "task_state_as_str TaskFailed = ''failed''"

datatype metric_name =
    Mean | AbsMean | ErrorMetric | RelativeError | Variance | RelativeVarianceError | Rsd | Ess
  | TimeNormalizedVariance

record metric_selector =
  selector_name :: metric_name
  selector_component :: "string option"

datatype measurement_selection = AllComponentMeans | Metric metric_selector

datatype measurement_mode = Minimize | Maximize

record task_measurement =
  selection :: measurement_selection
  measurement_mode :: measurement_mode

record measurement_spec =
  source_task :: string
  measurement :: task_measurement

definition task_measurement_default :: task_measurement where
  "task_measurement_default = \<lparr>selection = AllComponentMeans, measurement_mode = Minimize\<rparr>"

fun selection_metric :: "metric_name \<Rightarrow> measurement_selection" where
  "selection_metric n = Metric \<lparr>selector_name = n, selector_component = None\<rparr>"

fun selection_selector :: "measurement_selection \<Rightarrow> metric_selector option" where
  "selection_selector AllComponentMeans = None"
| "selection_selector (Metric s) = Some s"

definition task_measurement_validate :: "task_measurement \<Rightarrow> string + unit" where
  "task_measurement_validate m =
     (case selection_selector (selection m) of
        None \<Rightarrow> Inr ()
      | Some s \<Rightarrow> (case selector_component s of None \<Rightarrow> Inr () | Some n \<Rightarrow> validate_source_name n))"

definition measurement_validate :: "measurement_spec \<Rightarrow> string + unit" where
  "measurement_validate m =
     and_then (validate_source_name (source_task m)) (\<lambda>_. task_measurement_validate (measurement m))"

subsection \<open>Hyperparameters\<close>

record float_domain =
  fd_min :: f64
  fd_max :: f64

record integer_domain =
  id_min :: i64
  id_max :: i64
  id_step :: "i64 option"

datatype parameter_domain =
    FloatDomain float_domain
  | IntegerDomain integer_domain
  | CategoricalDomain parameter_source

fun domain_validate :: "string \<Rightarrow> parameter_domain \<Rightarrow> string + unit" where
  "domain_validate name (FloatDomain d) =
     and_then (validate_source_name name) (\<lambda>_.
       if \<not> f64_is_finite (fd_min d) \<or> \<not> f64_is_finite (fd_max d) then Inl ''float bounds must be finite''
       else if f64_le (fd_max d) (fd_min d) then Inl ''float min must be < max'' else Inr ())"
| "domain_validate name (IntegerDomain d) =
     and_then (validate_source_name name) (\<lambda>_.
       if id_min d > id_max d then Inl ''integer min must be <= max''
       else if (case id_step d of None \<Rightarrow> False | Some s \<Rightarrow> s \<le> 0) then Inl ''integer step must be > 0''
       else Inr ())"
| "domain_validate name (CategoricalDomain s) =
     and_then (validate_source_name name) (\<lambda>_. source_validate s)"

datatype infill_strategy = Ei | LogEi | Wb2 | Wb2s

datatype qei_strategy =
    KrigingBeliever | KrigingBelieverLowerBound | KrigingBelieverUpperBound | ConstantLiarMinimum

record random_search_params =
  rnd_max_trials :: usize
  rnd_seed :: "u64 option"

record egobox_params =
  ego_max_trials :: usize
  ego_seed :: "u64 option"
  initial_design :: usize
  parallel_candidates :: usize
  infill :: "infill_strategy option"
  qei_strategy :: "qei_strategy option"
  qei_optmod :: "usize option"
  n_start :: "usize option"

datatype optimizer_spec = RandomSearch random_search_params | GridSearch | Egobox egobox_params

fun optimizer_validate :: "optimizer_spec \<Rightarrow> string + unit" where
  "optimizer_validate (RandomSearch p) =
     (if rnd_max_trials p = 0 then Inl ''random_search max_trials must be > 0'' else Inr ())"
| "optimizer_validate GridSearch = Inr ()"
| "optimizer_validate (Egobox p) =
     (if ego_max_trials p = 0 \<or> parallel_candidates p = 0 \<or> qei_optmod p = Some 0
      then Inl ''egobox max_trials, parallel_candidates and qei_optmod must be > 0'' else Inr ())"

text \<open>The quotient truncates and the cast keeps the 64 bits; a validated step is not zero.\<close>

fun hyperparameter_grid_domain_len :: "parameter_domain \<Rightarrow> usize option" where
  "hyperparameter_grid_domain_len (FloatDomain _) = None"
| "hyperparameter_grid_domain_len (CategoricalDomain s) =
     (case source_len s of Inl _ \<Rightarrow> None | Inr n \<Rightarrow> Some n)"
| "hyperparameter_grid_domain_len (IntegerDomain d) =
     (let step = (case id_step d of None \<Rightarrow> 1 | Some s \<Rightarrow> s);
          span = id_max d - id_min d
      in if span > i64_max \<or> span < - i64_max - 1 then None
         else Some (nat ((span sdiv step + 1) mod 2 ^ 64)))"

fun grid_len_fold :: "usize \<Rightarrow> parameter_domain list \<Rightarrow> usize option" where
  "grid_len_fold acc [] = Some acc"
| "grid_len_fold acc (d # ds) =
     (case hyperparameter_grid_domain_len d of None \<Rightarrow> None
      | Some n \<Rightarrow> (case checked_mul_usize acc n of None \<Rightarrow> None | Some acc' \<Rightarrow> grid_len_fold acc' ds))"

fun hyperparameter_tuning_trial_count ::
  "optimizer_spec \<Rightarrow> (string \<times> parameter_domain) list \<Rightarrow> usize option" where
  "hyperparameter_tuning_trial_count (RandomSearch p) ps = Some (rnd_max_trials p)"
| "hyperparameter_tuning_trial_count GridSearch ps = grid_len_fold 1 (map snd ps)"
| "hyperparameter_tuning_trial_count (Egobox p) ps = Some (ego_max_trials p)"

subsection \<open>Children of controllers\<close>

datatype child_run_source = Inline string | File string

definition child_source_validate :: "child_run_source \<Rightarrow> string + unit" where
  "child_source_validate s =
     (let text = (case s of Inline t \<Rightarrow> t | File f \<Rightarrow> f) in
      if trim text = [] then Inl ''child.run TOML text or file path must not be empty'' else Inr ())"

record child_template =
  template_run :: child_run_source
  template_replacements :: "(string \<times> toml_value) list"

record campaign_child =
  child_name :: string
  coefficient :: f64
  child_source :: child_run_source
  child_replacements :: "(string \<times> toml_value) list"

definition campaign_child_validate :: "campaign_child \<Rightarrow> string + unit" where
  "campaign_child_validate c =
     and_then (validate_source_name (child_name c)) (\<lambda>_.
       if \<not> f64_is_finite (coefficient c) then Inl ''coefficient must be finite''
       else and_then (child_source_validate (child_source c)) (\<lambda>_. Inr ()))"

datatype allocation_algorithm = LargestVariance | VarianceReductionRate

record campaign_allocation =
  algorithm :: allocation_algorithm
  max_active_runs :: usize
  min_evaluators_per_run :: usize
  allocation_window_samples :: i64
  min_samples_per_child :: i64

definition allocation_default :: campaign_allocation where
  "allocation_default = \<lparr>algorithm = VarianceReductionRate, max_active_runs = 1,
     min_evaluators_per_run = 2, allocation_window_samples = 10000, min_samples_per_child = 1000\<rparr>"

definition allocation_validate :: "campaign_allocation \<Rightarrow> string + unit" where
  "allocation_validate a =
     (if max_active_runs a = 0 then Inl ''allocation.max_active_runs must be > 0''
      else if min_evaluators_per_run a = 0 then Inl ''allocation.min_evaluators_per_run must be > 0''
      else if allocation_window_samples a \<le> 0
      then Inl ''allocation.allocation_window_samples must be > 0''
      else if min_samples_per_child a < 0
      then Inl ''allocation.min_samples_per_child must be >= 0''
      else Inr ())"

record campaign_stop =
  min_total_samples :: i64
  max_total_samples :: "i64 option"
  stop_absolute_error :: "f64 option"
  stop_relative_error :: "f64 option"

definition bad_error_bound :: "f64 option \<Rightarrow> bool" where
  "bad_error_bound v = (case v of None \<Rightarrow> False | Some x \<Rightarrow> \<not> f64_is_finite x \<or> f64_le x f64_zero)"

definition campaign_stop_validate :: "campaign_stop \<Rightarrow> string + unit" where
  "campaign_stop_validate c =
     (if min_total_samples c < 0 then Inl ''stop_condition.min_total_samples must be >= 0''
      else if (case max_total_samples c of None \<Rightarrow> False | Some v \<Rightarrow> v \<le> 0)
      then Inl ''stop_condition.max_total_samples must be > 0 when set''
      else if (case max_total_samples c of None \<Rightarrow> False | Some v \<Rightarrow> v < min_total_samples c)
      then Inl ''stop_condition.max_total_samples must be >= min_total_samples''
      else if bad_error_bound (stop_absolute_error c) \<or> bad_error_bound (stop_relative_error c)
      then Inl ''stop_condition error bounds must be finite and > 0 when set''
      else if max_total_samples c = None \<and> stop_absolute_error c = None \<and> stop_relative_error c = None
      then Inl ''stop_condition must set at least one of: max_total_samples, absolute_error, relative_error''
      else Inr ())"

subsection \<open>Sample tasks\<close>

record sample_stop =
  min_samples :: "i64 option"
  max_samples :: "i64 option"
  absolute_error :: "f64 option"
  relative_error :: "f64 option"
  stop_metric :: "metric_selector option"

definition sample_stop_validate :: "sample_stop \<Rightarrow> string + unit" where
  "sample_stop_validate c =
     (if (case min_samples c of None \<Rightarrow> False | Some v \<Rightarrow> v < 0)
      then Inl ''stop_condition.min_samples must be a non-negative integer when set''
      else if (case max_samples c of None \<Rightarrow> False | Some v \<Rightarrow> v < 0)
      then Inl ''stop_condition.max_samples must be a non-negative integer when set''
      else if (case (min_samples c, max_samples c) of (Some mn, Some mx) \<Rightarrow> mn > mx | _ \<Rightarrow> False)
      then Inl ''stop_condition.min_samples must be <= max_samples when both are set''
      else if bad_error_bound (absolute_error c)
      then Inl ''stop_condition.absolute_error must be finite and > 0 when set''
      else if bad_error_bound (relative_error c)
      then Inl ''stop_condition.relative_error must be finite and > 0 when set''
      else if max_samples c = None \<and> absolute_error c = None \<and> relative_error c = None
      then Inl ''stop_condition must set at least one of: max_samples, absolute_error, relative_error''
      else Inr ())"

datatype source_ref = RefLatest | RefFromName string

datatype 'c stage_source =
    FromStage 'c string
  | Latest string
  | FromName string
  | Config 'c

definition validate_ref :: "string \<Rightarrow> 'c stage_source \<Rightarrow> string + unit" where
  "validate_ref field s =
     (case s of
        Latest value \<Rightarrow> if value = ''latest'' then Inr () else Inl ''must be one of: latest, from_name, config''
      | FromName name \<Rightarrow> validate_source_name name
      | FromStage _ stage \<Rightarrow>
          if field \<noteq> ''sampler'' then Inl ''from_stage only applies to sampler initialization''
          else validate_source_name stage
      | Config _ \<Rightarrow> Inr ())"

datatype 'p sampler_config =
    NaiveMonteCarlo 'p
  | RasterPlane plane_geometry
  | RasterLine line_geometry
  | PdfAdaptationRasterPlane plane_geometry
  | PdfAdaptationRasterLine line_geometry
  | HavanaTraining 'p
  | HavanaInferenceSampler 'p
  | ProcessSampler 'p

record ('t, 'p) sampling_config =
  sc_stratification :: "stratification_config option"
  sc_sampler :: "'p sampler_config"
  sc_materializer :: "'p option"
  sc_transforms :: "'t list option"

datatype plot_accumulator_kind = PlotScalar | PlotVector

fun plot_components :: "plot_accumulator_kind \<Rightarrow> string list" where
  "plot_components PlotScalar = [''value'']"
| "plot_components PlotVector = [''real'', ''imag'']"

definition plot_full_config :: "plot_accumulator_kind \<Rightarrow> accumulator_config" where
  "plot_full_config k = FullVector (plot_components k)"

datatype image_display = ImageAuto | ScalarHeatmap | VectorMagnitude | ComplexPhase

datatype line_display = LineAuto | ScalarCurve | Components

datatype ('e, 't, 'p) run_task_spec =
    SetAccumulator accumulator_config
  | Sample (sample_estimator: estimator) (publish_result: bool)
      (stop_condition: sample_stop) (measurement_part: "task_measurement option")
      (evaluator_part: "'e stage_source option")
      (sampler_part: "('t, 'p) sampling_config stage_source option")
      (accumulator_part: "accumulator_config stage_source option")
      (queue_tuning: "sampler_queue_tuning option") (transforms_part: "'t list option")
  | Image plane_geometry plot_accumulator_kind "'e stage_source option" image_display "'t list option"
  | PdfAdaptationImage plane_geometry "('t, 'p) sampling_config stage_source option" "'t list option"
  | PdfAdaptationPlotLine line_geometry "('t, 'p) sampling_config stage_source option" "'t list option"
  | PlotLine line_geometry plot_accumulator_kind "'e stage_source option" line_display "'t list option"
  | ParameterScan "scan_parameter list" measurement_spec child_template usize
  | HyperparameterTuning optimizer_spec measurement_spec "(string \<times> parameter_domain) list" child_template usize
  | IntegrationCampaign "campaign_child list" task_measurement campaign_stop campaign_allocation

subsection \<open>Validation\<close>

definition validate_opt :: "('a \<Rightarrow> string + unit) \<Rightarrow> 'a option \<Rightarrow> string + unit" where
  "validate_opt f x = (case x of None \<Rightarrow> Inr () | Some y \<Rightarrow> f y)"

fun source_config :: "'c stage_source \<Rightarrow> 'c option" where
  "source_config (Config c) = Some c"
| "source_config (FromStage c _) = Some c"
| "source_config _ = None"

definition partition_of_source :: "('t, 'p) sampling_config stage_source \<Rightarrow> stratification_config option" where
  "partition_of_source s = (case source_config s of None \<Rightarrow> None | Some c \<Rightarrow> sc_stratification c)"

definition validate_partition :: "stratification_config \<Rightarrow> string + unit" where
  "validate_partition p = map_err (\<lambda>_. ''invalid stratification'') (config_validate p)"

definition validate_accumulator_source :: "accumulator_config stage_source \<Rightarrow> string + unit" where
  "validate_accumulator_source s =
     and_then (validate_ref ''accumulator'' s) (\<lambda>_.
       case s of Config c \<Rightarrow> accumulator_validate c | _ \<Rightarrow> Inr ())"

definition validate_pdf_source :: "('t, 'p) sampling_config stage_source \<Rightarrow> string + unit" where
  "validate_pdf_source s =
     (case s of
        Config _ \<Rightarrow> Inl ''sampler must be omitted, latest, or from_name''
      | FromStage _ _ \<Rightarrow> Inl ''sampler must be omitted, latest, or from_name''
      | _ \<Rightarrow> validate_ref ''sampler'' s)"

definition trains_havana :: "('t, 'p) sampling_config stage_source option \<Rightarrow> bool" where
  "trains_havana s =
     (case s of Some (Config c) \<Rightarrow> (case sc_sampler c of HavanaTraining _ \<Rightarrow> True | _ \<Rightarrow> False) | _ \<Rightarrow> False)"

fun validate_each :: "('a \<Rightarrow> string + unit) \<Rightarrow> 'a list \<Rightarrow> string + unit" where
  "validate_each f [] = Inr ()"
| "validate_each f (x # xs) = and_then (f x) (\<lambda>_. validate_each f xs)"

fun validate_children :: "string list \<Rightarrow> campaign_child list \<Rightarrow> string + unit" where
  "validate_children names [] = Inr ()"
| "validate_children names (c # cs) =
     and_then (campaign_child_validate c) (\<lambda>_.
       if child_name c \<in> set names then Inl ''integration_campaign child name is duplicated''
       else validate_children (child_name c # names) cs)"

fun spec_validate :: "(f64 \<Rightarrow> f64) \<Rightarrow> ('e, 't, 'p) run_task_spec \<Rightarrow> string + unit" where
  "spec_validate sqrt_f (SetAccumulator a) = accumulator_validate a"
| "spec_validate sqrt_f (Sample est publish stop meas ev smp acc tuning bts) =
     (if trains_havana smp \<and> max_samples stop = None
      then Inl ''sample task with havana_training sampler requires stop_condition.max_samples for training budget''
      else
        and_then (sample_stop_validate stop) (\<lambda>_.
        and_then (validate_opt task_measurement_validate meas) (\<lambda>_.
        and_then (validate_opt (validate_ref ''evaluator'') ev) (\<lambda>_.
        and_then (validate_opt (validate_ref ''sampler'') smp) (\<lambda>_.
        and_then (validate_opt (\<lambda>s. validate_opt validate_partition (partition_of_source s)) smp) (\<lambda>_.
        and_then (validate_opt validate_accumulator_source acc) (\<lambda>_.
          validate_opt tuning_validate tuning)))))))"
| "spec_validate sqrt_f (Image g acc ev disp bts) =
     and_then (plane_validate sqrt_f g) (\<lambda>_. validate_opt (validate_ref ''evaluator'') ev)"
| "spec_validate sqrt_f (PdfAdaptationImage g smp bts) =
     and_then (plane_validate sqrt_f g) (\<lambda>_. validate_opt validate_pdf_source smp)"
| "spec_validate sqrt_f (PdfAdaptationPlotLine g smp bts) =
     and_then (line_validate g) (\<lambda>_. validate_opt validate_pdf_source smp)"
| "spec_validate sqrt_f (PlotLine g acc ev disp bts) =
     and_then (line_validate g) (\<lambda>_. validate_opt (validate_ref ''evaluator'') ev)"
| "spec_validate sqrt_f (ParameterScan ps meas child runs) =
     (if ps = [] then Inl ''parameter_scan.parameters must not be empty''
      else and_then (validate_each scan_parameter_validate ps) (\<lambda>_.
        and_then (measurement_validate meas) (\<lambda>_.
        and_then (child_source_validate (template_run child)) (\<lambda>_.
          if runs = 0 then Inl ''parameter_scan.max_concurrent_runs must be > 0'' else Inr ()))))"
| "spec_validate sqrt_f (HyperparameterTuning opt objective ps child trials) =
     and_then (optimizer_validate opt) (\<lambda>_.
     and_then (measurement_validate objective) (\<lambda>_.
       if ps = [] then Inl ''hyperparameter_tuning.parameters must not be empty''
       else and_then (validate_each (\<lambda>(n, d). domain_validate n d) ps) (\<lambda>_.
         and_then (child_source_validate (template_run child)) (\<lambda>_.
           if trials = 0 then Inl ''hyperparameter_tuning.max_concurrent_trials must be > 0'' else Inr ()))))"
| "spec_validate sqrt_f (IntegrationCampaign cs meas stop alloc) =
     (if cs = [] then Inl ''integration_campaign.children must not be empty''
      else and_then (validate_children [] cs) (\<lambda>_.
        and_then (task_measurement_validate meas) (\<lambda>_.
        and_then (campaign_stop_validate stop) (\<lambda>_. allocation_validate alloc))))"

subsection \<open>Questions\<close>

fun kind_str :: "('e, 't, 'p) run_task_spec \<Rightarrow> string" where
  "kind_str (SetAccumulator _) = ''set_accumulator''"
| "kind_str (Sample _ _ _ _ _ _ _ _ _) = ''sample''"
| "kind_str (Image _ _ _ _ _) = ''image''"
| "kind_str (PdfAdaptationImage _ _ _) = ''pdf_adaptation_image''"
| "kind_str (PdfAdaptationPlotLine _ _ _) = ''pdf_adaptation_plot_line''"
| "kind_str (PlotLine _ _ _ _ _) = ''plot_line''"
| "kind_str (ParameterScan _ _ _ _) = ''parameter_scan''"
| "kind_str (HyperparameterTuning _ _ _ _ _) = ''hyperparameter_tuning''"
| "kind_str (IntegrationCampaign _ _ _ _) = ''integration_campaign''"

definition is_controller :: "('e, 't, 'p) run_task_spec \<Rightarrow> bool" where
  "is_controller t =
     (case t of ParameterScan _ _ _ _ \<Rightarrow> True | HyperparameterTuning _ _ _ _ _ \<Rightarrow> True
      | IntegrationCampaign _ _ _ _ \<Rightarrow> True | _ \<Rightarrow> False)"

definition runs_in_control_plane :: "('e, 't, 'p) run_task_spec \<Rightarrow> bool" where
  "runs_in_control_plane t = ((case t of SetAccumulator _ \<Rightarrow> True | _ \<Rightarrow> False) \<or> is_controller t)"

definition runs_on_sampler_worker :: "('e, 't, 'p) run_task_spec \<Rightarrow> bool" where
  "runs_on_sampler_worker t =
     (case t of Sample _ _ _ _ _ _ _ _ _ \<Rightarrow> True | Image _ _ _ _ _ \<Rightarrow> True
      | PdfAdaptationImage _ _ _ \<Rightarrow> True | PdfAdaptationPlotLine _ _ _ \<Rightarrow> True
      | PlotLine _ _ _ _ _ \<Rightarrow> True | _ \<Rightarrow> False)"

definition plain_sampling :: "'p sampler_config \<Rightarrow> ('t, 'p) sampling_config" where
  "plain_sampling s = \<lparr>sc_stratification = None, sc_sampler = s, sc_materializer = None, sc_transforms = None\<rparr>"

fun task_sampler_config :: "('e, 't, 'p) run_task_spec \<Rightarrow> ('t, 'p) sampling_config option" where
  "task_sampler_config (Image g _ _ _ _) = Some (plain_sampling (RasterPlane g))"
| "task_sampler_config (PdfAdaptationImage g _ _) = Some (plain_sampling (PdfAdaptationRasterPlane g))"
| "task_sampler_config (PdfAdaptationPlotLine g _ _) = Some (plain_sampling (PdfAdaptationRasterLine g))"
| "task_sampler_config (PlotLine g _ _ _ _) = Some (plain_sampling (RasterLine g))"
| "task_sampler_config _ = None"

definition sampler_source_ref :: "'c stage_source option \<Rightarrow> source_ref option" where
  "sampler_source_ref s =
     (case s of
        None \<Rightarrow> Some RefLatest
      | Some (Latest _) \<Rightarrow> Some RefLatest
      | Some (FromName n) \<Rightarrow> Some (RefFromName n)
      | Some (FromStage _ n) \<Rightarrow> Some (RefFromName n)
      | Some (Config _) \<Rightarrow> None)"

definition plain_source_ref :: "'c stage_source option \<Rightarrow> source_ref option" where
  "plain_source_ref s =
     (case s of
        None \<Rightarrow> Some RefLatest
      | Some (Latest _) \<Rightarrow> Some RefLatest
      | Some (FromName n) \<Rightarrow> Some (RefFromName n)
      | _ \<Rightarrow> None)"

fun sample_sampler_source :: "('e, 't, 'p) run_task_spec \<Rightarrow> source_ref option" where
  "sample_sampler_source (Sample _ _ _ _ _ smp _ _ _) = sampler_source_ref smp"
| "sample_sampler_source (PdfAdaptationImage _ smp _) = sampler_source_ref smp"
| "sample_sampler_source (PdfAdaptationPlotLine _ smp _) = sampler_source_ref smp"
| "sample_sampler_source _ = None"

fun sample_sampler_config :: "('e, 't, 'p) run_task_spec \<Rightarrow> ('t, 'p) sampling_config option" where
  "sample_sampler_config (Sample _ _ _ _ _ (Some s) _ _ _) = source_config s"
| "sample_sampler_config _ = None"

fun evaluator_source :: "('e, 't, 'p) run_task_spec \<Rightarrow> source_ref option" where
  "evaluator_source (Sample _ _ _ _ ev _ _ _ _) = plain_source_ref ev"
| "evaluator_source (Image _ _ ev _ _) = plain_source_ref ev"
| "evaluator_source (PlotLine _ _ ev _ _) = plain_source_ref ev"
| "evaluator_source _ = None"

definition config_only :: "'c stage_source option \<Rightarrow> 'c option" where
  "config_only s = (case s of Some (Config c) \<Rightarrow> Some c | _ \<Rightarrow> None)"

fun task_evaluator_config :: "('e, 't, 'p) run_task_spec \<Rightarrow> 'e option" where
  "task_evaluator_config (Sample _ _ _ _ ev _ _ _ _) = config_only ev"
| "task_evaluator_config (Image _ _ ev _ _) = config_only ev"
| "task_evaluator_config (PlotLine _ _ ev _ _) = config_only ev"
| "task_evaluator_config _ = None"

fun batch_transforms_config :: "('e, 't, 'p) run_task_spec \<Rightarrow> 't list option" where
  "batch_transforms_config (Sample est p stop meas ev smp acc tuning bts) =
     (case bts of
        Some t \<Rightarrow> Some t
      | None \<Rightarrow> (case smp of None \<Rightarrow> None
          | Some s \<Rightarrow> (case source_config s of None \<Rightarrow> None | Some c \<Rightarrow> sc_transforms c)))"
| "batch_transforms_config (Image _ _ _ _ bts) = bts"
| "batch_transforms_config (PdfAdaptationImage _ _ bts) = bts"
| "batch_transforms_config (PdfAdaptationPlotLine _ _ bts) = bts"
| "batch_transforms_config (PlotLine _ _ _ _ bts) = bts"
| "batch_transforms_config _ = None"

fun sample_accumulator_source :: "('e, 't, 'p) run_task_spec \<Rightarrow> source_ref option" where
  "sample_accumulator_source (Sample _ _ _ _ _ _ acc _ _) = plain_source_ref acc"
| "sample_accumulator_source _ = None"

definition ref_name :: "source_ref option \<Rightarrow> string list" where
  "ref_name r = (case r of Some (RefFromName n) \<Rightarrow> [n] | _ \<Rightarrow> [])"

definition source_task_names :: "('e, 't, 'p) run_task_spec \<Rightarrow> string list" where
  "source_task_names t =
     ref_name (sample_sampler_source t) @ ref_name (evaluator_source t) @ ref_name (sample_accumulator_source t)"

fun new_accumulator_config :: "('e, 't, 'p) run_task_spec \<Rightarrow> accumulator_config option" where
  "new_accumulator_config (SetAccumulator a) = Some a"
| "new_accumulator_config (Sample _ _ _ _ _ _ acc _ _) = config_only acc"
| "new_accumulator_config (Image _ acc _ _ _) = Some (plot_full_config acc)"
| "new_accumulator_config (PlotLine _ acc _ _ _) = Some (plot_full_config acc)"
| "new_accumulator_config _ = None"

definition accumulator_config_source :: "('e, 't, 'p) run_task_spec \<Rightarrow> source_ref option" where
  "accumulator_config_source t =
     (case t of
        PdfAdaptationImage _ _ _ \<Rightarrow> sample_sampler_source t
      | PdfAdaptationPlotLine _ _ _ \<Rightarrow> sample_sampler_source t
      | _ \<Rightarrow> sample_accumulator_source t)"

fun nr_expected_samples :: "('e, 't, 'p) run_task_spec \<Rightarrow> i64 option" where
  "nr_expected_samples (Sample _ _ stop _ _ _ _ _ _) = max_samples stop"
| "nr_expected_samples (Image g _ _ _ _) = Some (usize_as_i64 (plane_nr_points g))"
| "nr_expected_samples (PdfAdaptationImage g _ _) = Some (usize_as_i64 (plane_nr_points g))"
| "nr_expected_samples (PdfAdaptationPlotLine g _ _) = Some (usize_as_i64 (line_nr_points g))"
| "nr_expected_samples (PlotLine g _ _ _ _) = Some (usize_as_i64 (line_nr_points g))"
| "nr_expected_samples (ParameterScan ps _ _ _) = map_option usize_as_i64 (parameter_scan_grid_len ps)"
| "nr_expected_samples (HyperparameterTuning opt _ ps _ _) =
     map_option usize_as_i64 (hyperparameter_tuning_trial_count opt ps)"
| "nr_expected_samples _ = None"

fun sample_stop_condition :: "('e, 't, 'p) run_task_spec \<Rightarrow> sample_stop option" where
  "sample_stop_condition (Sample _ _ stop _ _ _ _ _ _) = Some stop"
| "sample_stop_condition _ = None"

fun sample_measurement :: "('e, 't, 'p) run_task_spec \<Rightarrow> task_measurement option" where
  "sample_measurement (Sample _ _ _ meas _ _ _ _ _) = meas"
| "sample_measurement _ = None"

fun effective_sample_measurement :: "('e, 't, 'p) run_task_spec \<Rightarrow> task_measurement option" where
  "effective_sample_measurement (Sample _ _ _ meas _ _ _ _ _) =
     Some (case meas of None \<Rightarrow> task_measurement_default | Some m \<Rightarrow> m)"
| "effective_sample_measurement _ = None"

fun sample_queue_tuning :: "('e, 't, 'p) run_task_spec \<Rightarrow> sampler_queue_tuning option" where
  "sample_queue_tuning (Sample _ _ _ _ _ _ _ tuning _) = tuning"
| "sample_queue_tuning _ = None"

fun set_sample_queue_tuning ::
  "('e, 't, 'p) run_task_spec \<Rightarrow> sampler_queue_tuning option \<Rightarrow> string + ('e, 't, 'p) run_task_spec" where
  "set_sample_queue_tuning (Sample est p stop meas ev smp acc _ bts) tuning =
     and_then (validate_opt tuning_validate tuning) (\<lambda>_.
       Inr (Sample est p stop meas ev smp acc tuning bts))"
| "set_sample_queue_tuning _ tuning = Inl ''queue_tuning is only supported for sample tasks''"

definition generated_task_name :: "('e, 't, 'p) run_task_spec \<Rightarrow> i32 \<Rightarrow> string" where
  "generated_task_name t sequence_nr = kind_str t @ ''-'' @ show_int sequence_nr"

record ('e, 't, 'p) run_task_input =
  input_name :: "string option"
  input_task :: "('e, 't, 'p) run_task_spec"

definition task_input_validate :: "(f64 \<Rightarrow> f64) \<Rightarrow> ('e, 't, 'p) run_task_input \<Rightarrow> string + unit" where
  "task_input_validate sqrt_f i =
     (case input_name i of
        None \<Rightarrow> spec_validate sqrt_f (input_task i)
      | Some n \<Rightarrow>
          let trimmed = trim n in
          if trimmed = [] then Inl ''task name must be non-empty when set''
          else if trimmed \<noteq> n then Inl ''task name cannot have leading or trailing whitespace''
          else spec_validate sqrt_f (input_task i))"

subsection \<open>Outputs of controllers\<close>

datatype child_state = ChildPlanned | ChildPending | ChildActive | ChildCompleted | ChildFailed

fun child_state_of_task :: "run_task_state \<Rightarrow> child_state" where
  "child_state_of_task TaskPending = ChildPending"
| "child_state_of_task TaskActive = ChildActive"
| "child_state_of_task TaskCompleted = ChildCompleted"
| "child_state_of_task TaskFailed = ChildFailed"

text \<open>A result source names the stage a result was read from; \<open>'m\<close> is the type of the results.\<close>

datatype estimate_kind = PooledEstimate | StratifiedEstimate | CombinedEstimate

record basic_estimate =
  estimate_mean :: f64
  estimate_error :: "f64 option"

record measurement_result =
  result_estimator :: estimate_kind
  result_basic :: "basic_estimate option"
  result_name :: metric_name
  result_component :: "string option"
  result_value :: f64
  result_uncertainty :: "f64 option"
  result_samples :: i64

datatype 'm measurement_output = MeasurementCompleted "'m list" | MeasurementFailed string

record result_source =
  rs_run_id :: i32
  rs_task_id :: i64
  rs_snapshot_id :: "string option"
  rs_sample_count :: i64

record 'm child_output =
  child_run_id :: "i32 option"
  child_status :: child_state
  child_result :: "result_source option"
  child_throughput :: "f64 option"
  child_measurement :: "'m measurement_output option"
  child_failure :: "string option"

definition child_planned :: "'m child_output" where
  "child_planned = \<lparr>child_run_id = None, child_status = ChildPlanned, child_result = None, child_throughput = None,
     child_measurement = None, child_failure = None\<rparr>"

definition child_fail :: "'m child_output \<Rightarrow> string \<Rightarrow> 'm child_output" where
  "child_fail c reason = c\<lparr>child_status := ChildFailed, child_failure := Some reason\<rparr>"

end
