(* ===== verification/Hyperparameter_Tuning.thy ===== *)
theory Hyperparameter_Tuning
  imports Task_Spec
begin

section \<open>Planning of hyperparameter trials\<close>

text \<open>
  The pure part of \<open>src/runners/hyperparameter_tuning.rs\<close>: which trials there are, the
  parameters of each, the numeric encoding for the surrogate optimizer and the best trial.

  Not under \<open>src/\<close> and therefore parameters: the generator \<open>Xoshiro256StarStar\<close> with its
  seeding and range draws (\<open>'g rng_ops\<close>) and the surrogate model of the \<open>egobox\<close> crate
  (\<open>suggest\<close>, None when it reports an error or panics). A \<open>BTreeMap\<close> of parameters is its
  entries in key order when it is iterated and a map when it is looked up.
\<close>

type_synonym parameters = "(string \<times> parameter_domain) list"

type_synonym assignment = "string \<rightharpoonup> toml_value"

record 'g rng_ops =
  seed_from_u64 :: "64 word \<Rightarrow> 'g"
  draw_f64 :: "f64 \<Rightarrow> f64 \<Rightarrow> 'g \<Rightarrow> f64 \<times> 'g"
  draw_i64 :: "i64 \<Rightarrow> 'g \<Rightarrow> i64 \<times> 'g"
  draw_usize :: "usize \<Rightarrow> 'g \<Rightarrow> usize \<times> 'g"

record trial_candidate =
  candidate_index :: usize
  candidate_parameters :: assignment

record trial_observation =
  obs_parameters :: assignment
  obs_objective :: f64

record previous_trial =
  previous_index :: usize
  previous_status :: child_state
  previous_parameters :: assignment
  previous_objective :: "f64 option"

record trial_plan =
  total_trials :: usize
  plan_candidates :: "trial_candidate list"

subsection \<open>Seeds\<close>

unbundle bit_operations_syntax

definition splitmix64 :: "64 word \<Rightarrow> 64 word" where
  "splitmix64 x =
     (let x = x + 0x9e3779b97f4a7c15;
          z = (x XOR drop_bit 30 x) * 0xbf58476d1ce4e5b9;
          z = (z XOR drop_bit 27 z) * 0x94d049bb133111eb
      in z XOR drop_bit 31 z)"

definition trial_seed :: "u64 option \<Rightarrow> usize \<Rightarrow> 64 word" where
  "trial_seed seed i =
     (of_nat (case seed of None \<Rightarrow> 0 | Some s \<Rightarrow> s) XOR splitmix64 (of_nat i))"


subsection \<open>Values of a domain\<close>

definition categorical_domain_values :: "parameter_source \<Rightarrow> store_error + toml_value list" where
  "categorical_domain_values s = map_err Internal (source_values s)"

definition domain_step :: "integer_domain \<Rightarrow> i64" where
  "domain_step d = (case id_step d of None \<Rightarrow> 1 | Some s \<Rightarrow> s)"

definition sample_parameter ::
  "'g rng_ops \<Rightarrow> parameter_domain \<Rightarrow> 'g \<Rightarrow> store_error + (toml_value \<times> 'g)" where
  "sample_parameter R d g =
     (case d of
        FloatDomain d \<Rightarrow> (case draw_f64 R (fd_min d) (fd_max d) g of (x, g') \<Rightarrow> Inr (Toml_Float x, g'))
      | IntegerDomain d \<Rightarrow>
          let step = domain_step d; span = id_max d - id_min d in
          if span > i64_max \<or> span < - i64_max - 1
          then Inl (Internal ''integer parameter domain bounds overflow while sampling'')
          else
            and_then (ok_or (checked_add_i64 (span sdiv step) 1) (Internal ''panic'')) (\<lambda>n.
              if n \<le> 0 then Inl (Internal ''integer parameter domain is empty'')
              else case draw_i64 R n g of (off, g') \<Rightarrow> Inr (Toml_Integer (id_min d + off * step), g'))
      | CategoricalDomain s \<Rightarrow>
          and_then (categorical_domain_values s) (\<lambda>vs.
            case draw_usize R (length vs) g of (i, g') \<Rightarrow>
              and_then (ok_or (nth_opt vs i) (Internal ''panic'')) (\<lambda>v. Inr (v, g'))))"

fun sample_parameters ::
  "'g rng_ops \<Rightarrow> parameters \<Rightarrow> 'g \<Rightarrow> store_error + ((string \<times> toml_value) list \<times> 'g)" where
  "sample_parameters R [] g = Inr ([], g)"
| "sample_parameters R ((name, d) # ps) g =
     and_then (sample_parameter R d g) (\<lambda>(v, g').
     and_then (sample_parameters R ps g') (\<lambda>(vs, g''). Inr ((name, v) # vs, g'')))"

definition random_trial_parameters ::
  "'g rng_ops \<Rightarrow> u64 option \<Rightarrow> parameters \<Rightarrow> usize \<Rightarrow> store_error + assignment" where
  "random_trial_parameters R seed ps i =
     and_then (sample_parameters R ps (seed_from_u64 R (trial_seed seed i))) (\<lambda>(vs, _). Inr (map_of vs))"

definition grid_parameter_values :: "parameter_domain \<Rightarrow> store_error + toml_value list" where
  "grid_parameter_values d =
     (case d of
        IntegerDomain d \<Rightarrow> Inr (range_loop (id_max d) (domain_step d) (id_min d))
      | CategoricalDomain s \<Rightarrow> categorical_domain_values s
      | FloatDomain _ \<Rightarrow> Inl (Internal ''grid_search does not support float parameter domains yet''))"

definition hyperparameter_grid_items :: "parameters \<Rightarrow> store_error + grid_item list" where
  "hyperparameter_grid_items ps =
     try_map (\<lambda>(name, d). and_then (grid_parameter_values d) (\<lambda>vs.
       Inr \<lparr>item_name = name, item_values = vs\<rparr>)) ps"

subsection \<open>Encoding for the surrogate model\<close>

definition f64_of_int :: "int \<Rightarrow> f64" where
  "f64_of_int i = f64_of_rat (of_int i)"

text \<open>\<open>PartialEq\<close> of \<open>toml::Value\<close>.\<close>

fun toml_eq :: "toml_value \<Rightarrow> toml_value \<Rightarrow> bool"
  and toml_list_eq :: "toml_value list \<Rightarrow> toml_value list \<Rightarrow> bool"
  and toml_table_eq :: "(string \<times> toml_value) list \<Rightarrow> (string \<times> toml_value) list \<Rightarrow> bool" where
  "toml_eq (Toml_String a) (Toml_String b) \<longleftrightarrow> a = b"
| "toml_eq (Toml_Integer a) (Toml_Integer b) \<longleftrightarrow> a = b"
| "toml_eq (Toml_Float a) (Toml_Float b) \<longleftrightarrow> f64_eq a b"
| "toml_eq (Toml_Boolean a) (Toml_Boolean b) \<longleftrightarrow> a = b"
| "toml_eq (Toml_Datetime a) (Toml_Datetime b) \<longleftrightarrow> a = b"
| "toml_eq (Toml_Array a) (Toml_Array b) \<longleftrightarrow> toml_list_eq a b"
| "toml_eq (Toml_Table a) (Toml_Table b) \<longleftrightarrow> toml_table_eq a b"
| "toml_eq _ _ \<longleftrightarrow> False"
| "toml_list_eq [] [] \<longleftrightarrow> True"
| "toml_list_eq (x # xs) (y # ys) \<longleftrightarrow> toml_eq x y \<and> toml_list_eq xs ys"
| "toml_list_eq _ _ \<longleftrightarrow> False"
| "toml_table_eq [] [] \<longleftrightarrow> True"
| "toml_table_eq ((k, x) # xs) ((l, y) # ys) \<longleftrightarrow> k = l \<and> toml_eq x y \<and> toml_table_eq xs ys"
| "toml_table_eq _ _ \<longleftrightarrow> False"

fun as_integer :: "toml_value \<Rightarrow> i64 option" where
  "as_integer (Toml_Integer i) = Some i"
| "as_integer _ = None"

fun as_float :: "toml_value \<Rightarrow> f64 option" where
  "as_float (Toml_Float x) = Some x"
| "as_float _ = None"

definition integer_domain_values :: "integer_domain \<Rightarrow> store_error + i64 list" where
  "integer_domain_values d =
     (let vs = map (\<lambda>v. the (as_integer v)) (range_loop (id_max d) (domain_step d) (id_min d))
      in if vs = [] then Inl (Internal ''integer parameter domain is empty'') else Inr vs)"

fun encode_parameter_value :: "parameter_domain \<Rightarrow> toml_value \<Rightarrow> store_error + f64" where
  "encode_parameter_value (FloatDomain _) v =
     ok_or (case as_float v of Some x \<Rightarrow> Some x | None \<Rightarrow> map_option f64_of_int (as_integer v))
       (Internal ''egobox float parameter must be numeric'')"
| "encode_parameter_value (IntegerDomain _) v =
     ok_or (map_option f64_of_int (as_integer v)) (Internal ''egobox integer parameter must be integer'')"
| "encode_parameter_value (CategoricalDomain s) v =
     and_then (categorical_domain_values s) (\<lambda>vs.
       ok_or (map_option f64_of_nat (position (\<lambda>c. toml_eq c v) vs))
         (Internal ''egobox categorical parameter has value outside its domain''))"

fun closest_loop :: "f64 \<Rightarrow> i64 \<Rightarrow> i64 list \<Rightarrow> i64" where
  "closest_loop x best [] = best"
| "closest_loop x best (v # vs) =
     closest_loop x
       (if f64_lt (f64_abs (f64_sub (f64_of_int v) x)) (f64_abs (f64_sub (f64_of_int best) x)) then v else best) vs"

definition take_closest_i64 :: "i64 list \<Rightarrow> f64 \<Rightarrow> i64" where
  "take_closest_i64 vs x = (case vs of [] \<Rightarrow> 0 | v # rest \<Rightarrow> closest_loop x v rest)"

fun decode_parameter_value :: "parameter_domain \<Rightarrow> f64 \<Rightarrow> store_error + toml_value" where
  "decode_parameter_value (FloatDomain d) x = Inr (Toml_Float (f64_clamp (fd_min d) (fd_max d) x))"
| "decode_parameter_value (IntegerDomain d) x =
     and_then (integer_domain_values d) (\<lambda>vs. Inr (Toml_Integer (take_closest_i64 vs x)))"
| "decode_parameter_value (CategoricalDomain s) x =
     and_then (categorical_domain_values s) (\<lambda>vs.
       let max_index = length vs - 1;
           i = f64_as_usize (f64_clamp f64_zero (f64_of_nat max_index) (f64_round_int x))
       in ok_or (nth_opt vs i) (Internal ''panic''))"

definition encode_parameters :: "parameters \<Rightarrow> assignment \<Rightarrow> store_error + f64 list" where
  "encode_parameters ps a =
     try_map (\<lambda>(name, d). and_then (ok_or (a name) (Internal ''egobox trial is missing parameter''))
       (encode_parameter_value d)) ps"

definition decode_parameters :: "parameters \<Rightarrow> f64 list \<Rightarrow> store_error + assignment" where
  "decode_parameters ps xs =
     (if length xs \<noteq> length ps then Inl (Internal ''egobox suggested a wrong number of parameters'')
      else and_then (try_map (\<lambda>((name, d), x). and_then (decode_parameter_value d x) (\<lambda>v. Inr (name, v)))
             (zip ps xs)) (\<lambda>vs. Inr (map_of vs)))"

definition contains_encoded :: "f64 list list \<Rightarrow> f64 list \<Rightarrow> bool" where
  "contains_encoded existing candidate =
     list_ex (\<lambda>point. length point = length candidate \<and>
       list_all2 (\<lambda>l r. f64_lt (f64_abs (f64_sub l r)) (f64_of_rat (1 / 10 ^ 9))) point candidate) existing"

text \<open>The check that every domain can be given to the optimizer.\<close>

fun domain_to_xtype :: "parameter_domain \<Rightarrow> store_error + unit" where
  "domain_to_xtype (FloatDomain _) = Inr ()"
| "domain_to_xtype (IntegerDomain d) =
     (if domain_step d = 1 \<and> - (2 ^ 31) \<le> id_min d \<and> id_min d < 2 ^ 31 \<and> - (2 ^ 31) \<le> id_max d \<and> id_max d < 2 ^ 31 then Inr ()
      else and_then (integer_domain_values d) (\<lambda>_. Inr ()))"
| "domain_to_xtype (CategoricalDomain s) =
     and_then (categorical_domain_values s) (\<lambda>vs.
       if length vs < 2 then Inl (Internal ''egobox categorical parameter needs at least two values'')
       else Inr ())"

definition encoder_new :: "parameters \<Rightarrow> store_error + unit" where
  "encoder_new ps = and_then (try_map (\<lambda>(_, d). domain_to_xtype d) ps) (\<lambda>_. Inr ())"

subsection \<open>Points that were not tried before\<close>

definition finite_domain_values :: "parameter_domain \<Rightarrow> store_error + toml_value list option" where
  "finite_domain_values d =
     (case d of
        FloatDomain _ \<Rightarrow> Inr None
      | IntegerDomain d \<Rightarrow> and_then (integer_domain_values d) (\<lambda>vs. Inr (Some (map Toml_Integer vs)))
      | CategoricalDomain s \<Rightarrow> and_then (categorical_domain_values s) (\<lambda>vs. Inr (Some vs)))"

fun all_finite_values :: "parameters \<Rightarrow> store_error + toml_value list list option" where
  "all_finite_values [] = Inr (Some [])"
| "all_finite_values ((_, d) # ps) =
     and_then (finite_domain_values d) (\<lambda>v.
       case v of None \<Rightarrow> Inr None
       | Some vs \<Rightarrow> and_then (all_finite_values ps) (\<lambda>r. Inr (map_option (Cons vs) r)))"

text \<open>The depth-first search; the remaining names with their values replace the depth.\<close>

fun find_distinct ::
  "(assignment \<Rightarrow> store_error + f64 list) \<Rightarrow> f64 list list \<Rightarrow> (string \<times> toml_value list) list
    \<Rightarrow> assignment \<Rightarrow> store_error + assignment option"
  and find_distinct_value ::
  "(assignment \<Rightarrow> store_error + f64 list) \<Rightarrow> f64 list list \<Rightarrow> string \<Rightarrow> toml_value list
    \<Rightarrow> (string \<times> toml_value list) list \<Rightarrow> assignment \<Rightarrow> store_error + assignment option" where
  "find_distinct enc existing [] a =
     and_then (enc a) (\<lambda>e. Inr (if contains_encoded existing e then None else Some a))"
| "find_distinct enc existing ((name, vs) # rest) a = find_distinct_value enc existing name vs rest a"
| "find_distinct_value enc existing name [] rest a = Inr None"
| "find_distinct_value enc existing name (v # vs) rest a =
     and_then (find_distinct enc existing rest (a(name \<mapsto> v))) (\<lambda>r.
       case r of Some found \<Rightarrow> Inr (Some found)
       | None \<Rightarrow> find_distinct_value enc existing name vs rest a)"

definition first_distinct_finite_point ::
  "parameters \<Rightarrow> f64 list list \<Rightarrow> store_error + assignment option" where
  "first_distinct_finite_point ps existing =
     and_then (all_finite_values ps) (\<lambda>r.
       case r of None \<Rightarrow> Inr None
       | Some vss \<Rightarrow> find_distinct (encode_parameters ps) existing (zip (map fst ps) vss) Map.empty)"

fun distinct_attempts ::
  "nat \<Rightarrow> 'g rng_ops \<Rightarrow> parameters \<Rightarrow> f64 list list \<Rightarrow> assignment option \<Rightarrow> 'g
    \<Rightarrow> store_error + (assignment + assignment option)" where
  "distinct_attempts 0 R ps existing latest g = Inr (Inr latest)"
| "distinct_attempts (Suc n) R ps existing latest g =
     and_then (sample_parameters R ps g) (\<lambda>(vs, g').
     and_then (encode_parameters ps (map_of vs)) (\<lambda>e.
       if \<not> contains_encoded existing e then Inr (Inl (map_of vs))
       else distinct_attempts n R ps existing (Some (map_of vs)) g'))"

definition random_distinct_point ::
  "'g rng_ops \<Rightarrow> parameters \<Rightarrow> f64 list list \<Rightarrow> 'g \<Rightarrow> store_error + assignment" where
  "random_distinct_point R ps existing g =
     and_then (distinct_attempts 64 R ps existing None g) (\<lambda>r.
       case r of Inl point \<Rightarrow> Inr point
       | Inr latest \<Rightarrow>
           and_then (first_distinct_finite_point ps existing) (\<lambda>f.
             case f of Some point \<Rightarrow> Inr point
             | None \<Rightarrow> ok_or latest (Internal ''failed to sample egobox fallback point'')))"

subsection \<open>Plans\<close>

definition plan_random_search ::
  "'g rng_ops \<Rightarrow> random_search_params \<Rightarrow> parameters \<Rightarrow> store_error + trial_plan" where
  "plan_random_search R p ps =
     and_then (try_map (\<lambda>i. and_then (random_trial_parameters R (rnd_seed p) ps i) (\<lambda>a.
         Inr \<lparr>candidate_index = i, candidate_parameters = a\<rparr>)) [0..<rnd_max_trials p]) (\<lambda>cs.
       Inr \<lparr>total_trials = rnd_max_trials p, plan_candidates = cs\<rparr>)"

definition plan_grid_search :: "parameters \<Rightarrow> store_error + trial_plan" where
  "plan_grid_search ps =
     and_then (hyperparameter_grid_items ps) (\<lambda>items.
     and_then (cartesian_grid_len items) (\<lambda>n.
     and_then (try_map (\<lambda>i. and_then (cartesian_grid_point items i) (\<lambda>a.
         Inr \<lparr>candidate_index = i, candidate_parameters = a\<rparr>)) [0..<n]) (\<lambda>cs.
       Inr \<lparr>total_trials = n, plan_candidates = cs\<rparr>)))"

definition effective_initial_design :: "egobox_params \<Rightarrow> usize \<Rightarrow> usize" where
  "effective_initial_design p n = max (max (initial_design p) (n + 1)) 2"

definition existing_encoded_points ::
  "parameters \<Rightarrow> usize list \<Rightarrow> (usize \<rightharpoonup> previous_trial) \<Rightarrow> store_error + f64 list list" where
  "existing_encoded_points ps existing previous =
     try_map (\<lambda>t. encode_parameters ps (previous_parameters t)) (List.map_filter previous existing)"

text \<open>The loop over the new trials; \<open>pick\<close> chooses the parameters of one of them.\<close>

fun candidate_loop ::
  "parameters \<Rightarrow> (usize \<Rightarrow> usize \<Rightarrow> f64 list list \<Rightarrow> store_error + assignment) \<Rightarrow> usize \<Rightarrow> usize list
    \<Rightarrow> f64 list list \<Rightarrow> store_error + trial_candidate list" where
  "candidate_loop ps pick off [] encoded = Inr []"
| "candidate_loop ps pick off (i # is) encoded =
     and_then (pick off i encoded) (\<lambda>a.
     and_then (encode_parameters ps a) (\<lambda>e.
     and_then (candidate_loop ps pick (Suc off) is (encoded @ [e])) (\<lambda>cs.
       Inr (\<lparr>candidate_index = i, candidate_parameters = a\<rparr> # cs))))"

definition fallback_pick ::
  "'g rng_ops \<Rightarrow> u64 option \<Rightarrow> parameters \<Rightarrow> usize \<Rightarrow> f64 list list \<Rightarrow> store_error + assignment" where
  "fallback_pick R seed ps i encoded =
     random_distinct_point R ps encoded (seed_from_u64 R (trial_seed seed i))"

definition suggested_pick ::
  "'g rng_ops \<Rightarrow> u64 option \<Rightarrow> parameters \<Rightarrow> f64 list list \<Rightarrow> usize \<Rightarrow> usize \<Rightarrow> f64 list list
    \<Rightarrow> store_error + assignment" where
  "suggested_pick R seed ps suggested off i encoded =
     and_then (ok_or (nth_opt suggested (min off (length suggested - 1))) (Internal ''panic'')) (\<lambda>row.
       if contains_encoded encoded row then fallback_pick R seed ps i encoded
       else decode_parameters ps row)"

definition suggest_egobox_candidates ::
  "'g rng_ops \<Rightarrow> (f64 list list \<Rightarrow> f64 list \<Rightarrow> usize \<Rightarrow> f64 list list option) \<Rightarrow> egobox_params \<Rightarrow> parameters
    \<Rightarrow> trial_observation list \<Rightarrow> measurement_mode \<Rightarrow> usize list \<Rightarrow> usize list \<Rightarrow> (usize \<rightharpoonup> previous_trial)
    \<Rightarrow> store_error + trial_candidate list" where
  "suggest_egobox_candidates R suggest p ps obs mode next existing previous =
     and_then (try_map (\<lambda>ob. encode_parameters ps (obs_parameters ob)) obs) (\<lambda>xs.
       let ys = map (\<lambda>ob. case mode of Minimize \<Rightarrow> obs_objective ob | Maximize \<Rightarrow> f64_neg (obs_objective ob)) obs
       in case suggest xs ys (max (length next) 1) of
            None \<Rightarrow>
              and_then (existing_encoded_points ps existing previous)
                (candidate_loop ps (\<lambda>_. fallback_pick R (ego_seed p) ps) 0 next)
          | Some suggested \<Rightarrow>
              and_then (existing_encoded_points ps existing previous)
                (candidate_loop ps (suggested_pick R (ego_seed p) ps suggested) 0 next))"

text \<open>\<open>previous\<close> lists the earlier trials in the order of their indices, as the map of the
  code is iterated.\<close>

definition egobox_trial_plan ::
  "'g rng_ops \<Rightarrow> (f64 list list \<Rightarrow> f64 list \<Rightarrow> usize \<Rightarrow> f64 list list option) \<Rightarrow> egobox_params \<Rightarrow> parameters
    \<Rightarrow> usize list \<Rightarrow> previous_trial list \<Rightarrow> trial_observation list \<Rightarrow> measurement_mode \<Rightarrow> usize
    \<Rightarrow> store_error + trial_plan" where
  "egobox_trial_plan R suggest p ps existing previous obs mode capacity =
     (let n = ego_max_trials p;
          kept = map (\<lambda>t. \<lparr>candidate_index = previous_index t, candidate_parameters = previous_parameters t\<rparr>)
            (filter (\<lambda>t. previous_index t < n) previous);
          desired = min (min capacity (parallel_candidates p)) (n - length existing)
      in if desired = 0 then Inr \<lparr>total_trials = n, plan_candidates = kept\<rparr>
         else and_then (encoder_new ps) (\<lambda>_.
           let next = take desired (filter (\<lambda>i. i \<notin> set existing) [0..<n])
           in and_then
             (if length obs \<le> effective_initial_design p (length ps)
              then try_map (\<lambda>i. and_then (random_trial_parameters R (ego_seed p) ps i) (\<lambda>a.
                     Inr \<lparr>candidate_index = i, candidate_parameters = a\<rparr>)) next
              else suggest_egobox_candidates R suggest p ps obs mode next existing
                     (map_of (map (\<lambda>t. (previous_index t, t)) previous))) (\<lambda>new.
             Inr \<lparr>total_trials = n, plan_candidates = sort_key candidate_index (kept @ new)\<rparr>)))"

definition plan_optimizer_trials ::
  "'g rng_ops \<Rightarrow> (f64 list list \<Rightarrow> f64 list \<Rightarrow> usize \<Rightarrow> f64 list list option) \<Rightarrow> optimizer_spec \<Rightarrow> parameters
    \<Rightarrow> usize list \<Rightarrow> previous_trial list \<Rightarrow> trial_observation list \<Rightarrow> measurement_mode \<Rightarrow> usize
    \<Rightarrow> store_error + trial_plan" where
  "plan_optimizer_trials R suggest opt ps existing previous obs mode capacity =
     (case opt of
        RandomSearch p \<Rightarrow> plan_random_search R p ps
      | GridSearch \<Rightarrow> plan_grid_search ps
      | Egobox p \<Rightarrow> egobox_trial_plan R suggest p ps existing previous obs mode capacity)"

subsection \<open>Objectives\<close>

definition objective_selector :: "measurement_spec \<Rightarrow> metric_name \<times> string option" where
  "objective_selector ob =
     (case selection_selector (selection (measurement ob)) of
        Some s \<Rightarrow> (selector_name s, selector_component s) | None \<Rightarrow> (Mean, None))"

definition selects :: "metric_name \<times> string option \<Rightarrow> measurement_result \<Rightarrow> bool" where
  "selects sel r \<longleftrightarrow> result_name r = fst sel \<and>
     (case (snd sel, result_component r) of
        (Some e, Some a) \<Rightarrow> e = a | (Some _, None) \<Rightarrow> False | (None, _) \<Rightarrow> True)"

definition objective_result :: "measurement_spec \<Rightarrow> measurement_result list \<Rightarrow> string + measurement_result" where
  "objective_result ob rs =
     (case filter (selects (objective_selector ob)) rs of
        [r] \<Rightarrow> Inr r
      | [] \<Rightarrow> Inl ''objective measurement did not produce metric''
      | _ \<Rightarrow> Inl ''objective measurement produced multiple results; set objective.selection.component'')"

fun best_trial_loop ::
  "measurement_mode \<Rightarrow> (usize \<times> f64) option \<Rightarrow> (usize \<times> f64 option) list \<Rightarrow> (usize \<times> f64) option" where
  "best_trial_loop mode best [] = best"
| "best_trial_loop mode best ((i, None) # ts) = best_trial_loop mode best ts"
| "best_trial_loop mode best ((i, Some v) # ts) =
     (let better = (case best of None \<Rightarrow> True
        | Some (_, current) \<Rightarrow>
            (case mode of Minimize \<Rightarrow> f64_lt v current | Maximize \<Rightarrow> f64_lt current v))
      in best_trial_loop mode (if better then Some (i, v) else best) ts)"

definition best_trial ::
  "measurement_mode \<Rightarrow> (usize \<times> f64 option) list \<Rightarrow> usize option \<times> f64 option" where
  "best_trial mode ts =
     (case best_trial_loop mode None ts of None \<Rightarrow> (None, None) | Some (i, v) \<Rightarrow> (Some i, Some v))"

definition trial_observations :: "previous_trial list \<Rightarrow> trial_observation list" where
  "trial_observations ts =
     List.map_filter (\<lambda>t. case previous_objective t of
        Some v \<Rightarrow> if f64_is_finite v then Some \<lparr>obs_parameters = previous_parameters t, obs_objective = v\<rparr> else None
      | None \<Rightarrow> None) ts"

end
