(* ===== verification/Hyperparameter_Laws.thy ===== *)
theory Hyperparameter_Laws
  imports Hyperparameter_Tuning
begin

section \<open>Laws of the trial planning\<close>

text \<open>
  Distinct trials draw from distinct seeds; the numeric encoding of a point is undone by
  decoding; the plan of a grid search is the grid; the plan of the surrogate optimizer
  adds new trials within the capacity and never repeats an index.
\<close>

subsection \<open>Seeds\<close>

unbundle bit_operations_syntax

lemma shift_fixpoint_zero:
  fixes w :: "64 word"
  assumes "w = drop_bit k w" "0 < k"
  shows "w = 0"
proof -
  have step: "bit w n = bit w (n + k)" for n
    by (subst assms(1)) (simp add: bit_drop_bit_eq add.commute)
  have "bit w n = bit w (n + m * k)" for n m
  proof (induction m)
    case (Suc m)
    then show ?case using step [of "n + m * k"] by (simp add: ac_simps)
  qed simp
  then have "bit w n = bit w (n + 64 * k)" for n by blast
  moreover have "\<not> bit w (n + 64 * k)" for n
    using assms(2) by (intro notI) (auto dest!: bit_imp_le_length)
  ultimately show ?thesis by (intro bit_word_eqI) simp
qed

lemma xorshift_inj:
  fixes x y :: "64 word"
  assumes "x XOR drop_bit k x = y XOR drop_bit k y" "0 < k"
  shows "x = y"
proof -
  have "bit (x XOR y) n = bit (drop_bit k (x XOR y)) n" for n
    using arg_cong [OF assms(1), of "\<lambda>z. bit z n"] by (auto simp: bit_xor_iff bit_drop_bit_eq)
  then have "x XOR y = drop_bit k (x XOR y)" by (intro bit_word_eqI) blast
  then have zero: "x XOR y = 0" using assms(2) by (rule shift_fixpoint_zero)
  have "bit x n = bit y n" for n
    using arg_cong [OF zero, of "\<lambda>z. bit z n"] by (simp add: bit_xor_iff)
  then show ?thesis by (intro bit_word_eqI) blast
qed

lemma mult_unit_inj:
  fixes x y c c' :: "64 word"
  assumes "x * c = y * c" "c * c' = 1"
  shows "x = y"
  using arg_cong [OF assms(1), of "\<lambda>z. z * c'"] assms(2) by (simp add: mult.assoc)

lemma mix_inj:
  fixes x y c c' :: "64 word"
  assumes "(x XOR drop_bit k x) * c = (y XOR drop_bit k y) * c" "0 < k" "c * c' = 1"
  shows "x = y"
  using mult_unit_inj [OF assms(1,3)] assms(2) by (rule xorshift_inj)

lemma splitmix_units:
  "(0x94d049bb133111eb :: 64 word) * 0x319642b2d24d8ec3 = 1"
  "(0xbf58476d1ce4e5b9 :: 64 word) * 0x96de1b173f119089 = 1"
  by simp_all

lemma splitmix64_inj: "splitmix64 x = splitmix64 y \<longleftrightarrow> x = y"
proof
  define first where "first x = ((x + 0x9e3779b97f4a7c15) XOR drop_bit 30 (x + 0x9e3779b97f4a7c15)) * 0xbf58476d1ce4e5b9"
    for x :: "64 word"
  define second where "second z = (z XOR drop_bit 27 z) * 0x94d049bb133111eb" for z :: "64 word"
  have mix: "splitmix64 z = second (first z) XOR drop_bit 31 (second (first z))" for z
    unfolding splitmix64_def first_def second_def Let_def by (rule refl)
  assume "splitmix64 x = splitmix64 y"
  then have "second (first x) = second (first y)" unfolding mix by (rule xorshift_inj) simp
  then have "first x = first y"
    unfolding second_def by (rule mix_inj [OF _ _ splitmix_units(1)]) simp
  then have "x + 0x9e3779b97f4a7c15 = y + 0x9e3779b97f4a7c15"
    unfolding first_def by (rule mix_inj [OF _ _ splitmix_units(2)]) simp
  then show "x = y" by simp
qed simp

lemma xor_left_cancel_word:
  fixes a b c :: "64 word"
  assumes "a XOR b = a XOR c"
  shows "b = c"
  using arg_cong [OF assms, of "\<lambda>z. a XOR z"] by (simp add: xor.assoc [symmetric])

lemma trial_seed_inj:
  assumes "i \<le> usize_max" "j \<le> usize_max" "trial_seed s i = trial_seed s j"
  shows "i = j"
proof -
  have "splitmix64 (of_nat i) = splitmix64 (of_nat j)"
    using assms(3) unfolding trial_seed_def by (rule xor_left_cancel_word)
  then have "(of_nat i :: 64 word) = of_nat j" by (simp add: splitmix64_inj)
  then show ?thesis
    using assms(1,2) by (simp add: usize_max_def of_nat_inverse word_unat_eq_iff unsigned_of_nat take_bit_nat_eq_self)
qed


subsection \<open>Encoding and decoding\<close>

lemma f64_of_int_exact:
  assumes "\<bar>i\<bar> < 2 ^ 53"
  shows "f64_of_int i = F_Num (i < 0) (of_nat (nat \<bar>i\<bar>))"
proof -
  have "nat \<bar>i\<bar> < 2 ^ 53" using assms by (simp add: nat_less_iff)
  then have "f64_round (i < 0) (of_nat (nat \<bar>i\<bar>)) = F_Num (i < 0) (of_nat (nat \<bar>i\<bar>))"
    by (rule f64_round_nat)
  moreover have "\<bar>of_int i :: rat\<bar> = of_nat (nat \<bar>i\<bar>)" by simp
  ultimately show ?thesis by (simp only: f64_of_int_def f64_of_rat_def of_int_less_0_iff)
qed

lemma f64_distance_int:
  assumes "\<bar>a\<bar> < 2 ^ 52" "\<bar>b\<bar> < 2 ^ 52"
  shows "f64_abs (f64_sub (f64_of_int a) (f64_of_int b)) = F_Num False (of_nat (nat \<bar>a - b\<bar>))"
proof (cases "a = b")
  case False
  have signed: "f64_signed (i < 0) (of_nat (nat \<bar>i\<bar>)) = of_int i"
    "f64_signed (\<not> i < 0) (of_nat (nat \<bar>i\<bar>)) = - of_int i" for i
    by (auto simp: f64_signed_def)
  have small: "\<bar>a\<bar> < 2 ^ 53" "\<bar>b\<bar> < 2 ^ 53" using assms by simp_all
  have exact: "f64_of_int a = F_Num (a < 0) (of_nat (nat \<bar>a\<bar>))" "f64_of_int b = F_Num (b < 0) (of_nat (nat \<bar>b\<bar>))"
    by (simp_all only: f64_of_int_exact [OF small(1)] f64_of_int_exact [OF small(2)])
  have "f64_sub (f64_of_int a) (f64_of_int b) =
      (let r = of_int a + - of_int b in if r = 0 then F_Num (a < 0 \<and> \<not> b < 0) 0 else f64_of_rat r)"
    by (simp only: exact f64_sub_def f64_neg.simps f64_add.simps signed)
  also have "\<dots> = f64_of_rat (of_int (a - b))"
    using False by (simp add: Let_def)
  also have "\<dots> = f64_of_int (a - b)" by (simp only: f64_of_int_def)
  finally show ?thesis using assms by (simp add: f64_of_int_exact)
qed (use assms in \<open>simp add: f64_of_int_exact f64_sub_def f64_signed_def\<close>)

lemma closest_loop_exact:
  assumes "\<bar>x\<bar> < 2 ^ 52" "\<bar>best\<bar> < 2 ^ 52" "\<forall>v \<in> set vs. \<bar>v\<bar> < 2 ^ 52" "x = best \<or> x \<in> set vs"
  shows "closest_loop (f64_of_int x) best vs = x"
  using assms
proof (induction vs arbitrary: best)
  case (Cons v vs)
  let ?b = "if \<bar>v - x\<bar> < \<bar>best - x\<bar> then v else best"
  have "closest_loop (f64_of_int x) best (v # vs) = closest_loop (f64_of_int x) ?b vs"
    using Cons.prems by (auto simp: f64_distance_int f64_signed_def)
  moreover have "x = ?b \<or> x \<in> set vs" using Cons.prems(4) by auto
  ultimately show ?case using Cons by auto
qed simp

text \<open>The values a domain offers, with integers that a double represents with room to
  subtract, and a list of values whose first match with an entry is that entry.\<close>

fun in_domain :: "parameter_domain \<Rightarrow> toml_value \<Rightarrow> bool" where
  "in_domain (FloatDomain d) v \<longleftrightarrow>
     (\<exists>x. v = Toml_Float x \<and> f64_le (fd_min d) x \<and> f64_le x (fd_max d))"
| "in_domain (IntegerDomain d) v \<longleftrightarrow> v \<in> set (range_loop (id_max d) (domain_step d) (id_min d))"
| "in_domain (CategoricalDomain s) v \<longleftrightarrow> (\<exists>vs. source_values s = Inr vs \<and> v \<in> set vs)"

fun encodable_domain :: "parameter_domain \<Rightarrow> bool" where
  "encodable_domain (FloatDomain d) \<longleftrightarrow> f64_le (fd_min d) (fd_max d)"
| "encodable_domain (IntegerDomain d) \<longleftrightarrow>
     0 < domain_step d \<and> id_min d \<le> id_max d \<and> - (2 ^ 52) < id_min d \<and> id_max d < 2 ^ 52"
| "encodable_domain (CategoricalDomain s) \<longleftrightarrow>
     (\<exists>vs. source_values s = Inr vs \<and> length vs < 2 ^ 53 \<and> distinct vs \<and>
       (\<forall>v \<in> set vs. \<forall>w \<in> set vs. toml_eq v w \<longleftrightarrow> v = w))"

lemma range_loop_values:
  assumes "0 < step" "lo \<le> hi" "- i64_max - 1 \<le> lo" "hi \<le> i64_max"
  shows "v \<in> set (range_loop hi step lo) \<Longrightarrow> \<exists>i. v = Toml_Integer i \<and> lo \<le> i \<and> i \<le> hi"
    and "range_loop hi step lo \<noteq> []"
proof -
  note spec = range_loop_spec [OF assms(1,4,3,2)]
  show "range_loop hi step lo \<noteq> []" by (simp add: spec)
  assume "v \<in> set (range_loop hi step lo)"
  then obtain k where k: "k < nat ((hi - lo) div step) + 1" "v = Toml_Integer (lo + int k * step)"
    by (auto simp: spec simp del: upt_Suc)
  then have "int k \<le> (hi - lo) div step" using assms by (simp add: pos_imp_zdiv_nonneg_iff le_nat_iff less_Suc_eq_le)
  then have "int k * step \<le> hi - lo" using assms(1) by (simp add: le_div_iff_int)
  then show "\<exists>i. v = Toml_Integer i \<and> lo \<le> i \<and> i \<le> hi" using k assms(1) by auto
qed

lemma decode_encode_value:
  assumes "encodable_domain d" "in_domain d v"
  shows "\<exists>x. encode_parameter_value d v = Inr x \<and> decode_parameter_value d x = Inr v"
proof (cases d)
  case (FloatDomain f)
  then obtain x where x: "v = Toml_Float x" "f64_le (fd_min f) x" "f64_le x (fd_max f)"
    using assms(2) by auto
  then have "\<not> f64_lt x (fd_min f)" "\<not> f64_lt (fd_max f) x"
    using f64_lt_le_trans f64_lt_irrefl by blast+
  then show ?thesis using x FloatDomain by (simp add: f64_clamp_def ok_or_def)
next
  case (IntegerDomain i)
  let ?r = "range_loop (id_max i) (domain_step i) (id_min i)"
  have bounds: "0 < domain_step i" "id_min i \<le> id_max i" "- i64_max - 1 \<le> id_min i" "id_max i \<le> i64_max"
    and small: "- (2 ^ 52) < id_min i" "id_max i < 2 ^ 52"
    using assms(1) IntegerDomain by (auto simp: i64_max_def)
  have v: "v \<in> set ?r" using assms(2) IntegerDomain by simp
  have all: "\<exists>k. w = Toml_Integer k \<and> \<bar>k\<bar> < 2 ^ 52" if "w \<in> set ?r" for w
    using range_loop_values(1) [OF bounds that] small by force
  obtain k where k: "v = Toml_Integer k" "\<bar>k\<bar> < 2 ^ 52" using all [OF v] by blast
  define vs where "vs = map (\<lambda>v. the (as_integer v)) ?r"
  have "k \<in> set vs" using v k(1) by (force simp: vs_def)
  moreover have "\<forall>w \<in> set vs. \<bar>w\<bar> < 2 ^ 52" using all by (force simp: vs_def)
  ultimately have "take_closest_i64 vs (f64_of_int k) = k"
    using k(2) by (cases vs) (auto simp: take_closest_i64_def intro!: closest_loop_exact)
  moreover have "integer_domain_values i = Inr vs"
    using range_loop_values(2) [OF bounds] by (simp add: integer_domain_values_def vs_def)
  ultimately show ?thesis using IntegerDomain k(1) by (simp add: ok_or_def)
next
  case (CategoricalDomain s)
  then obtain vs where vs: "source_values s = Inr vs" "length vs < 2 ^ 53" "distinct vs"
    "\<forall>v \<in> set vs. \<forall>w \<in> set vs. toml_eq v w \<longleftrightarrow> v = w" and v: "v \<in> set vs"
    using assms by auto
  then obtain k where k: "position (\<lambda>c. toml_eq c v) vs = Some k" using position_exists by metis
  then have "k < length vs" "vs ! k = v" using vs(4) v by (auto simp: position_Some)
  moreover have "f64_as_usize (f64_clamp f64_zero (f64_of_nat (length vs - 1)) (f64_round_int (f64_of_nat k))) = k"
  proof -
    have "\<lfloor>of_nat k + 1 / 2 :: rat\<rfloor> = int k" by (simp add: floor_eq_iff)
    moreover have "k \<le> usize_max" using \<open>k < length vs\<close> vs(2) by (simp add: usize_max_def)
    ultimately show ?thesis
      using \<open>k < length vs\<close> vs(2) by (auto simp: f64_of_nat_exact f64_clamp_def f64_zero_def f64_signed_def)
  qed
  ultimately show ?thesis
    using CategoricalDomain k vs(1)
    by (simp add: categorical_domain_values_def map_err_def ok_or_def nth_opt_def Let_def)
qed

lemma decode_encode_list:
  assumes "\<forall>(name, d) \<in> set ps. encodable_domain d \<and> (\<exists>v. a name = Some v \<and> in_domain d v)"
  shows "\<exists>xs. encode_parameters ps a = Inr xs \<and> length xs = length ps \<and>
    try_map (\<lambda>((name, d), x). and_then (decode_parameter_value d x) (\<lambda>v. Inr (name, v))) (zip ps xs) =
      Inr (map (\<lambda>(name, d). (name, the (a name))) ps)"
  using assms
proof (induction ps)
  case (Cons p ps)
  obtain name d where p: "p = (name, d)" by (cases p)
  then obtain v where v: "encodable_domain d" "a name = Some v" "in_domain d v" using Cons.prems by auto
  obtain x where x: "encode_parameter_value d v = Inr x" "decode_parameter_value d x = Inr v"
    using decode_encode_value [OF v(1,3)] by blast
  obtain xs where xs: "encode_parameters ps a = Inr xs" "length xs = length ps"
    "try_map (\<lambda>((name, d), x). and_then (decode_parameter_value d x) (\<lambda>v. Inr (name, v))) (zip ps xs) =
      Inr (map (\<lambda>(name, d). (name, the (a name))) ps)" using Cons by auto
  show ?case
    using p v x xs by (intro exI [of _ "x # xs"]) (simp add: encode_parameters_def ok_or_def)
qed (simp add: encode_parameters_def)

text \<open>C23. The numeric encoding of a point of the search space loses nothing: a point with a
  value of its domain for every parameter is encoded, and decoding the code gives exactly
  the values of the point, for float, integer (below 2^52) and categorical parameters.\<close>

theorem encode_decode_parameters_roundtrip:
  assumes "\<forall>(name, d) \<in> set ps. encodable_domain d \<and> (\<exists>v. a name = Some v \<and> in_domain d v)"
    and "dom a = fst ` set ps"
  shows "\<exists>xs. encode_parameters ps a = Inr xs \<and> decode_parameters ps xs = Inr a"
proof -
  obtain xs where xs: "encode_parameters ps a = Inr xs" "length xs = length ps"
    "try_map (\<lambda>((name, d), x). and_then (decode_parameter_value d x) (\<lambda>v. Inr (name, v))) (zip ps xs) =
      Inr (map (\<lambda>(name, d). (name, the (a name))) ps)"
    using decode_encode_list [OF assms(1)] by blast
  have "map_of (map (\<lambda>(name, d). (name, the (a name))) ps) = a"
  proof
    fix n
    show "map_of (map (\<lambda>(name, d). (name, the (a name))) ps) n = a n"
    proof (cases "n \<in> fst ` set ps")
      case True
      then have "n \<in> dom a" using assms(2) by simp
      moreover have "map_of (map (\<lambda>(name, d). (name, the (a name))) ps) n = Some (the (a n))"
        using True by (induction ps) auto
      ultimately show ?thesis by auto
    next
      case False
      then have "a n = None" using assms(2) by blast
      moreover have "map_of (map (\<lambda>(name, d). (name, the (a name))) ps) n = None"
        using False by (force simp: map_of_eq_None_iff)
      ultimately show ?thesis by simp
    qed
  qed
  with xs show ?thesis by (auto simp: decode_parameters_def)
qed

definition demo_parameters :: parameters where
  "demo_parameters =
     [(''kind'', CategoricalDomain (Values [Toml_String ''a'', Toml_String ''b''])),
      (''n'', IntegerDomain \<lparr>id_min = 1, id_max = 6, id_step = Some 2\<rparr>),
      (''x'', FloatDomain \<lparr>fd_min = f64_zero, fd_max = f64_one\<rparr>)]"

definition demo_assignment :: assignment where
  "demo_assignment = [''kind'' \<mapsto> Toml_String ''b'', ''n'' \<mapsto> Toml_Integer 3, ''x'' \<mapsto> Toml_Float f64_one]"

lemma encode_decode_parameters_roundtrip_witness:
  "\<exists>xs. encode_parameters demo_parameters demo_assignment = Inr xs \<and>
     decode_parameters demo_parameters xs = Inr demo_assignment"
proof (rule encode_decode_parameters_roundtrip)
  show "\<forall>(name, d) \<in> set demo_parameters. encodable_domain d \<and>
      (\<exists>v. demo_assignment name = Some v \<and> in_domain d v)"
    by (simp add: demo_parameters_def demo_assignment_def domain_step_def range_loop.simps
        checked_add_i64_def i64_max_def f64_le_def f64_zero_def f64_one_def f64_signed_def)
  show "dom demo_assignment = fst ` set demo_parameters"
    by (auto simp: demo_parameters_def demo_assignment_def)
qed

subsection \<open>Grid search\<close>

lemma zdiv_le_dividend: "0 \<le> a \<Longrightarrow> 0 < b \<Longrightarrow> a div b \<le> (a :: int)"
  using int_div_le_self [of a b] by (cases "a = 0") auto

lemma grid_values_len:
  assumes "domain_validate name d = Inr ()" "hyperparameter_grid_domain_len d = Some n"
    and "\<forall>i. d = IntegerDomain i \<longrightarrow> - i64_max - 1 \<le> id_min i \<and> id_max i \<le> i64_max"
  shows "\<exists>vs. grid_parameter_values d = Inr vs \<and> length vs = n"
proof (cases d)
  case (IntegerDomain i)
  let ?span = "id_max i - id_min i" and ?step = "domain_step i"
  have step: "0 < ?step" "id_min i \<le> id_max i"
    using assms(1) IntegerDomain by (auto simp: domain_step_def split: option.splits if_splits)
  have span: "0 \<le> ?span" "?span \<le> i64_max"
    using assms(2) IntegerDomain step by (auto simp: Let_def split: if_splits)
  have quotient: "?span sdiv ?step = ?span div ?step"
    using step span by (cases "?span = 0") (simp_all add: signed_divide_int_def)
  have "?span div ?step \<le> ?span" using step(1) span(1) by (rule zdiv_le_dividend [rotated])
  then have "?span div ?step + 1 < 2 ^ 64" using span(2) by (simp add: i64_max_def)
  moreover have "0 \<le> ?span div ?step" using step span by (simp add: pos_imp_zdiv_nonneg_iff)
  ultimately have "n = nat (?span div ?step) + 1"
    using assms(2) IntegerDomain span
    by (simp add: domain_step_def Let_def quotient [unfolded domain_step_def] nat_add_distrib)
  then show ?thesis
    using assms(3) IntegerDomain step range_loop_spec [of ?step "id_max i" "id_min i"]
    by (auto simp: grid_parameter_values_def)
next
  case (CategoricalDomain s)
  then obtain vs where "source_values s = Inr vs" "length vs = n"
    using assms(2) by (auto simp: source_len_def split: sum.splits)
  then show ?thesis
    using CategoricalDomain by (simp add: grid_parameter_values_def categorical_domain_values_def map_err_def)
qed (use assms in auto)

definition i64_domain :: "parameter_domain \<Rightarrow> bool" where
  "i64_domain d \<longleftrightarrow>
     (case d of IntegerDomain i \<Rightarrow> - i64_max - 1 \<le> id_min i \<and> id_max i \<le> i64_max | _ \<Rightarrow> True)"

lemma grid_items_fold:
  assumes "validate_each (\<lambda>(n, d). domain_validate n d) ps = Inr ()" "\<forall>(_, d) \<in> set ps. i64_domain d"
    and "grid_len_fold k (map snd ps) = Some n"
  shows "\<exists>items. hyperparameter_grid_items ps = Inr items \<and> map item_name items = map fst ps \<and>
    try_fold (\<lambda>size item. ok_or (checked_mul_usize size (length (item_values item))) e) k items = Inr n"
  using assms
proof (induction ps arbitrary: k)
  case (Cons p ps)
  obtain name d where p: "p = (name, d)" by (cases p)
  have valid: "domain_validate name d = Inr ()" "i64_domain d" using Cons.prems p by auto
  obtain m k' where m: "hyperparameter_grid_domain_len d = Some m" "checked_mul_usize k m = Some k'"
    "grid_len_fold k' (map snd ps) = Some n"
    using Cons.prems(3) p by (auto split: option.splits)
  have "\<forall>i. d = IntegerDomain i \<longrightarrow> - i64_max - 1 \<le> id_min i \<and> id_max i \<le> i64_max"
    using valid(2) by (auto simp: i64_domain_def)
  then obtain vs where vs: "grid_parameter_values d = Inr vs" "length vs = m"
    using grid_values_len [OF valid(1) m(1)] by blast
  obtain items where items: "hyperparameter_grid_items ps = Inr items" "map item_name items = map fst ps"
    "try_fold (\<lambda>size item. ok_or (checked_mul_usize size (length (item_values item))) e) k' items = Inr n"
    using Cons.IH [OF _ _ m(3)] Cons.prems(1,2) p by auto
  show ?case
    using p m vs items
    by (intro exI [of _ "\<lparr>item_name = name, item_values = vs\<rparr> # items"])
      (simp add: hyperparameter_grid_items_def ok_or_def)
qed (simp add: hyperparameter_grid_items_def)

text \<open>C25. A grid search tries the whole grid: when the trial count announced for a valid
  tuning task is defined, planning succeeds, it plans exactly that many trials, numbered in
  order, and their parameters are the assignments of the cartesian product of the domains in
  lexicographic order.\<close>

theorem grid_search_plans_whole_grid:
  assumes "validate_each (\<lambda>(n, d). domain_validate n d) ps = Inr ()" "\<forall>(_, d) \<in> set ps. i64_domain d"
    and "hyperparameter_tuning_trial_count GridSearch ps = Some n"
  shows "\<exists>items plan. hyperparameter_grid_items ps = Inr items \<and> plan_grid_search ps = Inr plan \<and>
    total_trials plan = n \<and> map candidate_index (plan_candidates plan) = [0..<n] \<and>
    map candidate_parameters (plan_candidates plan) =
      map (\<lambda>t. map_of (zip (map fst ps) t)) (product_lists (map item_values items))"
proof -
  obtain items where items: "hyperparameter_grid_items ps = Inr items" "map item_name items = map fst ps"
    and len: "cartesian_grid_len items = Inr n"
    using grid_items_fold [OF assms(1,2)] assms(3) unfolding cartesian_grid_len_def by fastforce
  have n: "n = grid_size items" using len by (rule cartesian_grid_len_Inr)
  let ?c = "\<lambda>i. \<lparr>candidate_index = i, candidate_parameters = grid_assignment items (grid_tuples items ! i)\<rparr>"
  have "try_map (\<lambda>i. and_then (cartesian_grid_point items i) (\<lambda>a.
         Inr \<lparr>candidate_index = i, candidate_parameters = a\<rparr>)) [0..<n] = Inr (map ?c [0..<n])"
    by (intro try_map_total) (use n in \<open>auto simp: cartesian_grid_point_cases\<close>)
  then have plan: "plan_grid_search ps = Inr \<lparr>total_trials = n, plan_candidates = map ?c [0..<n]\<rparr>"
    using items len by (simp add: plan_grid_search_def)
  have "map (\<lambda>i. grid_assignment items (grid_tuples items ! i)) [0..<n] =
      map (grid_assignment items) (grid_tuples items)"
    by (rule nth_equalityI) (auto simp: n length_grid_tuples)
  with items plan show ?thesis by (auto simp: comp_def)
qed

lemma grid_search_plans_whole_grid_witness:
  "\<exists>plan. plan_grid_search (take 2 demo_parameters) = Inr plan \<and> total_trials plan = 6 \<and>
     map candidate_index (plan_candidates plan) = [0..<6]"
proof -
  have "validate_each (\<lambda>(n, d). domain_validate n d) (take 2 demo_parameters) = Inr ()"
    by (simp add: demo_parameters_def validate_source_name_def source_validate_def trim_def is_whitespace_def)
  moreover have "\<forall>(_, d) \<in> set (take 2 demo_parameters). i64_domain d"
    by (simp add: demo_parameters_def i64_domain_def i64_max_def)
  moreover have "hyperparameter_tuning_trial_count GridSearch (take 2 demo_parameters) = Some 6"
    by (simp add: demo_parameters_def source_len_def checked_mul_usize_def usize_max_def i64_max_def
        signed_divide_int_def)
  ultimately show ?thesis using grid_search_plans_whole_grid by blast
qed

subsection \<open>Plans of the surrogate optimizer\<close>

lemma candidate_loop_indices:
  "candidate_loop ps pick off is encoded = Inr cs \<Longrightarrow> map candidate_index cs = is"
  by (induction "is" arbitrary: off encoded cs) auto

lemma random_plan_indices:
  "try_map (\<lambda>i. and_then (f i) (\<lambda>a. Inr \<lparr>candidate_index = i, candidate_parameters = a\<rparr>)) is = Inr cs \<Longrightarrow>
   map candidate_index cs = is"
  by (induction "is" arbitrary: cs) auto

lemma suggest_indices:
  "suggest_egobox_candidates R suggest p ps obs mode next existing previous = Inr cs \<Longrightarrow>
   map candidate_index cs = next"
  by (auto simp: suggest_egobox_candidates_def Let_def dest: candidate_loop_indices split: option.splits)

text \<open>C26. A plan of the surrogate optimizer repeats no trial and stays within its limits: if the
  trials recorded earlier are among the existing children, then the planned indices are
  distinct and below the number of trials, the recorded trials keep their parameters, and the
  new indices are not in use and at most as many as the capacity, the configured parallelism
  and the remaining trials allow.\<close>

theorem egobox_plan_respects_limits:
  assumes "egobox_trial_plan R suggest p ps existing previous obs mode capacity = Inr plan"
    and "distinct (map previous_index previous)"
    and "previous_index ` set previous \<subseteq> set existing"
  shows "total_trials plan = ego_max_trials p \<and> distinct (map candidate_index (plan_candidates plan)) \<and>
    (\<forall>c \<in> set (plan_candidates plan). candidate_index c < ego_max_trials p) \<and>
    (\<forall>t \<in> set previous. previous_index t < ego_max_trials p \<longrightarrow>
       \<lparr>candidate_index = previous_index t, candidate_parameters = previous_parameters t\<rparr>
         \<in> set (plan_candidates plan)) \<and>
    card (candidate_index ` set (plan_candidates plan) - set existing)
      \<le> min (min capacity (parallel_candidates p)) (ego_max_trials p - length existing)"
proof -
  let ?n = "ego_max_trials p"
  let ?kept = "map (\<lambda>t. \<lparr>candidate_index = previous_index t, candidate_parameters = previous_parameters t\<rparr>)
            (filter (\<lambda>t. previous_index t < ?n) previous)"
  let ?desired = "min (min capacity (parallel_candidates p)) (?n - length existing)"
  let ?next = "take ?desired (filter (\<lambda>i. i \<notin> set existing) [0..<?n])"
  have kept: "map candidate_index ?kept = map previous_index (filter (\<lambda>t. previous_index t < ?n) previous)"
    by (simp add: comp_def)
  have kept_distinct: "distinct (map candidate_index ?kept)"
    using assms(2) unfolding kept by (rule distinct_map_filter)
  obtain new where new: "map candidate_index new = ?next \<or> new = []"
    and plan: "total_trials plan = ?n" "set (plan_candidates plan) = set (?kept @ new)"
      "mset (map candidate_index (plan_candidates plan)) = mset (map candidate_index (?kept @ new))"
  proof (cases "?desired = 0")
    case True
    then have "plan = \<lparr>total_trials = ?n, plan_candidates = ?kept\<rparr>"
      using assms(1) by (simp add: egobox_trial_plan_def Let_def)
    then show ?thesis using that [of "[]"] by simp
  next
    case False
    then obtain new where "map candidate_index new = ?next"
      "plan = \<lparr>total_trials = ?n, plan_candidates = sort_key candidate_index (?kept @ new)\<rparr>"
      using assms(1)
      by (auto simp: egobox_trial_plan_def Let_def dest: random_plan_indices suggest_indices split: if_splits)
    then show ?thesis
      by (intro that [of new]) (simp_all only: trial_plan.select_convs mset_map mset_sort set_sort simp_thms)
  qed
  have next_props: "distinct ?next" "\<forall>i \<in> set ?next. i < ?n \<and> i \<notin> set existing" "length ?next \<le> ?desired"
    by (auto dest: in_set_takeD)
  have new_indices: "candidate_index ` set new \<subseteq> set ?next" "distinct (map candidate_index new)"
    using new next_props(1) by (auto simp flip: set_map)
  have kept_existing: "candidate_index ` set ?kept \<subseteq> set existing" using assms(3) by auto
  have "candidate_index ` set ?kept \<inter> candidate_index ` set new = {}"
    using kept_existing new_indices(1) next_props(2) by blast
  then have "distinct (map candidate_index (?kept @ new))"
    unfolding map_append distinct_append set_map [where f = candidate_index]
    using kept_distinct new_indices(2) by blast
  then have "distinct (map candidate_index (plan_candidates plan))"
    using plan(3) by (metis mset_eq_imp_distinct_iff)
  moreover have "candidate_index ` set (plan_candidates plan) - set existing \<subseteq> set ?next"
    using plan(2) kept_existing new_indices(1) by auto
  then have "card (candidate_index ` set (plan_candidates plan) - set existing) \<le> card (set ?next)"
    by (intro card_mono) simp_all
  then have "card (candidate_index ` set (plan_candidates plan) - set existing) \<le> ?desired"
    using card_length [of ?next] next_props(3) by linarith
  moreover have "\<forall>c \<in> set (plan_candidates plan). candidate_index c < ?n"
  proof
    fix c assume "c \<in> set (plan_candidates plan)"
    then consider "c \<in> set ?kept" | "c \<in> set new" unfolding plan(2) by auto
    then show "candidate_index c < ?n"
    proof cases
      case 2
      then have "candidate_index c \<in> set ?next" using new_indices(1) by blast
      then show ?thesis using next_props(2) by blast
    qed auto
  qed
  moreover have "\<forall>t \<in> set previous. previous_index t < ?n \<longrightarrow>
      \<lparr>candidate_index = previous_index t, candidate_parameters = previous_parameters t\<rparr> \<in> set (plan_candidates plan)"
    unfolding plan(2) by simp
  ultimately show ?thesis using plan(1) by blast
qed

definition demo_rng :: "unit rng_ops" where
  "demo_rng = \<lparr>seed_from_u64 = (\<lambda>_. ()), draw_f64 = (\<lambda>lo hi g. (lo, g)), draw_i64 = (\<lambda>n g. (0, g)),
     draw_usize = (\<lambda>n g. (0, g))\<rparr>"

definition demo_egobox :: egobox_params where
  "demo_egobox = \<lparr>ego_max_trials = 4, ego_seed = Some 7, initial_design = 0, parallel_candidates = 2,
     infill = None, qei_strategy = None, qei_optmod = None, n_start = None\<rparr>"

definition demo_previous :: previous_trial where
  "demo_previous = \<lparr>previous_index = 1, previous_status = ChildActive, previous_parameters = demo_assignment,
     previous_objective = None\<rparr>"

lemma egobox_plan_respects_limits_witness:
  "\<exists>plan. egobox_trial_plan demo_rng (\<lambda>_ _ _. None) demo_egobox demo_parameters [1] [demo_previous] []
      Minimize 3 = Inr plan \<and> map candidate_index (plan_candidates plan) = [0, 1, 2] \<and>
    distinct (map candidate_index (plan_candidates plan)) \<and> total_trials plan = 4"
proof -
  have steps: "take 2 (filter (\<lambda>i. i \<noteq> Suc 0) [0..<4]) = [0, 2]" by (simp add: upt_rec)
  have "\<exists>plan. egobox_trial_plan demo_rng (\<lambda>_ _ _. None) demo_egobox demo_parameters [1] [demo_previous] []
      Minimize 3 = Inr plan \<and> map candidate_index (plan_candidates plan) = [0, 1, 2]"
    by (simp add: egobox_trial_plan_def Let_def demo_egobox_def demo_previous_def demo_parameters_def steps
        encoder_new_def categorical_domain_values_def map_err_def effective_initial_design_def
        random_trial_parameters_def sample_parameter_def demo_rng_def domain_step_def checked_add_i64_def
        i64_max_def ok_or_def nth_opt_def signed_divide_int_def integer_domain_values_def range_loop.simps)
  then show ?thesis
    using egobox_plan_respects_limits [of demo_rng "\<lambda>_ _ _. None" demo_egobox demo_parameters "[1]" "[demo_previous]" "[]" Minimize 3]
    by (auto simp: demo_previous_def demo_egobox_def)
qed

end
