(* ===== verification/Assignment_Plan.thy ===== *)
theory Assignment_Plan
  imports Models "HOL-Library.List_Lexorder" "HOL-Library.Char_ord"
begin

section \<open>Placing the workers of a controller's pool\<close>

text \<open>
  A controller task (a campaign, a parameter scan or a tuning) owns a pool of worker
  nodes and distributes it over its child runs. \<open>src/runners/controller_child.rs\<close>
  computes the wanted placements from one snapshot of the nodes and publishes only the
  differences. A \<open>BTreeMap\<close> keyed by node names is a map here; where the code iterates
  over one, the model iterates over its names in the order of \<open>str\<close>.
\<close>

type_synonym placements = "string \<rightharpoonup> assignment_target"

text \<open>\<open>plan_branches\<close> sends every run below the controller to the direct child it belongs to.\<close>

record controller_plan =
  parent_run_id :: i32
  selected_child_runs :: "i32 list"
  plan_branches :: "i32 \<rightharpoonup> i32"
  plan_controllers :: "i32 set"

definition controller_plan_new :: "i32 \<Rightarrow> i32 list \<Rightarrow> controller_plan" where
  "controller_plan_new parent sel =
     \<lparr>parent_run_id = parent, selected_child_runs = sel,
      plan_branches = (\<lambda>i. if i \<in> set sel then Some i else None), plan_controllers = {}\<rparr>"

text \<open>The rows of \<open>worker_pool_branches\<close>: a run, its branch, and whether the branch is a controller.\<close>

fun add_branches :: "controller_plan \<Rightarrow> (i32 \<times> i32 \<times> bool) list \<Rightarrow> controller_plan" where
  "add_branches p [] = p"
| "add_branches p ((i, b, c) # rows) =
     add_branches (p\<lparr>plan_branches := (plan_branches p)(i \<mapsto> b),
                    plan_controllers := (if c then insert b (plan_controllers p)
                                         else plan_controllers p)\<rparr>) rows"


subsection \<open>The snapshot at the level of the controller\<close>

text \<open>The selected children that exist, each at its first occurrence.\<close>

fun select_children :: "(i32 \<rightharpoonup> i32) \<Rightarrow> i32 set \<Rightarrow> i32 list \<Rightarrow> i32 list" where
  "select_children br seen [] = []"
| "select_children br seen (i # is) =
     (if br i \<noteq> None \<and> i \<notin> seen then i # select_children br (insert i seen) is
      else select_children br seen is)"

definition at_level :: "controller_plan \<Rightarrow> assignment_target \<Rightarrow> assignment_target" where
  "at_level p t =
     t\<lparr>target_run := (case plan_branches p (target_run t) of Some b \<Rightarrow> b | None \<Rightarrow> target_run t)\<rparr>"

fun snapshot_placements :: "controller_plan \<Rightarrow> registered_node list \<Rightarrow> placements \<Rightarrow> placements" where
  "snapshot_placements p [] m = m"
| "snapshot_placements p (n # ns) m =
     snapshot_placements p ns
       (case desired_assignment n of None \<Rightarrow> m | Some t \<Rightarrow> m(reg_name n \<mapsto> at_level p t))"

definition reusable :: "controller_plan \<Rightarrow> assignment_target \<Rightarrow> bool" where
  "reusable p t \<longleftrightarrow> target_run t = parent_run_id p \<or> plan_branches p (target_run t) \<noteq> None"

text \<open>The pool: the placements the controller may change, in the order of the node names.\<close>

definition reusable_assignments ::
    "controller_plan \<Rightarrow> registered_node list \<Rightarrow> placements \<Rightarrow> (string \<times> assignment_target) list" where
  "reusable_assignments p nodes m =
     map (\<lambda>n. (n, the (m n)))
       (filter (\<lambda>n. case m n of Some t \<Rightarrow> reusable p t | None \<Rightarrow> False)
         (sort (remdups (map reg_name nodes))))"


subsection \<open>Samplers\<close>

text \<open>
  A sampler stays on a child that is still selected, unless another one was kept there
  and the child is not a controller itself.
\<close>

fun keep_samplers ::
    "i32 set \<Rightarrow> i32 list \<Rightarrow> (string \<times> assignment_target) list \<Rightarrow> i32 set \<times> placements
     \<Rightarrow> i32 set \<times> placements" where
  "keep_samplers ctl sel [] s = s"
| "keep_samplers ctl sel ((n, t) # es) (act, des) =
     (if target_role t = SamplerAggregator \<and> target_run t \<in> set sel
         \<and> (target_run t \<notin> act \<or> target_run t \<in> ctl)
      then keep_samplers ctl sel es (insert (target_run t) act, des(n \<mapsto> t))
      else keep_samplers ctl sel es (act, des))"

fun place_all :: "worker_role \<Rightarrow> (i32 \<times> string) list \<Rightarrow> placements \<Rightarrow> placements" where
  "place_all r [] des = des"
| "place_all r ((i, n) # ps) des =
     place_all r ps (des(n \<mapsto> \<lparr>target_role = r, target_run = i\<rparr>))"

text \<open>Children without a sampler take one each, in priority order.\<close>

definition fill_children ::
    "i32 list \<Rightarrow> string list \<Rightarrow> i32 set \<times> placements \<Rightarrow> i32 set \<times> placements" where
  "fill_children sel samplers s =
     (case s of (act, des) \<Rightarrow>
        let pairs = zip (filter (\<lambda>i. i \<notin> act) sel) samplers
        in (act \<union> set (map fst pairs), place_all SamplerAggregator pairs des))"

text \<open>Surplus samplers go round the selected children that are controllers.\<close>

definition spread_surplus ::
    "i32 list \<Rightarrow> string list \<Rightarrow> i32 set \<times> placements \<Rightarrow> i32 set \<times> placements" where
  "spread_surplus nested rest s =
     (case s of (act, des) \<Rightarrow>
        if nested = [] then s
        else let pairs = map (\<lambda>(k, n). (nested ! (k mod length nested), n))
                           (zip [0..<length rest] rest)
             in (act \<union> set (map fst pairs), place_all SamplerAggregator pairs des))"


subsection \<open>Evaluators\<close>

text \<open>The share of the child at position \<open>i\<close> of the sorted active children.\<close>

definition evaluator_share :: "usize \<Rightarrow> usize \<Rightarrow> usize \<Rightarrow> usize" where
  "evaluator_share n k i = n div k + (if i < n mod k then 1 else 0)"

definition shares :: "usize \<Rightarrow> i32 list \<Rightarrow> (i32 \<rightharpoonup> usize)" where
  "shares n act = map_of (map (\<lambda>(i, c). (c, evaluator_share n (length act) i))
                             (zip [0..<length act] act))"

text \<open>An evaluator stays on its child while that child's share is not exhausted.\<close>

fun keep_evaluators ::
    "(string \<times> assignment_target) list \<Rightarrow> (i32 \<rightharpoonup> usize) \<Rightarrow> placements
     \<Rightarrow> (i32 \<rightharpoonup> usize) \<times> string list \<times> placements" where
  "keep_evaluators [] need des = (need, [], des)"
| "keep_evaluators ((n, t) # es) need des =
     (case need (target_run t) of
        Some (Suc k) \<Rightarrow> keep_evaluators es (need(target_run t \<mapsto> k)) (des(n \<mapsto> t))
      | _ \<Rightarrow> (case keep_evaluators es need des of (need', rest, des') \<Rightarrow> (need', n # rest, des')))"

definition place_evaluators ::
    "i32 list \<Rightarrow> (string \<times> assignment_target) list \<Rightarrow> placements \<Rightarrow> placements" where
  "place_evaluators act evs des =
     (if act = [] then des
      else case keep_evaluators evs (shares (length evs) act) des of
        (need, rest, des) \<Rightarrow>
          place_all Evaluator
            (zip (concat (map (\<lambda>c. replicate (the (need c)) c) act)) rest) des)"


subsection \<open>The plan\<close>

definition role_entries ::
    "worker_role \<Rightarrow> (string \<times> assignment_target) list \<Rightarrow> (string \<times> assignment_target) list" where
  "role_entries r es = filter (\<lambda>(n, t). target_role t = r) es"

definition place_samplers ::
    "controller_plan \<Rightarrow> i32 list \<Rightarrow> (string \<times> assignment_target) list \<Rightarrow> placements
     \<Rightarrow> i32 set \<times> placements" where
  "place_samplers p sel pool des =
     (case keep_samplers (plan_controllers p) sel pool ({}, des) of
        (act, des) \<Rightarrow>
          let free = map fst (filter (\<lambda>(n, t). des n = None) (role_entries SamplerAggregator pool));
              needing = filter (\<lambda>i. i \<notin> act) sel
          in spread_surplus (filter (\<lambda>i. i \<in> plan_controllers p) sel) (drop (length needing) free)
               (fill_children sel free (act, des)))"

text \<open>Nodes the plan leaves over stay in the pool, on the controller's own run.\<close>

fun retain_pool :: "i32 \<Rightarrow> (string \<times> assignment_target) list \<Rightarrow> placements \<Rightarrow> placements" where
  "retain_pool parent [] des = des"
| "retain_pool parent ((n, t) # es) des =
     retain_pool parent es
       (if des n = None then des(n \<mapsto> t\<lparr>target_run := parent\<rparr>) else des)"

definition schedule_pool ::
    "controller_plan \<Rightarrow> i32 list \<Rightarrow> (string \<times> assignment_target) list \<Rightarrow> placements \<Rightarrow> placements" where
  "schedule_pool p sel pool des =
     retain_pool (parent_run_id p) pool
       (if sel = [] then des
        else case place_samplers p sel pool des of
          (act, des) \<Rightarrow>
            place_evaluators (sorted_list_of_set act) (role_entries Evaluator pool) des)"

definition desired_placements :: "registered_node list \<Rightarrow> controller_plan \<Rightarrow> placements" where
  "desired_placements nodes p =
     (let snap = snapshot_placements p nodes Map.empty;
          pool = reusable_assignments p nodes snap
      in schedule_pool p (select_children (plan_branches p) {} (selected_child_runs p)) pool
           (snap |` (- set (map fst pool))))"

text \<open>
  The differences, node by node. A node whose direct branch does not change keeps the
  deeper run it works on: only that branch schedules it.
\<close>

definition next_assignment ::
    "controller_plan \<Rightarrow> registered_node \<Rightarrow> assignment_target option \<Rightarrow> assignment_target option" where
  "next_assignment p n new =
     (case (desired_assignment n, new) of
        (Some old, Some after) \<Rightarrow>
          if plan_branches p (target_run old) = Some (target_run after)
          then Some (after\<lparr>target_run := target_run old\<rparr>) else Some after
      | _ \<Rightarrow> new)"

fun assignment_diff ::
    "controller_plan \<Rightarrow> registered_node list \<Rightarrow> placements \<Rightarrow> node_assignment_update list" where
  "assignment_diff p [] des = []"
| "assignment_diff p (n # ns) des =
     (let new = next_assignment p n (des (reg_name n));
          rest = assignment_diff p ns (des(reg_name n := None))
      in if desired_assignment n \<noteq> new
         then \<lparr>update_node_uuid = reg_uuid n, expected = desired_assignment n, desired = new\<rparr> # rest
         else rest)"

definition controller_assignment_updates ::
    "registered_node list \<Rightarrow> controller_plan \<Rightarrow> node_assignment_update list" where
  "controller_assignment_updates nodes p = assignment_diff p nodes (desired_placements nodes p)"

end
