(* ===== verification/Assignment_Laws.thy ===== *)
theory Assignment_Laws
  imports Assignment_Plan
begin

section \<open>Correctness of the placement plan\<close>

text \<open>
  The plan is compared with a specification of the settled pool: one sampler on every
  child that is not a controller, evaluators shared out evenly, idle workers on the
  controller's run. The plan settles every pool and leaves a settled pool alone.
\<close>

named_theorems plan_simps \<open>lookups in the placements built by the plan\<close>

lemma place_all_other [plan_simps]: "n \<notin> snd ` set ps \<Longrightarrow> place_all r ps des n = des n"
  by (induction r ps des rule: place_all.induct) auto

lemma place_all_at:
  "(i, n) \<in> set ps \<Longrightarrow> distinct (map snd ps) \<Longrightarrow>
   place_all r ps des n = Some \<lparr>target_role = r, target_run = i\<rparr>"
  by (induction r ps des rule: place_all.induct) (auto simp: plan_simps)

lemma retain_pool_at:
  "distinct (map fst es) \<Longrightarrow> (n, t) \<in> set es \<Longrightarrow>
   retain_pool parent es des n =
     (if des n = None then Some (t\<lparr>target_run := parent\<rparr>) else des n)"
  and retain_pool_other [plan_simps]:
  "n \<notin> fst ` set es \<Longrightarrow> retain_pool parent es des n = des n"
proof -
  have other: "n \<notin> fst ` set es \<Longrightarrow> retain_pool parent es des n = des n" for parent es des n
    by (induction parent es des rule: retain_pool.induct) auto
  then show "n \<notin> fst ` set es \<Longrightarrow> retain_pool parent es des n = des n" .
  show "distinct (map fst es) \<Longrightarrow> (n, t) \<in> set es \<Longrightarrow>
     retain_pool parent es des n =
       (if des n = None then Some (t\<lparr>target_run := parent\<rparr>) else des n)"
  proof (induction parent es des rule: retain_pool.induct)
    case (2 parent n' t' es des)
    show ?case
    proof (cases "n = n'")
      case True
      then have "n \<notin> fst ` set es" "t = t'" using 2 by (auto intro: rev_image_eqI)
      then show ?thesis by (simp add: other flip: True)
    next
      case False
      then show ?thesis using 2 by auto
    qed
  qed simp
qed


subsection \<open>Samplers that stay\<close>

fun kept :: "i32 set \<Rightarrow> i32 list \<Rightarrow> i32 set \<Rightarrow> (string \<times> assignment_target) list
    \<Rightarrow> (string \<times> assignment_target) list" where
  "kept ctl sel act [] = []"
| "kept ctl sel act ((n, t) # es) =
     (if target_role t = SamplerAggregator \<and> target_run t \<in> set sel
         \<and> (target_run t \<notin> act \<or> target_run t \<in> ctl)
      then (n, t) # kept ctl sel (insert (target_run t) act) es
      else kept ctl sel act es)"

lemma kept_subset:
  "(n, t) \<in> set (kept ctl sel act es) \<Longrightarrow>
   (n, t) \<in> set es \<and> target_role t = SamplerAggregator \<and> target_run t \<in> set sel"
  by (induction ctl sel act es rule: kept.induct) (auto split: if_splits)

lemma keep_samplers_kept:
  "distinct (map fst es) \<Longrightarrow>
   keep_samplers ctl sel es (act, des) =
     (act \<union> (target_run \<circ> snd) ` set (kept ctl sel act es), des ++ map_of (kept ctl sel act es))"
proof (induction es arbitrary: act des)
  case (Cons e es)
  obtain n t where [simp]: "e = (n, t)" by (cases e)
  let ?K = "kept ctl sel (insert (target_run t) act) es"
  show ?case
  proof (cases "target_role t = SamplerAggregator \<and> target_run t \<in> set sel
      \<and> (target_run t \<notin> act \<or> target_run t \<in> ctl)")
    case True
    have "n \<notin> dom (map_of ?K)"
      using Cons.prems by (auto simp: dom_map_of_conv_image_fst dest!: kept_subset intro: rev_image_eqI)
    then have "des(n \<mapsto> t) ++ map_of ?K = des ++ map_of ((n, t) # ?K)"
      by (auto simp: map_add_def fun_eq_iff dom_def split: option.splits)
    moreover have "keep_samplers ctl sel es (insert (target_run t) act, des(n \<mapsto> t)) =
        (insert (target_run t) act \<union> (target_run \<circ> snd) ` set ?K, des(n \<mapsto> t) ++ map_of ?K)"
      by (rule Cons.IH) (use Cons.prems in simp)
    ultimately show ?thesis using True by (simp del: map_of.simps)
  next
    case False
    then show ?thesis using Cons by auto
  qed
qed simp

lemma kept_covers:
  "act \<union> (target_run \<circ> snd) ` set (kept ctl sel act es) =
   act \<union> {target_run t | n t. (n, t) \<in> set es \<and> target_role t = SamplerAggregator
            \<and> target_run t \<in> set sel}"
proof (induction ctl sel act es rule: kept.induct)
  case (2 ctl sel act n t es)
  then show ?case by auto
qed simp

lemma kept_fresh: "(n, t) \<in> set (kept ctl sel act es) \<Longrightarrow> target_run t \<notin> ctl \<Longrightarrow> target_run t \<notin> act"
  by (induction ctl sel act es rule: kept.induct) (auto split: if_splits)

lemma kept_inj:
  "(n, t) \<in> set (kept ctl sel act es) \<Longrightarrow> (n', t') \<in> set (kept ctl sel act es) \<Longrightarrow>
   target_run t = target_run t' \<Longrightarrow> target_run t \<notin> ctl \<Longrightarrow> n = n'"
  by (induction ctl sel act es rule: kept.induct) (auto split: if_splits dest: kept_fresh)

lemma kept_distinct: "distinct (map fst es) \<Longrightarrow> distinct (map fst (kept ctl sel act es))"
  by (induction ctl sel act es rule: kept.induct) (auto dest!: kept_subset intro: rev_image_eqI)

text \<open>When no two of them compete for a child, all samplers on selected children stay.\<close>

lemma kept_all:
  assumes "distinct (map fst es)"
    "\<forall>(n, t) \<in> set es. target_role t = SamplerAggregator \<longrightarrow> target_run t \<in> set sel \<longrightarrow>
       target_run t \<in> ctl \<or> target_run t \<notin> act"
    "\<forall>(n, t) \<in> set es. \<forall>(n', t') \<in> set es. target_role t = SamplerAggregator \<longrightarrow>
       target_role t' = SamplerAggregator \<longrightarrow> target_run t \<in> set sel - ctl \<longrightarrow>
       target_run t = target_run t' \<longrightarrow> n = n'"
  shows "kept ctl sel act es =
    filter (\<lambda>(n, t). target_role t = SamplerAggregator \<and> target_run t \<in> set sel) es"
  using assms
proof (induction es arbitrary: act)
  case (Cons e es)
  obtain n t where e [simp]: "e = (n, t)" by (cases e)
  show ?case
  proof (cases "target_role t = SamplerAggregator \<and> target_run t \<in> set sel")
    case True
    have "kept ctl sel (insert (target_run t) act) es =
      filter (\<lambda>(n, t). target_role t = SamplerAggregator \<and> target_run t \<in> set sel) es"
    proof (rule Cons.IH)
      show "distinct (map fst es)" using Cons.prems(1) by simp
      show "\<forall>(n', t') \<in> set es. target_role t' = SamplerAggregator \<longrightarrow> target_run t' \<in> set sel \<longrightarrow>
          target_run t' \<in> ctl \<or> target_run t' \<notin> insert (target_run t) act"
      proof (clarify)
        fix n' t' assume *: "(n', t') \<in> set es" "target_role t' = SamplerAggregator"
          "target_run t' \<in> set sel" "target_run t' \<notin> ctl" "target_run t' \<in> insert (target_run t) act"
        have "n \<noteq> n'" using Cons.prems(1) *(1) by force
        moreover have "target_run t = target_run t' \<Longrightarrow> n = n'"
          using Cons.prems(3) True * by auto
        moreover have "target_run t' \<notin> act" using Cons.prems(2) * by auto
        ultimately show False using *(5) by auto
      qed
      show "\<forall>(n, t) \<in> set es. \<forall>(n', t') \<in> set es. target_role t = SamplerAggregator \<longrightarrow>
       target_role t' = SamplerAggregator \<longrightarrow> target_run t \<in> set sel - ctl \<longrightarrow>
       target_run t = target_run t' \<longrightarrow> n = n'"
        using Cons.prems(3) by auto
    qed
    moreover have "target_run t \<notin> act \<or> target_run t \<in> ctl" using Cons.prems(2) True by auto
    ultimately show ?thesis using True by simp
  next
    case False
    have "kept ctl sel act es =
      filter (\<lambda>(n, t). target_role t = SamplerAggregator \<and> target_run t \<in> set sel) es"
      by (rule Cons.IH) (use Cons.prems in auto)
    then show ?thesis using False by auto
  qed
qed simp


subsection \<open>Sharing out the evaluators\<close>

lemma sum_shares:
  assumes "0 < k"
  shows "(\<Sum>i<k. evaluator_share n k i) = n"
proof -
  have "(\<Sum>i<k. if i < n mod k then 1 else (0::nat)) = card {i. i < k \<and> i < n mod k}"
    by (simp add: sum.If_cases Collect_conj_eq lessThan_def)
  also have "{i. i < k \<and> i < n mod k} = {..<n mod k}"
    using assms by (auto intro: less_trans mod_less_divisor)
  finally show ?thesis by (simp add: evaluator_share_def sum.distrib)
qed

lemma shares_nth:
  assumes "distinct act" "i < length act"
  shows "shares n act (act ! i) = Some (evaluator_share n (length act) i)"
proof -
  have "map fst (map (\<lambda>(i, c). (c, evaluator_share n (length act) i)) (zip [0..<length act] act)) = act"
    by (intro nth_equalityI) auto
  moreover have "(act ! i, evaluator_share n (length act) i)
      \<in> set (map (\<lambda>(i, c). (c, evaluator_share n (length act) i)) (zip [0..<length act] act))"
    using assms(2) by (auto simp: set_zip intro!: image_eqI [of _ _ "(i, act ! i)"] exI [of _ i])
  ultimately show ?thesis
    unfolding shares_def using assms(1) by (intro map_of_is_SomeI) simp_all
qed

lemma dom_shares: "dom (shares n act) = set act"
  by (auto simp: shares_def dom_map_of_conv_image_fst set_zip in_set_conv_nth image_iff)

lemma sum_the_shares:
  assumes "distinct act" "act \<noteq> []"
  shows "(\<Sum>c \<in> set act. the (shares n act c)) = n"
proof -
  have "(\<Sum>c \<in> set act. the (shares n act c)) = (\<Sum>i<length act. the (shares n act (act ! i)))"
    using assms(1) by (simp add: sum.distinct_set_conv_list sum_list_sum_nth atLeast0LessThan)
  also have "\<dots> = (\<Sum>i<length act. evaluator_share n (length act) i)"
    by (rule sum.cong) (simp_all add: shares_nth assms)
  finally show ?thesis using assms(2) by (simp add: sum_shares)
qed

lemma fst_image_filter_mem:
  "rest = map fst (filter (\<lambda>(n, t). n \<in> set rest) es) \<Longrightarrow>
   set rest = {n. \<exists>t. (n, t) \<in> set es \<and> n \<in> set rest}"
  by (drule arg_cong [of _ _ set]) force

text \<open>What \<open>keep_evaluators\<close> returns, on names that are not placed yet.\<close>

lemma keep_evaluators_names:
  assumes "keep_evaluators es need des = (need', rest, des')" "distinct (map fst es)"
  shows "rest = map fst (filter (\<lambda>(n, t). n \<in> set rest) es)"
    and "\<forall>n. n \<notin> fst ` set es \<or> n \<in> set rest \<longrightarrow> des' n = des n"
    and "\<forall>(n, t) \<in> set es. n \<notin> set rest \<longrightarrow> des' n = Some t \<and> need (target_run t) \<noteq> None"
    and "dom need' = dom need"
proof -
  have "rest = map fst (filter (\<lambda>(n, t). n \<in> set rest) es) \<and>
    (\<forall>n. n \<notin> fst ` set es \<or> n \<in> set rest \<longrightarrow> des' n = des n) \<and>
    (\<forall>(n, t) \<in> set es. n \<notin> set rest \<longrightarrow> des' n = Some t \<and> need (target_run t) \<noteq> None) \<and>
    dom need' = dom need"
    using assms
  proof (induction es arbitrary: need des rest)
    case (Cons e es)
    obtain n t where [simp]: "e = (n, t)" by (cases e)
    have d: "distinct (map fst es)" "n \<notin> fst ` set es" using Cons.prems(2) by auto
    then have n: "\<forall>(n', t') \<in> set es. n' \<noteq> n" by force
    show ?case
    proof (cases "\<exists>k. need (target_run t) = Some (Suc k)")
      case True
      then obtain k where k: "need (target_run t) = Some (Suc k)" by blast
      have e: "keep_evaluators es (need(target_run t \<mapsto> k)) (des(n \<mapsto> t)) = (need', rest, des')"
        using Cons.prems(1) k by simp
      note IH = Cons.IH [OF e d(1)]
      have "set rest = {n. \<exists>t. (n, t) \<in> set es \<and> n \<in> set rest}"
        using IH by (metis (mono_tags, lifting) fst_image_filter_mem)
      then have nr: "n \<notin> set rest" using n by fast
      have "(need(target_run t \<mapsto> k)) c \<noteq> None \<longleftrightarrow> need c \<noteq> None" for c
        using k by simp
      then have IH': "\<forall>(n, t) \<in> set es. n \<notin> set rest \<longrightarrow> des' n = Some t \<and> need (target_run t) \<noteq> None"
        using conjunct1 [OF conjunct2 [OF conjunct2 [OF IH]]] by (simp only:)
      have "\<forall>m. m \<notin> fst ` set (e # es) \<or> m \<in> set rest \<longrightarrow> des' m = des m"
        using IH nr by (auto split: if_splits)
      moreover have "des' n = Some t" using IH d(2) by simp
      moreover have "dom (need(target_run t \<mapsto> k)) = dom need" using k by auto
      then have "dom need' = dom need"
        by (rule trans [OF conjunct2 [OF conjunct2 [OF conjunct2 [OF IH]]]])
      moreover have "rest = map fst (filter (\<lambda>(n, t). n \<in> set rest) (e # es))"
        using IH nr by simp
      ultimately show ?thesis using IH' k by auto
    next
      case False
      then obtain rest' where e: "keep_evaluators es need des = (need', rest', des')"
        and r: "rest = n # rest'"
        using Cons.prems(1) by (auto split: option.splits nat.splits prod.splits)
      note IH = Cons.IH [OF e d(1)]
      have "filter (\<lambda>(n', t). n' = n \<or> n' \<in> set rest') es = filter (\<lambda>(n', t). n' \<in> set rest') es"
        using d(2) by (intro filter_cong) force+
      then show ?thesis using IH d(2) by (auto simp: r)
    qed
  qed auto
  then show "rest = map fst (filter (\<lambda>(n, t). n \<in> set rest) es)"
    "\<forall>n. n \<notin> fst ` set es \<or> n \<in> set rest \<longrightarrow> des' n = des n"
    "\<forall>(n, t) \<in> set es. n \<notin> set rest \<longrightarrow> des' n = Some t \<and> need (target_run t) \<noteq> None"
    "dom need' = dom need" by blast+
qed


text \<open>A child's share is used up by the evaluators that stay, down to what is still needed.\<close>

lemma keep_evaluators_counts:
  "keep_evaluators es need des = (need', rest, des') \<Longrightarrow> distinct (map fst es) \<Longrightarrow> need c = Some k \<Longrightarrow>
   \<exists>k'. need' c = Some k' \<and>
     k' + length (filter (\<lambda>(n, t). n \<notin> set rest \<and> target_run t = c) es) = k"
proof (induction es arbitrary: need des rest k)
  case (Cons e es)
  obtain n t where [simp]: "e = (n, t)" by (cases e)
  have d: "distinct (map fst es)" "n \<notin> fst ` set es" using Cons.prems(2) by auto
  then have n: "\<forall>(n', t') \<in> set es. n' \<noteq> n" by force
  show ?case
  proof (cases "\<exists>j. need (target_run t) = Some (Suc j)")
    case True
    then obtain j where j: "need (target_run t) = Some (Suc j)" by blast
    have e: "keep_evaluators es (need(target_run t \<mapsto> j)) (des(n \<mapsto> t)) = (need', rest, des')"
      using Cons.prems(1) j by simp
    have "n \<notin> set rest"
      using fst_image_filter_mem [OF keep_evaluators_names(1) [OF e d(1)]] n by fast
    moreover have "(need(target_run t \<mapsto> j)) c = Some (if target_run t = c then j else k)"
      using j Cons.prems(3) by auto
    ultimately show ?thesis using Cons.IH [OF e d(1)] j Cons.prems(3) by (auto split: if_splits)
  next
    case False
    then obtain rest' where e: "keep_evaluators es need des = (need', rest', des')"
      and r: "rest = n # rest'"
      using Cons.prems(1) by (auto split: option.splits nat.splits prod.splits)
    have "filter (\<lambda>(n', t). n' \<noteq> n \<and> n' \<notin> set rest' \<and> target_run t = c) es =
        filter (\<lambda>(n', t). n' \<notin> set rest' \<and> target_run t = c) es"
      using n by (intro filter_cong) auto
    then show ?thesis using Cons.IH [OF e d(1) Cons.prems(3)] by (simp add: r)
  qed
qed auto

text \<open>Nobody moves when no child has more evaluators than its share.\<close>

lemma keep_evaluators_all:
  "\<forall>c. length (filter (\<lambda>(n, t). target_run t = c) es) \<le> (case need c of None \<Rightarrow> 0 | Some k \<Rightarrow> k) \<Longrightarrow>
   fst (snd (keep_evaluators es need des)) = []"
proof (induction es arbitrary: need des)
  case (Cons e es)
  obtain n t where [simp]: "e = (n, t)" by (cases e)
  have "length (filter (\<lambda>(n, t). target_run t = target_run (snd e)) (e # es)) \<le>
      (case need (target_run t) of None \<Rightarrow> 0 | Some k \<Rightarrow> k)"
    using Cons.prems by (metis \<open>e = (n, t)\<close> snd_conv)
  then obtain k where k: "need (target_run t) = Some (Suc k)"
    by (cases "need (target_run t)"; simp) (metis Suc_le_D)
  have "\<forall>c. length (filter (\<lambda>(n, t). target_run t = c) es) \<le>
      (case (need(target_run t \<mapsto> k)) c of None \<Rightarrow> 0 | Some k \<Rightarrow> k)"
  proof
    fix c
    show "length (filter (\<lambda>(n, t). target_run t = c) es) \<le>
      (case (need(target_run t \<mapsto> k)) c of None \<Rightarrow> 0 | Some k \<Rightarrow> k)"
      using Cons.prems [rule_format, of c] k by (cases "c = target_run t") auto
  qed
  then show ?case using Cons.IH k by simp
qed simp


lemma sum_filter_classes:
  assumes "finite A" "\<forall>x \<in> set xs. Q x \<longrightarrow> f x \<in> A"
  shows "(\<Sum>c \<in> A. length (filter (\<lambda>x. Q x \<and> f x = c) xs)) = length (filter Q xs)"
  using assms(2)
proof (induction xs)
  case (Cons x xs)
  have "(\<Sum>c \<in> A. length (filter (\<lambda>x. Q x \<and> f x = c) (x # xs))) =
      (\<Sum>c \<in> A. (if Q x \<and> c = f x then 1 else 0) + length (filter (\<lambda>x. Q x \<and> f x = c) xs))"
    by (rule sum.cong) auto
  also have "\<dots> = (\<Sum>c \<in> A. if Q x \<and> c = f x then 1 else 0) + length (filter Q xs)"
    using Cons by (simp add: sum.distrib)
  also have "(\<Sum>c \<in> A. if Q x \<and> c = f x then 1 else (0::nat)) = (if Q x then 1 else 0)"
    using assms(1) Cons.prems by (cases "Q x") (simp_all add: sum.delta)
  finally show ?case by simp
qed simp

lemma count_repeats:
  "distinct act \<Longrightarrow>
   length (filter (\<lambda>x. x = c) (concat (map (\<lambda>c. replicate (m c) c) act))) =
     (if c \<in> set act then m c else 0)"
  by (induction act) (auto simp: filter_empty_conv)

lemma length_repeats: "length (concat (map (\<lambda>c. replicate (m c) c) act)) = (\<Sum>c\<leftarrow>act. m c)"
  by (induction act) auto

lemma place_zip:
  assumes "distinct ns" "length cs = length ns"
  shows "map (\<lambda>n. target_run (the (place_all r (zip cs ns) des n))) ns = cs"
    and "n \<in> set ns \<Longrightarrow> \<exists>c \<in> set cs. place_all r (zip cs ns) des n = Some \<lparr>target_role = r, target_run = c\<rparr>"
proof -
  have d: "distinct (map snd (zip cs ns))" using assms by simp
  have at: "place_all r (zip cs ns) des (ns ! i) = Some \<lparr>target_role = r, target_run = cs ! i\<rparr>"
    if "i < length ns" for i
    by (rule place_all_at [OF _ d]) (use that assms(2) in \<open>auto simp: set_zip\<close>)
  then show "map (\<lambda>n. target_run (the (place_all r (zip cs ns) des n))) ns = cs"
    using assms(2) by (intro nth_equalityI) auto
  show "n \<in> set ns \<Longrightarrow> \<exists>c \<in> set cs. place_all r (zip cs ns) des n = Some \<lparr>target_role = r, target_run = c\<rparr>"
    using at assms(2) by (metis in_set_conv_nth)
qed

lemma place_evaluators_other:
  assumes "distinct (map fst evs)" "n \<notin> fst ` set evs"
  shows "place_evaluators act evs des n = des n"
proof -
  obtain need' rest des' where k: "keep_evaluators evs (shares (length evs) act) des = (need', rest, des')"
    by (metis prod_cases3)
  note N = keep_evaluators_names [OF k assms(1)]
  have "set rest \<subseteq> fst ` set evs" by (subst N(1)) auto
  then have "n \<notin> snd ` set (zip cs rest)" for cs :: "i32 list"
    using assms(2) set_zip_rightD by fastforce
  then show ?thesis using N(2) assms(2) by (simp add: place_evaluators_def k plan_simps)
qed

text \<open>All evaluators are placed, and every active child gets exactly its share.\<close>

lemma place_evaluators_shares:
  fixes des :: placements
  assumes evs: "distinct (map fst evs)" "\<forall>(n, t) \<in> set evs. target_role t = Evaluator"
    and act: "distinct act" "act \<noteq> []"
  defines "P \<equiv> place_evaluators act evs des"
  shows "\<forall>(n, t) \<in> set evs. \<exists>t'. P n = Some t' \<and> target_role t' = Evaluator \<and> target_run t' \<in> set act"
    and "\<forall>c \<in> set act. length (filter (\<lambda>(n, t). target_run (the (P n)) = c) evs) =
           the (shares (length evs) act c)"
proof -
  let ?sh = "shares (length evs) act"
  obtain need' rest des' where k: "keep_evaluators evs ?sh des = (need', rest, des')"
    by (metis prod_cases3)
  note N = keep_evaluators_names [OF k evs(1)]
  let ?m = "\<lambda>c. the (need' c)"
  let ?cs = "concat (map (\<lambda>c. replicate (?m c) c) act)"
  have P: "P = place_all Evaluator (zip ?cs rest) des'"
    using act(2) by (simp add: P_def place_evaluators_def k)
  have dr: "distinct rest" by (subst N(1)) (simp add: evs(1) distinct_map_filter)
  have stay: "P n = Some t \<and> target_run t \<in> set act" if "(n, t) \<in> set evs" "n \<notin> set rest" for n t
  proof -
    have "n \<notin> snd ` set (zip ?cs rest)" using that(2) by (auto dest: set_zip_rightD)
    then show ?thesis using N(3) that dom_shares [of "length evs" act] by (auto simp: P plan_simps)
  qed
  have cnt: "?m c + length (filter (\<lambda>x. fst x \<notin> set rest \<and> target_run (snd x) = c) evs) = the (?sh c)"
    if c: "c \<in> set act" for c
  proof -
    obtain s where "?sh c = Some s" using c dom_shares [of "length evs" act] by blast
    from keep_evaluators_counts [OF k evs(1) this] this show ?thesis by (auto simp: split_def)
  qed
  have "(\<Sum>c \<in> set act. ?m c) +
      (\<Sum>c \<in> set act. length (filter (\<lambda>x. fst x \<notin> set rest \<and> target_run (snd x) = c) evs)) = length evs"
    using cnt sum_the_shares [OF act, of "length evs"] by (simp flip: sum.distrib)
  moreover have "(\<Sum>c \<in> set act. length (filter (\<lambda>x. fst x \<notin> set rest \<and> target_run (snd x) = c) evs)) =
      length (filter (\<lambda>x. fst x \<notin> set rest) evs)"
    using stay by (intro sum_filter_classes) auto
  moreover have lr: "length rest = length (filter (\<lambda>x. fst x \<in> set rest) evs)"
    by (subst N(1)) (simp add: split_def)
  ultimately have len: "length ?cs = length rest"
    using sum_length_filter_compl [of "\<lambda>x. fst x \<in> set rest" evs]
    by (simp add: length_repeats sum.distinct_set_conv_list act(1))
  show "\<forall>(n, t) \<in> set evs. \<exists>t'. P n = Some t' \<and> target_role t' = Evaluator \<and> target_run t' \<in> set act"
  proof (clarify)
    fix n t assume nt: "(n, t) \<in> set evs"
    show "\<exists>t'. P n = Some t' \<and> target_role t' = Evaluator \<and> target_run t' \<in> set act"
    proof (cases "n \<in> set rest")
      case True
      then show ?thesis using place_zip(2) [OF dr len True, of Evaluator des'] by (auto simp: P)
    next
      case False
      then show ?thesis using stay nt evs(2) by fastforce
    qed
  qed
  show "\<forall>c \<in> set act. length (filter (\<lambda>(n, t). target_run (the (P n)) = c) evs) = the (?sh c)"
  proof
    fix c assume c: "c \<in> set act"
    let ?Q = "\<lambda>n. target_run (the (P n)) = c"
    have "length (filter (\<lambda>(n, t). ?Q n) evs) =
        length (filter (\<lambda>x. fst x \<in> set rest) (filter (\<lambda>(n, t). ?Q n) evs)) +
        length (filter (\<lambda>x. fst x \<notin> set rest) (filter (\<lambda>(n, t). ?Q n) evs))"
      by (rule sum_length_filter_compl [symmetric])
    also have "filter (\<lambda>x. fst x \<notin> set rest) (filter (\<lambda>(n, t). ?Q n) evs) =
        filter (\<lambda>x. fst x \<notin> set rest \<and> target_run (snd x) = c) evs"
      using stay by (auto intro!: filter_cong)
    also have "length (filter (\<lambda>x. fst x \<in> set rest) (filter (\<lambda>(n, t). ?Q n) evs)) =
        length (filter ?Q (map fst (filter (\<lambda>(n, t). n \<in> set rest) evs)))"
      by (simp add: filter_map comp_def case_prod_beta conj_commute)
    also have "map fst (filter (\<lambda>(n, t). n \<in> set rest) evs) = rest" by (rule N(1) [symmetric])
    also have "length (filter ?Q rest) = length (filter (\<lambda>x. x = c) (map (\<lambda>n. target_run (the (P n))) rest))"
      by (simp add: filter_map comp_def)
    also have "map (\<lambda>n. target_run (the (P n))) rest = ?cs"
      unfolding P by (rule place_zip(1) [OF dr len])
    also have "length (filter (\<lambda>x. x = c) ?cs) = ?m c" using c by (simp add: count_repeats act(1))
    finally show "length (filter (\<lambda>(n, t). ?Q n) evs) = the (?sh c)" using cnt [OF c] by simp
  qed
qed



subsection \<open>The settled pool\<close>

text \<open>
  The specification: a child that is not a controller has at most one sampler; a sampler
  idles only when every selected child has one and none of them is a controller; the
  evaluators are shared out over the children with a sampler, or idle when there is none.
\<close>

definition sampled_children :: "i32 list \<Rightarrow> (string \<times> assignment_target) list \<Rightarrow> i32 set" where
  "sampled_children sel pool =
     {target_run t | n t. (n, t) \<in> set pool \<and> target_role t = SamplerAggregator \<and> target_run t \<in> set sel}"

definition settled :: "controller_plan \<Rightarrow> i32 list \<Rightarrow> (string \<times> assignment_target) list \<Rightarrow> bool" where
  "settled p sel pool \<longleftrightarrow>
     (let act = sampled_children sel pool; evs = role_entries Evaluator pool in
      (\<forall>(n, t) \<in> set pool. \<forall>(n', t') \<in> set pool.
         target_role t = SamplerAggregator \<longrightarrow> target_role t' = SamplerAggregator \<longrightarrow>
         target_run t \<in> set sel - plan_controllers p \<longrightarrow> target_run t = target_run t' \<longrightarrow> n = n') \<and>
      (\<forall>(n, t) \<in> set pool. target_role t = SamplerAggregator \<longrightarrow> target_run t \<notin> set sel \<longrightarrow>
         target_run t = parent_run_id p \<and> set sel \<subseteq> act \<and> set sel \<inter> plan_controllers p = {}) \<and>
      (\<forall>(n, t) \<in> set evs. if act = {} then target_run t = parent_run_id p else target_run t \<in> act) \<and>
      (\<forall>c \<in> act. length (filter (\<lambda>(n, t). target_run t = c) evs) =
         the (shares (length evs) (sorted_list_of_set act) c)))"

lemma sampled_children_finite [simp]: "finite (sampled_children sel pool)"
  by (rule finite_subset [of _ "set sel"]) (auto simp: sampled_children_def)

lemma sampled_children_kept:
  "sampled_children sel pool = (target_run \<circ> snd) ` set (kept ctl sel {} pool)"
  using kept_covers [of "{}" ctl sel pool] by (simp add: sampled_children_def)

lemma settledI:
  assumes "\<And>n t n' t'. (n, t) \<in> set pool \<Longrightarrow> (n', t') \<in> set pool \<Longrightarrow> target_role t = SamplerAggregator \<Longrightarrow>
      target_role t' = SamplerAggregator \<Longrightarrow> target_run t \<in> set sel \<Longrightarrow> target_run t \<notin> plan_controllers p \<Longrightarrow>
      target_run t = target_run t' \<Longrightarrow> n = n'"
    and "\<And>n t. (n, t) \<in> set pool \<Longrightarrow> target_role t = SamplerAggregator \<Longrightarrow> target_run t \<notin> set sel \<Longrightarrow>
      target_run t = parent_run_id p \<and> set sel \<subseteq> sampled_children sel pool \<and>
      set sel \<inter> plan_controllers p = {}"
    and "\<And>n t. (n, t) \<in> set (role_entries Evaluator pool) \<Longrightarrow>
      if sampled_children sel pool = {} then target_run t = parent_run_id p
      else target_run t \<in> sampled_children sel pool"
    and "\<And>c. c \<in> sampled_children sel pool \<Longrightarrow>
      length (filter (\<lambda>(n, t). target_run t = c) (role_entries Evaluator pool)) =
        the (shares (length (role_entries Evaluator pool)) (sorted_list_of_set (sampled_children sel pool)) c)"
  shows "settled p sel pool"
  unfolding settled_def Let_def using assms by (intro conjI) fast+


text \<open>Where the samplers of a pool go: they stay, fill a child, are spread, or are left over.\<close>

definition free_samplers :: "controller_plan \<Rightarrow> i32 list \<Rightarrow> (string \<times> assignment_target) list \<Rightarrow> string list" where
  "free_samplers p sel pool =
     map fst (filter (\<lambda>(n, t). n \<notin> fst ` set (kept (plan_controllers p) sel {} pool))
       (role_entries SamplerAggregator pool))"

definition fill_pairs :: "controller_plan \<Rightarrow> i32 list \<Rightarrow> (string \<times> assignment_target) list \<Rightarrow> (i32 \<times> string) list" where
  "fill_pairs p sel pool =
     zip (filter (\<lambda>i. i \<notin> sampled_children sel pool) sel) (free_samplers p sel pool)"

definition spread_pairs :: "controller_plan \<Rightarrow> i32 list \<Rightarrow> (string \<times> assignment_target) list \<Rightarrow> (i32 \<times> string) list" where
  "spread_pairs p sel pool =
     (let nested = filter (\<lambda>i. i \<in> plan_controllers p) sel;
          rest = drop (length (filter (\<lambda>i. i \<notin> sampled_children sel pool) sel)) (free_samplers p sel pool)
      in if nested = [] then []
         else map (\<lambda>(k, n). (nested ! (k mod length nested), n)) (zip [0..<length rest] rest))"

lemma place_samplers_eq:
  assumes "distinct (map fst pool)" "\<forall>n \<in> fst ` set pool. des n = None"
  shows "place_samplers p sel pool des =
    (sampled_children sel pool \<union> fst ` set (fill_pairs p sel pool) \<union> fst ` set (spread_pairs p sel pool),
     place_all SamplerAggregator (spread_pairs p sel pool)
       (place_all SamplerAggregator (fill_pairs p sel pool)
         (des ++ map_of (kept (plan_controllers p) sel {} pool))))"
proof -
  let ?K = "kept (plan_controllers p) sel {} pool"
  have k: "keep_samplers (plan_controllers p) sel pool ({}, des) = (sampled_children sel pool, des ++ map_of ?K)"
    by (simp add: keep_samplers_kept assms(1) sampled_children_kept [of sel pool "plan_controllers p"])
  have "((des ++ map_of ?K) (fst x) = None) = (fst x \<notin> fst ` set ?K)"
    if "x \<in> set (role_entries SamplerAggregator pool)" for x
  proof -
    have "fst x \<in> fst ` set pool" using that by (auto simp: role_entries_def intro: rev_image_eqI)
    then have "des (fst x) = None" using assms(2) by blast
    then show ?thesis by (simp add: map_add_None map_of_eq_None_iff)
  qed
  then have "map fst (filter (\<lambda>(n, t). (des ++ map_of ?K) n = None) (role_entries SamplerAggregator pool)) =
      free_samplers p sel pool"
    unfolding free_samplers_def split_def by (intro arg_cong [of _ _ "map fst"] filter_cong refl)
  then show ?thesis
    by (simp add: place_samplers_def k Let_def fill_children_def spread_surplus_def fill_pairs_def
        spread_pairs_def)
qed

lemma free_samplers_distinct: "distinct (map fst pool) \<Longrightarrow> distinct (free_samplers p sel pool)"
  unfolding free_samplers_def role_entries_def by (intro distinct_map_filter)

lemma pair_names:
  "map snd (fill_pairs p sel pool) =
     take (length (filter (\<lambda>i. i \<notin> sampled_children sel pool) sel)) (free_samplers p sel pool)"
  by (simp add: fill_pairs_def map_snd_zip_take min_def)

lemma spread_pair_names:
  "map snd (spread_pairs p sel pool) =
     (if filter (\<lambda>i. i \<in> plan_controllers p) sel = [] then []
      else drop (length (filter (\<lambda>i. i \<notin> sampled_children sel pool) sel)) (free_samplers p sel pool))"
proof -
  have "map (snd \<circ> (\<lambda>(k, n). (f k, n))) (zip [0..<length xs] xs) = xs" for f :: "nat \<Rightarrow> i32" and xs :: "string list"
    by (rule nth_equalityI) simp_all
  from this [of "\<lambda>k. filter (\<lambda>i. i \<in> plan_controllers p) sel ! (k mod length (filter (\<lambda>i. i \<in> plan_controllers p) sel))"]
  show ?thesis by (simp only: spread_pairs_def Let_def map_map list.map if_distrib [of "map snd"] split: if_split)
qed


lemma schedule_pool_eq:
  assumes "distinct (map fst pool)" "\<forall>n \<in> fst ` set pool. des n = None"
  shows "schedule_pool p sel pool des = (case place_samplers p sel pool des of (act, des') \<Rightarrow>
     retain_pool (parent_run_id p) pool
       (place_evaluators (sorted_list_of_set act) (role_entries Evaluator pool) des'))"
proof (cases "sel = []")
  case True
  have "kept (plan_controllers p) [] {} pool = []"
    by (metis kept_subset empty_iff empty_set list.set_intros(1) neq_Nil_conv surj_pair)
  then show ?thesis
    using True by (simp add: schedule_pool_def place_samplers_eq assms fill_pairs_def spread_pairs_def
        sampled_children_def place_evaluators_def)
qed (simp add: schedule_pool_def case_prod_beta)

definition sampler_placements :: "controller_plan \<Rightarrow> i32 list \<Rightarrow> (string \<times> assignment_target) list \<Rightarrow> placements \<Rightarrow> placements" where
  "sampler_placements p sel pool des = snd (place_samplers p sel pool des)"

definition active_children :: "controller_plan \<Rightarrow> i32 list \<Rightarrow> (string \<times> assignment_target) list \<Rightarrow> i32 set" where
  "active_children p sel pool =
     sampled_children sel pool \<union> fst ` set (fill_pairs p sel pool) \<union> fst ` set (spread_pairs p sel pool)"

lemma active_children_finite [simp]: "finite (active_children p sel pool)"
  by (simp add: active_children_def)

lemma role_entries_names: "fst ` set (role_entries r pool) \<subseteq> fst ` set pool"
  by (auto simp: role_entries_def)

lemma sampler_outcome:
  fixes des :: placements and p :: controller_plan and sel :: "i32 list"
  assumes d: "distinct (map fst pool)" "\<forall>n \<in> fst ` set pool. des n = None"
    and nt: "(n, t) \<in> set pool" "target_role t = SamplerAggregator"
  defines "P \<equiv> sampler_placements p sel pool des"
  shows "(n, t) \<in> set (kept (plan_controllers p) sel {} pool) \<and> P n = Some t \<or>
    (\<exists>c. ((c, n) \<in> set (fill_pairs p sel pool) \<or> (c, n) \<in> set (spread_pairs p sel pool)) \<and>
         P n = Some \<lparr>target_role = SamplerAggregator, target_run = c\<rparr>) \<or>
    P n = None \<and> n \<in> set (free_samplers p sel pool) \<and> n \<notin> snd ` set (fill_pairs p sel pool) \<and>
      filter (\<lambda>i. i \<in> plan_controllers p) sel = []"
proof -
  let ?K = "kept (plan_controllers p) sel {} pool" and ?F = "fill_pairs p sel pool"
  let ?S = "spread_pairs p sel pool" and ?free = "free_samplers p sel pool"
  let ?k = "length (filter (\<lambda>i. i \<notin> sampled_children sel pool) sel)"
  have P: "P = place_all SamplerAggregator ?S (place_all SamplerAggregator ?F (des ++ map_of ?K))"
    by (simp add: P_def sampler_placements_def place_samplers_eq d)
  have df: "distinct ?free" by (rule free_samplers_distinct [OF d(1)])
  have F: "snd ` set ?F = set (take ?k ?free)" and S: "snd ` set ?S \<subseteq> set (drop ?k ?free)"
    using arg_cong [OF pair_names, of set p sel pool] arg_cong [OF spread_pair_names, of set p sel pool]
    by (auto split: if_splits)
  have dF: "distinct (map snd ?F)" and dS: "distinct (map snd ?S)"
    using df by (simp_all add: pair_names spread_pair_names)
  have disj: "set (take ?k ?free) \<inter> set (drop ?k ?free) = {}"
    by (rule set_take_disj_set_drop_if_distinct [OF df]) simp
  have free: "n \<in> set ?free \<longleftrightarrow> n \<notin> fst ` set ?K"
    using nt by (force simp: free_samplers_def role_entries_def)
  consider "n \<in> fst ` set ?K" | c where "(c, n) \<in> set ?F" | c where "(c, n) \<in> set ?S"
    | "n \<in> set ?free" "n \<notin> snd ` set ?F" "n \<notin> snd ` set ?S"
    using free by force
  then show ?thesis
  proof cases
    case 1
    then obtain t' where t': "(n, t') \<in> set ?K" by auto
    then have "t' = t" using nt(1) d(1) kept_subset by (metis eq_key_imp_eq_value)
    moreover have "n \<notin> snd ` set ?F" "n \<notin> snd ` set ?S"
      using 1 free F S set_take_subset [of ?k ?free] set_drop_subset [of ?k ?free] by blast+
    ultimately show ?thesis
      using t' kept_distinct [OF d(1)] by (simp add: P plan_simps map_of_is_SomeI)
  next
    case 2
    then have "n \<in> snd ` set ?F" by (auto intro: rev_image_eqI)
    then have "n \<notin> snd ` set ?S" using F S disj by blast
    then show ?thesis using place_all_at [OF 2 dF] 2 by (auto simp: P plan_simps)
  next
    case 3
    then show ?thesis using place_all_at [OF 3 dS] by (auto simp: P)
  next
    case 4
    then have "P n = None" using free nt(1) d(2) by (auto simp: P plan_simps map_add_None map_of_eq_None_iff)
    moreover have "n \<in> set (drop ?k ?free)"
      using 4(1,2) F by (metis Un_iff append_take_drop_id set_append)
    then have "filter (\<lambda>i. i \<in> plan_controllers p) sel = []"
      using 4(3) arg_cong [OF spread_pair_names, of set p sel pool] by (auto split: if_splits)
    ultimately show ?thesis using 4 by blast
  qed
qed


lemma schedule_pool_placed:
  assumes d: "distinct (map fst pool)" "\<forall>n \<in> fst ` set pool. des n = None" and nt: "(n, t) \<in> set pool"
  shows "schedule_pool p sel pool des n =
    (case place_evaluators (sorted_list_of_set (active_children p sel pool)) (role_entries Evaluator pool)
            (sampler_placements p sel pool des) n of
       None \<Rightarrow> Some (t\<lparr>target_run := parent_run_id p\<rparr>) | Some t' \<Rightarrow> Some t')"
  using retain_pool_at [OF d(1) nt]
  by (auto simp: schedule_pool_eq d place_samplers_eq sampler_placements_def active_children_def
      split: option.splits)

lemma pair_names_free:
  "snd ` set (fill_pairs p sel pool) \<subseteq> set (free_samplers p sel pool)"
  "snd ` set (spread_pairs p sel pool) \<subseteq> set (free_samplers p sel pool)"
  using arg_cong [OF pair_names, of set p sel pool] arg_cong [OF spread_pair_names, of set p sel pool]
  by (auto dest: in_set_takeD in_set_dropD split: if_splits)

lemma not_both_roles:
  assumes "distinct (map fst pool)" "(n, t) \<in> set pool" "target_role t = SamplerAggregator"
  shows "n \<notin> fst ` set (role_entries Evaluator pool)"
  using assms by (auto simp: role_entries_def dest: eq_key_imp_eq_value)

text \<open>The final placement of a sampler.\<close>

lemma schedule_sampler:
  fixes p :: controller_plan and sel :: "i32 list" and des :: placements
  assumes d: "distinct (map fst pool)" "\<forall>n \<in> fst ` set pool. des n = None"
    and nt: "(n, t) \<in> set pool" "target_role t = SamplerAggregator"
  defines "G \<equiv> schedule_pool p sel pool des"
  shows "(n, t) \<in> set (kept (plan_controllers p) sel {} pool) \<and> G n = Some t \<or>
    (\<exists>c. ((c, n) \<in> set (fill_pairs p sel pool) \<or> (c, n) \<in> set (spread_pairs p sel pool)) \<and>
         G n = Some \<lparr>target_role = SamplerAggregator, target_run = c\<rparr>) \<or>
    G n = Some (t\<lparr>target_run := parent_run_id p\<rparr>) \<and> n \<in> set (free_samplers p sel pool) \<and>
      n \<notin> snd ` set (fill_pairs p sel pool) \<and> filter (\<lambda>i. i \<in> plan_controllers p) sel = []"
proof -
  have de: "distinct (map fst (role_entries Evaluator pool))"
    unfolding role_entries_def by (intro distinct_map_filter d)
  have "G n = (case sampler_placements p sel pool des n of
      None \<Rightarrow> Some (t\<lparr>target_run := parent_run_id p\<rparr>) | Some t' \<Rightarrow> Some t')"
    unfolding G_def schedule_pool_placed [OF d nt(1)]
      place_evaluators_other [OF de not_both_roles [OF d(1) nt]] ..
  then show ?thesis using sampler_outcome [OF d nt, of p sel] by (auto split: option.splits)
qed

lemma sampler_placements_evaluator:
  assumes d: "distinct (map fst pool)" "\<forall>n \<in> fst ` set pool. des n = None"
    and n: "n \<notin> fst ` set (role_entries SamplerAggregator pool)"
  shows "sampler_placements p sel pool des n = des n"
proof -
  have K: "n \<notin> fst ` set (kept (plan_controllers p) sel {} pool)"
    using n by (force simp: role_entries_def dest: kept_subset)
  have "n \<notin> set (free_samplers p sel pool)"
    using n by (auto simp: free_samplers_def)
  then have "n \<notin> snd ` set (fill_pairs p sel pool)" "n \<notin> snd ` set (spread_pairs p sel pool)"
    using pair_names_free [of p sel pool] by blast+
  then show ?thesis
    using K by (simp add: sampler_placements_def place_samplers_eq d plan_simps map_add_def
        map_of_eq_None_iff [THEN iffD2])
qed

text \<open>The final placement of an evaluator, and the shares.\<close>

lemma schedule_evaluators:
  fixes p :: controller_plan and sel :: "i32 list" and des :: placements
  assumes d: "distinct (map fst pool)" "\<forall>n \<in> fst ` set pool. des n = None"
  defines "G \<equiv> schedule_pool p sel pool des" and "act \<equiv> active_children p sel pool"
    and "evs \<equiv> role_entries Evaluator pool"
  shows "\<forall>(n, t) \<in> set evs. \<exists>t'. G n = Some t' \<and> target_role t' = Evaluator \<and>
      (if act = {} then target_run t' = parent_run_id p else target_run t' \<in> act)"
    and "\<forall>c \<in> act. length (filter (\<lambda>(n, t). target_run (the (G n)) = c) evs) =
      the (shares (length evs) (sorted_list_of_set act) c)"
proof -
  have de: "distinct (map fst evs)"
    unfolding evs_def role_entries_def by (intro distinct_map_filter d)
  have ev: "\<forall>(n, t) \<in> set evs. target_role t = Evaluator" by (auto simp: evs_def role_entries_def)
  let ?P = "place_evaluators (sorted_list_of_set act) evs (sampler_placements p sel pool des)"
  have G: "G n = (case ?P n of None \<Rightarrow> Some (t\<lparr>target_run := parent_run_id p\<rparr>) | Some t' \<Rightarrow> Some t')"
    if "(n, t) \<in> set evs" for n t
    unfolding G_def act_def evs_def
    by (rule schedule_pool_placed [OF d]) (use that in \<open>simp add: evs_def role_entries_def\<close>)
  have "\<exists>t'. G n = Some t' \<and> target_role t' = Evaluator \<and>
      (if act = {} then target_run t' = parent_run_id p else target_run t' \<in> act)"
    if nt: "(n, t) \<in> set evs" for n t
  proof (cases "act = {}")
    case True
    have "n \<notin> fst ` set (role_entries SamplerAggregator pool)"
      using nt d(1) by (auto simp: evs_def role_entries_def dest: eq_key_imp_eq_value)
    moreover have "n \<in> fst ` set pool" using nt
      by (auto simp: evs_def role_entries_def intro: rev_image_eqI)
    ultimately have "sampler_placements p sel pool des n = None"
      using sampler_placements_evaluator [OF d] d(2) by metis
    then have "?P n = None" using True by (simp add: place_evaluators_def)
    then show ?thesis using True G [OF nt] nt ev by auto
  next
    case False
    then show ?thesis
      using place_evaluators_shares(1) [OF de ev, of "sorted_list_of_set act" "sampler_placements p sel pool des"]
        G [OF nt] nt by (fastforce simp: act_def)
  qed
  then show "\<forall>(n, t) \<in> set evs. \<exists>t'. G n = Some t' \<and> target_role t' = Evaluator \<and>
      (if act = {} then target_run t' = parent_run_id p else target_run t' \<in> act)" by blast
  show "\<forall>c \<in> act. length (filter (\<lambda>(n, t). target_run (the (G n)) = c) evs) =
      the (shares (length evs) (sorted_list_of_set act) c)"
  proof
    fix c assume c: "c \<in> act"
    have ne: "sorted_list_of_set act \<noteq> []" "set (sorted_list_of_set act) = act"
      using c by (auto simp: act_def)
    note S = place_evaluators_shares [OF de ev distinct_sorted_list_of_set ne(1),
        of "sampler_placements p sel pool des"]
    have "filter (\<lambda>(n, t). target_run (the (G n)) = c) evs = filter (\<lambda>(n, t). target_run (the (?P n)) = c) evs"
      using S(1) G by (intro filter_cong) fastforce+
    then show "length (filter (\<lambda>(n, t). target_run (the (G n)) = c) evs) =
        the (shares (length evs) (sorted_list_of_set act) c)"
      using S(2) c ne(2) by simp
  qed
qed



subsection \<open>The plan settles the pool\<close>

definition scheduled :: "controller_plan \<Rightarrow> i32 list \<Rightarrow> (string \<times> assignment_target) list \<Rightarrow> placements
    \<Rightarrow> (string \<times> assignment_target) list" where
  "scheduled p sel pool des = map (\<lambda>(n, t). (n, the (schedule_pool p sel pool des n))) pool"

lemma pairs_distinct:
  assumes "distinct (map fst pool)"
  shows "distinct (map snd (fill_pairs p sel pool @ spread_pairs p sel pool))"
proof -
  note df = free_samplers_distinct [OF assms, of p sel]
  show ?thesis
    using df set_take_disj_set_drop_if_distinct [OF df order_refl]
    by (simp only: map_append pair_names spread_pair_names distinct_append) (auto split: if_splits)
qed

lemma fill_pairs_run: "(c, n) \<in> set (fill_pairs p sel pool) \<Longrightarrow> c \<in> set sel \<and> c \<notin> sampled_children sel pool"
  unfolding fill_pairs_def by (drule set_zip_leftD) simp

lemma spread_pairs_run: "(c, n) \<in> set (spread_pairs p sel pool) \<Longrightarrow> c \<in> set sel \<and> c \<in> plan_controllers p"
proof -
  assume "(c, n) \<in> set (spread_pairs p sel pool)"
  then obtain k where "filter (\<lambda>i. i \<in> plan_controllers p) sel \<noteq> []"
    "c = filter (\<lambda>i. i \<in> plan_controllers p) sel ! (k mod length (filter (\<lambda>i. i \<in> plan_controllers p) sel))"
    by (auto simp: spread_pairs_def Let_def split: if_splits)
  then have "c \<in> set (filter (\<lambda>i. i \<in> plan_controllers p) sel)"
    by (metis length_greater_0_conv mod_less_divisor nth_mem)
  then show ?thesis by simp
qed

lemma fill_pairs_inj:
  "distinct sel \<Longrightarrow> (c, n) \<in> set (fill_pairs p sel pool) \<Longrightarrow> (c, n') \<in> set (fill_pairs p sel pool) \<Longrightarrow> n = n'"
  by (rule eq_key_imp_eq_value) (simp_all add: fill_pairs_def map_fst_zip_take)

text \<open>A sampler left over means that every child was filled.\<close>

lemma left_over_fills:
  assumes "n \<in> set (free_samplers p sel pool)" "n \<notin> snd ` set (fill_pairs p sel pool)"
  shows "set sel \<subseteq> active_children p sel pool"
proof -
  let ?need = "filter (\<lambda>i. i \<notin> sampled_children sel pool) sel" and ?free = "free_samplers p sel pool"
  have "n \<notin> set (take (length ?need) ?free)"
    using assms(2) arg_cong [OF pair_names, of set p sel pool] by auto
  then have "length ?need \<le> length ?free"
    using assms(1) by (cases "length ?free \<le> length ?need") auto
  then have "map fst (fill_pairs p sel pool) = ?need" by (simp add: fill_pairs_def map_fst_zip_take)
  then have "fst ` set (fill_pairs p sel pool) = set ?need" by (metis set_map)
  then show ?thesis by (auto simp: active_children_def)
qed

lemma scheduled_sampler_cases:
  assumes d: "distinct (map fst pool)" "\<forall>n \<in> fst ` set pool. des n = None"
    and nu: "(n, u) \<in> set (scheduled p sel pool des)" "target_role u = SamplerAggregator"
  shows "(n, u) \<in> set (kept (plan_controllers p) sel {} pool) \<or>
    (target_run u, n) \<in> set (fill_pairs p sel pool) \<or> (target_run u, n) \<in> set (spread_pairs p sel pool) \<or>
    target_run u = parent_run_id p \<and> n \<in> set (free_samplers p sel pool) \<and>
      n \<notin> snd ` set (fill_pairs p sel pool) \<and> set sel \<inter> plan_controllers p = {}"
proof -
  obtain t where t: "(n, t) \<in> set pool" and u: "u = the (schedule_pool p sel pool des n)"
    using nu(1) by (auto simp: scheduled_def)
  have r: "target_role t = SamplerAggregator"
  proof (rule ccontr)
    assume "target_role t \<noteq> SamplerAggregator"
    then have "(n, t) \<in> set (role_entries Evaluator pool)"
      using t by (cases "target_role t") (auto simp: role_entries_def)
    then show False using schedule_evaluators(1) [OF d, of p sel] u nu(2) by fastforce
  qed
  have "filter (\<lambda>i. i \<in> plan_controllers p) sel = [] \<Longrightarrow> set sel \<inter> plan_controllers p = {}"
    by (auto simp: filter_empty_conv)
  then show ?thesis using schedule_sampler [OF d t r, of p sel] u by auto
qed

lemma scheduled_sampled:
  assumes "(n, t) \<in> set pool" "schedule_pool p sel pool des n = Some u"
    "target_role u = SamplerAggregator" "target_run u \<in> set sel"
  shows "target_run u \<in> sampled_children sel (scheduled p sel pool des)"
proof -
  have "(n, u) \<in> set (scheduled p sel pool des)"
    unfolding scheduled_def set_map by (rule image_eqI [OF _ assms(1)]) (simp add: assms(2))
  then show ?thesis using assms(3,4) by (auto simp: sampled_children_def)
qed

lemma scheduled_active:
  assumes d: "distinct (map fst pool)" "\<forall>n \<in> fst ` set pool. des n = None"
    and sel: "parent_run_id p \<notin> set sel"
  shows "sampled_children sel (scheduled p sel pool des) = active_children p sel pool"
proof
  let ?G = "schedule_pool p sel pool des" and ?K = "kept (plan_controllers p) sel {} pool"
  let ?FS = "fill_pairs p sel pool @ spread_pairs p sel pool"
  show "sampled_children sel (scheduled p sel pool des) \<subseteq> active_children p sel pool"
  proof
    fix c assume "c \<in> sampled_children sel (scheduled p sel pool des)"
    then obtain n u where nu: "(n, u) \<in> set (scheduled p sel pool des)"
      "target_role u = SamplerAggregator" "c = target_run u" "c \<in> set sel"
      by (auto simp: sampled_children_def)
    then show "c \<in> active_children p sel pool"
      using scheduled_sampler_cases [OF d nu(1,2)] sel
      by (force simp: active_children_def sampled_children_kept [of sel pool "plan_controllers p"])
  qed
  show "active_children p sel pool \<subseteq> sampled_children sel (scheduled p sel pool des)"
  proof
    fix c assume "c \<in> active_children p sel pool"
    then consider n t where "(n, t) \<in> set ?K" "c = target_run t" | n where "(c, n) \<in> set ?FS"
      by (force simp: active_children_def sampled_children_kept [of sel pool "plan_controllers p"])
    then show "c \<in> sampled_children sel (scheduled p sel pool des)"
    proof cases
      case 1
      have t: "(n, t) \<in> set pool" "target_role t = SamplerAggregator" "target_run t \<in> set sel"
        using kept_subset [OF 1(1)] by auto
      have "n \<notin> set (free_samplers p sel pool)" using 1(1) by (force simp: free_samplers_def)
      then have "?G n = Some t"
        using schedule_sampler [OF d t(1,2), of p sel] pair_names_free [of p sel pool] by force
      then show ?thesis using scheduled_sampled [OF t(1)] t 1(2) by blast
    next
      case 2
      then have nf: "n \<in> set (free_samplers p sel pool)" using pair_names_free [of p sel pool] by force
      then obtain t where t: "(n, t) \<in> set pool" "target_role t = SamplerAggregator"
        "n \<notin> fst ` set ?K"
        by (auto simp: free_samplers_def role_entries_def)
      have c: "c' = c" if "(c', n) \<in> set ?FS" for c'
        using pairs_distinct [OF d(1), of p sel] 2 that
        by (metis (no_types, lifting) distinct_map inj_on_def prod.inject snd_conv)
      have "n \<in> snd ` set (fill_pairs p sel pool) \<or> filter (\<lambda>i. i \<in> plan_controllers p) sel \<noteq> []"
        using 2 by (auto simp: spread_pairs_def intro: rev_image_eqI)
      moreover have "(n, t) \<notin> set ?K" using t(3) by (auto intro: rev_image_eqI)
      ultimately obtain c' where "(c', n) \<in> set ?FS"
        and "?G n = Some \<lparr>target_role = SamplerAggregator, target_run = c'\<rparr>"
        using schedule_sampler [OF d t(1,2), of p sel] by auto
      then have "?G n = Some \<lparr>target_role = SamplerAggregator, target_run = c\<rparr>" using c by blast
      moreover have "c \<in> set sel" using 2 fill_pairs_run spread_pairs_run by fastforce
      ultimately show ?thesis using scheduled_sampled [OF t(1)] by fastforce
    qed
  qed
qed


lemma target_eqI:
  "target_role (t :: assignment_target) = target_role u \<Longrightarrow> target_run t = target_run u \<Longrightarrow> t = u"
  by (rule assignment_target.equality) simp_all

lemma scheduled_role:
  assumes d: "distinct (map fst pool)" "\<forall>n \<in> fst ` set pool. des n = None" and nt: "(n, t) \<in> set pool"
  shows "\<exists>u. schedule_pool p sel pool des n = Some u \<and> target_role u = target_role t"
proof (cases "target_role t")
  case Evaluator
  then show ?thesis
    using schedule_evaluators(1) [OF d, of p sel] nt by (fastforce simp: role_entries_def)
next
  case SamplerAggregator
  then show ?thesis using schedule_sampler [OF d nt SamplerAggregator, of p sel] by auto
qed

lemma scheduled_evaluators:
  assumes d: "distinct (map fst pool)" "\<forall>n \<in> fst ` set pool. des n = None"
  shows "role_entries Evaluator (scheduled p sel pool des) =
    map (\<lambda>(n, t). (n, the (schedule_pool p sel pool des n))) (role_entries Evaluator pool)"
proof -
  have "filter (\<lambda>x. target_role (the (schedule_pool p sel pool des (fst x))) = Evaluator) pool =
      filter (\<lambda>x. target_role (snd x) = Evaluator) pool"
    using scheduled_role [OF d, of _ _ p sel] by (intro filter_cong) fastforce+
  then show ?thesis by (simp add: role_entries_def scheduled_def filter_map comp_def split_def)
qed

lemma scheduled_settled:
  assumes d: "distinct (map fst pool)" "\<forall>n \<in> fst ` set pool. des n = None"
    and sel: "parent_run_id p \<notin> set sel" "distinct sel"
  shows "settled p sel (scheduled p sel pool des)"
proof (rule settledI)
  let ?pool = "scheduled p sel pool des" and ?K = "kept (plan_controllers p) sel {} pool"
  let ?evs = "role_entries Evaluator pool"
  note act = scheduled_active [OF d sel(1)]
  have KS: "target_run u \<in> sampled_children sel pool" if "(n, u) \<in> set ?K" for n u
    using that by (force simp: sampled_children_kept [of sel pool "plan_controllers p"])
  fix n u n' u'
  assume "(n, u) \<in> set ?pool" "(n', u') \<in> set ?pool" "target_role u = SamplerAggregator"
    "target_role u' = SamplerAggregator" "target_run u \<in> set sel" "target_run u \<notin> plan_controllers p"
    "target_run u = target_run u'"
  then consider "(n, u) \<in> set ?K" "(n', u') \<in> set ?K"
    | "(target_run u, n) \<in> set (fill_pairs p sel pool)" "(target_run u, n') \<in> set (fill_pairs p sel pool)"
    using scheduled_sampler_cases [OF d, of n u p sel] scheduled_sampler_cases [OF d, of n' u' p sel]
      fill_pairs_run spread_pairs_run sel(1) KS by metis
  then show "n = n'"
    using \<open>target_run u = target_run u'\<close> \<open>target_run u \<notin> plan_controllers p\<close>
    by cases (auto intro: kept_inj fill_pairs_inj [OF sel(2)])
next
  let ?pool = "scheduled p sel pool des"
  note act = scheduled_active [OF d sel(1)]
  fix n u assume nu: "(n, u) \<in> set ?pool" "target_role u = SamplerAggregator" "target_run u \<notin> set sel"
  show "target_run u = parent_run_id p \<and> set sel \<subseteq> sampled_children sel ?pool \<and>
      set sel \<inter> plan_controllers p = {}"
    using scheduled_sampler_cases [OF d nu(1,2)] nu(3) kept_subset fill_pairs_run spread_pairs_run
      left_over_fills unfolding act by metis
next
  fix n u assume "(n, u) \<in> set (role_entries Evaluator (scheduled p sel pool des))"
  then obtain t where t: "(n, t) \<in> set (role_entries Evaluator pool)"
    and u: "u = the (schedule_pool p sel pool des n)"
    by (auto simp: scheduled_evaluators d)
  from bspec [OF schedule_evaluators(1) [OF d, of p sel] t] u
  show "if sampled_children sel (scheduled p sel pool des) = {} then target_run u = parent_run_id p
      else target_run u \<in> sampled_children sel (scheduled p sel pool des)"
    unfolding scheduled_active [OF d sel(1)] by (cases "active_children p sel pool = {}") auto
next
  fix c assume "c \<in> sampled_children sel (scheduled p sel pool des)"
  then show "length (filter (\<lambda>(n, t). target_run t = c) (role_entries Evaluator (scheduled p sel pool des))) =
      the (shares (length (role_entries Evaluator (scheduled p sel pool des)))
        (sorted_list_of_set (sampled_children sel (scheduled p sel pool des))) c)"
    unfolding scheduled_evaluators [OF d] scheduled_active [OF d sel(1)]
    using schedule_evaluators(2) [OF d, of p sel] by (simp add: filter_map comp_def split_def)
qed

text \<open>A settled pool is a fixed point.\<close>

lemma settled_no_pairs:
  assumes d: "distinct (map fst pool)" and s: "settled p sel pool"
  shows "fill_pairs p sel pool = []" "spread_pairs p sel pool = []"
    and "kept (plan_controllers p) sel {} pool =
      filter (\<lambda>(n, t). target_role t = SamplerAggregator \<and> target_run t \<in> set sel) pool"
proof -
  show K: "kept (plan_controllers p) sel {} pool =
      filter (\<lambda>(n, t). target_role t = SamplerAggregator \<and> target_run t \<in> set sel) pool"
    by (rule kept_all [OF d]) (use s in \<open>auto simp: settled_def Let_def\<close>)
  have "fill_pairs p sel pool = [] \<and> spread_pairs p sel pool = []"
  proof (cases "free_samplers p sel pool")
    case Nil
    then show ?thesis by (simp add: fill_pairs_def spread_pairs_def Let_def)
  next
    case (Cons n ns)
    then have "n \<in> set (free_samplers p sel pool)" by simp
    then obtain t where "(n, t) \<in> set pool" "target_role t = SamplerAggregator"
      "n \<notin> fst ` set (kept (plan_controllers p) sel {} pool)"
      by (auto simp: free_samplers_def role_entries_def)
    moreover from this have "target_run t \<notin> set sel" by (force simp: K)
    ultimately have "set sel \<subseteq> sampled_children sel pool" "set sel \<inter> plan_controllers p = {}"
      using s unfolding settled_def Let_def by fast+
    then have "filter (\<lambda>i. i \<notin> sampled_children sel pool) sel = []"
      "filter (\<lambda>i. i \<in> plan_controllers p) sel = []"
      by (auto simp: filter_empty_conv)
    then show ?thesis by (simp add: fill_pairs_def spread_pairs_def)
  qed
  then show "fill_pairs p sel pool = []" "spread_pairs p sel pool = []" by auto
qed

lemma settled_fixed:
  assumes d: "distinct (map fst pool)" "\<forall>n \<in> fst ` set pool. des n = None"
    and s: "settled p sel pool" and nt: "(n, t) \<in> set pool"
  shows "schedule_pool p sel pool des n = Some t"
proof (cases "target_role t")
  case SamplerAggregator
  note N = settled_no_pairs [OF d(1) s]
  have "target_run t \<notin> set sel \<Longrightarrow> target_run t = parent_run_id p"
    using s nt SamplerAggregator unfolding settled_def Let_def by fast
  moreover have "n \<in> set (free_samplers p sel pool) \<Longrightarrow> target_run t \<notin> set sel"
    using nt SamplerAggregator by (force simp: free_samplers_def N(3))
  ultimately show ?thesis
    using schedule_sampler [OF d nt SamplerAggregator, of p sel] by (auto simp: N(1,2) intro: target_eqI)
next
  case Evaluator
  let ?evs = "role_entries Evaluator pool" and ?act = "sampled_children sel pool"
  have act: "active_children p sel pool = ?act"
    by (simp add: active_children_def settled_no_pairs [OF d(1) s])
  have e: "(n, t) \<in> set ?evs" using nt Evaluator by (simp add: role_entries_def)
  have de: "distinct (map fst ?evs)" unfolding role_entries_def by (intro distinct_map_filter d)
  have run: "\<forall>(n, t) \<in> set ?evs. if ?act = {} then target_run t = parent_run_id p else target_run t \<in> ?act"
    and cnt: "\<forall>c \<in> ?act. length (filter (\<lambda>(n, t). target_run t = c) ?evs) =
         the (shares (length ?evs) (sorted_list_of_set ?act) c)"
    using s by (simp_all add: settled_def Let_def)
  show ?thesis
  proof (cases "?act = {}")
    case True
    then obtain t' where "schedule_pool p sel pool des n = Some t'" "target_role t' = Evaluator"
      "target_run t' = parent_run_id p"
      using schedule_evaluators(1) [OF d, of p sel] e by (fastforce simp: act)
    then show ?thesis using run e Evaluator True by (auto intro: target_eqI)
  next
    case False
    let ?sh = "shares (length ?evs) (sorted_list_of_set ?act)"
    let ?des = "sampler_placements p sel pool des"
    have "length (filter (\<lambda>(n, t). target_run t = c) ?evs) \<le> (case ?sh c of None \<Rightarrow> 0 | Some k \<Rightarrow> k)" for c
    proof (cases "c \<in> ?act")
      case True
      then show ?thesis using cnt dom_shares [of "length ?evs" "sorted_list_of_set ?act"]
        by (auto split: option.splits)
    next
      case c: False
      then have "filter (\<lambda>(n, t). target_run t = c) ?evs = []"
        using run False by (auto simp: filter_empty_conv)
      then show ?thesis by simp
    qed
    then have "fst (snd (keep_evaluators ?evs ?sh ?des)) = []" by (intro keep_evaluators_all) blast
    then obtain need' des' where k: "keep_evaluators ?evs ?sh ?des = (need', [], des')"
      by (metis fst_conv prod_cases3 snd_conv)
    have "place_evaluators (sorted_list_of_set ?act) ?evs ?des n = Some t"
      using keep_evaluators_names(3) [OF k de] e False by (auto simp: place_evaluators_def k)
    then show ?thesis using schedule_pool_placed [OF d nt, of p sel] by (simp add: act)
  qed
qed

end
