(* ===== verification/Node_Store.thy ===== *)
theory Node_Store
  imports Models "HOL-Library.List_Lexorder" "HOL-Library.Char_ord"
begin

section \<open>The control-plane store\<close>

text \<open>
  The table of worker nodes with the operations of
  \<open>src/stores/queries/control_plane.rs\<close> and of the control-plane trait of
  \<open>src/stores/pg_store.rs\<close> on it: registration under a lease, pool membership,
  desired and current assignments, shutdown and the connection budget. One operation
  is one transaction at a time \<open>now\<close> (in seconds), on a store that is threaded
  through; a transaction that fails leaves the store as it was. A pair of nullable
  columns with a pair check is one option. Capabilities, activity and the JSON
  arguments of launch requests are stored and never read here, so they are left out.
\<close>

record node_row =
  node_name :: string
  node_uuid :: string
  lease_expires_at :: int
  last_seen :: "int option"
  pool_target :: "assignment_target option"
  desired_target :: "assignment_target option"
  active_target :: "assignment_target option"
  shutdown_requested :: bool
  resume_requested :: bool
  launch_request :: "i64 option"

text \<open>Of a run: its parent, the task that spawned it, and the kind in its parameters.\<close>

record run_row =
  run_id :: i32
  parent_run :: "i32 option"
  parent_task :: "i64 option"
  run_kind :: "string option"

datatype launch_state = LaunchPending | LaunchStarting | Fulfilled | LaunchFailed | Canceled

record launch_row =
  launch_id :: i64
  launch_created_at :: int
  launch_state :: launch_state
  launch_backend :: string
  requested_count :: i32
  started_count :: i32

datatype external_state = ExtPending | Submitting | Submitted | Connected | ExtFailed | ExtCanceled

record external_row =
  ext_request :: i64
  ext_node :: string
  ext_state :: external_state
  ext_has_job :: bool

record node_store =
  nodes :: "node_row list"
  runs :: "run_row list"
  launches :: "launch_row list"
  externals :: "external_row list"
  max_connections :: i64
  reserved_connections :: i64

definition live :: "int \<Rightarrow> node_row \<Rightarrow> bool" where
  "live now r \<longleftrightarrow> lease_expires_at r > now"

definition update_where :: "(node_row \<Rightarrow> bool) \<Rightarrow> (node_row \<Rightarrow> node_row) \<Rightarrow> node_store \<Rightarrow> node_store" where
  "update_where q f s = s\<lparr>nodes := map (\<lambda>r. if q r then f r else r) (nodes s)\<rparr>"

definition rows_affected :: "(node_row \<Rightarrow> bool) \<Rightarrow> node_store \<Rightarrow> u64" where
  "rows_affected q s = length (filter q (nodes s))"


subsection \<open>The tree of runs\<close>

fun find_run :: "run_row list \<Rightarrow> i32 \<Rightarrow> run_row option" where
  "find_run [] i = None"
| "find_run (r # rs) i = (if run_id r = i then Some r else find_run rs i)"

text \<open>The ancestor without a parent; the length of a chain is at most the number of runs.\<close>

fun pool_root :: "nat \<Rightarrow> run_row list \<Rightarrow> i32 \<Rightarrow> run_row option" where
  "pool_root 0 rs i = None"
| "pool_root (Suc k) rs i =
     (case find_run rs i of None \<Rightarrow> None
      | Some r \<Rightarrow> (case parent_run r of None \<Rightarrow> Some r | Some q \<Rightarrow> pool_root k rs q))"

definition worker_pool_root :: "node_store \<Rightarrow> i32 \<Rightarrow> run_row option" where
  "worker_pool_root s i = pool_root (length (runs s)) (runs s) i"

definition is_controller_kind :: "run_row \<Rightarrow> bool" where
  "is_controller_kind r \<longleftrightarrow>
     run_kind r \<in> {Some ''integration_campaign'', Some ''parameter_scan'', Some ''hyperparameter_tuning''}"

text \<open>A run whose parameters name no kind is an integration.\<close>

definition is_integration :: "run_row \<Rightarrow> bool" where
  "is_integration r \<longleftrightarrow> (case run_kind r of None \<Rightarrow> True | Some k \<Rightarrow> k = ''integration'')"

fun run_tree :: "nat \<Rightarrow> run_row list \<Rightarrow> i32 \<Rightarrow> i32 list" where
  "run_tree 0 rs i = []"
| "run_tree (Suc k) rs i =
     i # concat (map (\<lambda>r. run_tree k rs (run_id r)) (filter (\<lambda>r. parent_run r = Some i) rs))"

definition runs_below :: "node_store \<Rightarrow> i32 \<Rightarrow> i32 list" where
  "runs_below s i = (if find_run (runs s) i = None then [] else run_tree (length (runs s)) (runs s) i)"

definition worker_pool_branches :: "node_store \<Rightarrow> i32 \<Rightarrow> (i32 \<times> i32 \<times> bool) list" where
  "worker_pool_branches s i =
     concat (map (\<lambda>r. map (\<lambda>j. (j, run_id r, \<not> is_integration r)) (run_tree (length (runs s)) (runs s) (run_id r)))
       (filter (\<lambda>r. parent_run r = Some i) (runs s)))"


subsection \<open>Leases\<close>

text \<open>
  An assignment outlives the lease of its node when the node is to be resumed, is
  still being launched, or belongs to the pool of a controller.
\<close>

definition owned_by_controller :: "node_store \<Rightarrow> node_row \<Rightarrow> bool" where
  "owned_by_controller s r \<longleftrightarrow>
     (case pool_target r of None \<Rightarrow> False
      | Some t \<Rightarrow> (case find_run (runs s) (target_run t) of None \<Rightarrow> False
                  | Some q \<Rightarrow> parent_run q \<noteq> None \<or> is_controller_kind q))"

definition launching :: "node_store \<Rightarrow> node_row \<Rightarrow> bool" where
  "launching s r \<longleftrightarrow>
     list_ex (\<lambda>q. launch_request r = Some (launch_id q) \<and> launch_state q \<in> {LaunchPending, LaunchStarting})
       (launches s)"

definition keeps_assignment :: "node_store \<Rightarrow> node_row \<Rightarrow> bool" where
  "keeps_assignment s r \<longleftrightarrow> resume_requested r \<or> owned_by_controller s r \<or> launching s r"

definition clear_expired_assignments :: "int \<Rightarrow> node_store \<Rightarrow> node_store" where
  "clear_expired_assignments now s =
     update_where (\<lambda>r. \<not> live now r \<and> (desired_target r \<noteq> None \<or> active_target r \<noteq> None))
       (\<lambda>r. if keeps_assignment s r then r\<lparr>active_target := None\<rparr>
            else r\<lparr>pool_target := None, desired_target := None, active_target := None\<rparr>) s"

definition lease_seconds :: int where "lease_seconds = 10"

text \<open>A registration takes the name of an expired node over.\<close>

definition take_over :: "int \<Rightarrow> string \<Rightarrow> node_store \<Rightarrow> node_row \<Rightarrow> node_row" where
  "take_over now uuid s r =
     (let same = node_uuid r = uuid in
      r\<lparr>node_uuid := uuid, lease_expires_at := now + lease_seconds, last_seen := Some now,
        pool_target := (if same \<or> keeps_assignment s r then pool_target r
                        else if \<not> live now r then None else pool_target r),
        desired_target := (if same \<or> keeps_assignment s r then desired_target r
                           else if \<not> live now r then None else desired_target r),
        active_target := (if same then active_target r
                          else if \<not> live now r then None else active_target r),
        shutdown_requested := (if same then shutdown_requested r else False)\<rparr>)"

definition new_node :: "int \<Rightarrow> string \<Rightarrow> string \<Rightarrow> node_row" where
  "new_node now name uuid =
     \<lparr>node_name = name, node_uuid = uuid, lease_expires_at = now + lease_seconds, last_seen = Some now,
      pool_target = None, desired_target = None, active_target = None, shutdown_requested = False,
      resume_requested = False, launch_request = None\<rparr>"

text \<open>
  Launch requests are fulfilled when every requested worker has connected once since
  the request; an external request fails when one of its jobs did.
\<close>

definition connected_since :: "node_store \<Rightarrow> launch_row \<Rightarrow> node_row \<Rightarrow> bool" where
  "connected_since s q r \<longleftrightarrow> launch_request r = Some (launch_id q) \<and>
     (case last_seen r of None \<Rightarrow> False | Some t \<Rightarrow> t \<ge> launch_created_at q)"

definition externals_of :: "launch_row \<Rightarrow> external_row list \<Rightarrow> external_row list" where
  "externals_of q ws = filter (\<lambda>w. ext_request w = launch_id q) ws"

definition open_external :: "external_row \<Rightarrow> bool" where
  "open_external w \<longleftrightarrow> ext_state w \<in> {ExtPending, Submitting, Submitted}"

definition connect_externals :: "node_store \<Rightarrow> external_row list" where
  "connect_externals s =
     map (\<lambda>w. if open_external w \<and>
                list_ex (\<lambda>q. launch_id q = ext_request w \<and> launch_state q = LaunchStarting \<and>
                   list_ex (\<lambda>r. node_name r = ext_node w \<and> connected_since s q r) (nodes s)) (launches s)
              then w\<lparr>ext_state := Connected\<rparr> else w) (externals s)"

definition reconcile_launch :: "node_store \<Rightarrow> external_row list \<Rightarrow> launch_row \<Rightarrow> launch_row" where
  "reconcile_launch s ws q =
     (if launch_state q \<noteq> LaunchStarting then q
      else let own = externals_of q ws;
               q = (if own = [] then q
                    else q\<lparr>started_count :=
                      int (length (filter (\<lambda>w. ext_has_job w \<or> ext_state w = Connected) own))\<rparr>)
           in if launch_backend q = ''external''
              then if int (length own) = requested_count q \<and> \<not> list_ex open_external own
                   then q\<lparr>launch_state := (if list_ex (\<lambda>w. ext_state w \<in> {ExtFailed, ExtCanceled}) own
                                           then LaunchFailed else Fulfilled)\<rparr>
                   else q
              else if launch_backend q = ''local'' \<and> started_count q \<ge> requested_count q \<and>
                      int (length (filter (connected_since s q) (nodes s))) \<ge> requested_count q
              then q\<lparr>launch_state := Fulfilled\<rparr> else q)"

definition reconcile_fulfilled :: "node_store \<Rightarrow> node_store" where
  "reconcile_fulfilled s =
     (let ws = connect_externals s
      in s\<lparr>externals := ws, launches := map (reconcile_launch s ws) (launches s)\<rparr>)"

text \<open>
  Registration and heartbeat. \<open>build_ok\<close> stands for the trigger that compares the
  build of the worker with that of the deployment.
\<close>

definition announce_node ::
    "bool \<Rightarrow> int \<Rightarrow> string \<Rightarrow> string \<Rightarrow> node_store \<Rightarrow> (store_error + unit) \<times> node_store" where
  "announce_node build_ok now name uuid s =
     (if \<not> build_ok \<and> uuid \<noteq> [] then (Inl (Database ''worker build does not match the deployment''), s)
      else if list_ex (\<lambda>r. node_name r = name \<and> node_uuid r = uuid) (nodes s)
      then (Inr (), update_where (\<lambda>r. node_name r = name \<and> node_uuid r = uuid)
              (\<lambda>r. r\<lparr>lease_expires_at := now + lease_seconds, last_seen := Some now\<rparr>) s)
      else if \<not> list_ex (\<lambda>r. node_name r = name) (nodes s)
      then (Inr (), reconcile_fulfilled (s\<lparr>nodes := nodes s @ [new_node now name uuid]\<rparr>))
      else if list_ex (\<lambda>r. node_name r = name \<and> (node_uuid r = uuid \<or> \<not> live now r)) (nodes s)
      then (Inr (), reconcile_fulfilled
              (update_where (\<lambda>r. node_name r = name \<and> (node_uuid r = uuid \<or> \<not> live now r))
                 (take_over now uuid s) s))
      else (Inl (Database ''node name is already owned by another live node uuid''), s))"

definition expire_node_lease :: "int \<Rightarrow> string \<Rightarrow> node_store \<Rightarrow> node_store" where
  "expire_node_lease now uuid s =
     update_where (\<lambda>r. node_uuid r = uuid)
       (\<lambda>r. r\<lparr>lease_expires_at := now,
              pool_target := (if resume_requested r then pool_target r else None),
              desired_target := (if resume_requested r then desired_target r else None),
              active_target := None, shutdown_requested := False\<rparr>) s"

text \<open>The leader of the task control loop: the live node with the least name.\<close>

definition is_task_control_leader :: "int \<Rightarrow> string \<Rightarrow> string \<Rightarrow> node_store \<Rightarrow> bool" where
  "is_task_control_leader now name uuid s =
     (case sort_key node_name (filter (live now) (nodes s)) of [] \<Rightarrow> False
      | r # _ \<Rightarrow> node_name r = name \<and> node_uuid r = uuid)"


subsection \<open>The connection budget\<close>

definition connections_per_worker :: i64 where "connections_per_worker = 4"
definition extra_sampler_connections :: i64 where "extra_sampler_connections = 4"
definition connection_headroom :: i64 where "connection_headroom = 16"

definition capacity :: "i64 \<Rightarrow> i64 \<Rightarrow> i64 \<Rightarrow> i64" where
  "capacity most kept samplers =
     max (most - kept - connection_headroom - samplers * extra_sampler_connections) 0
       div connections_per_worker"

definition reserved_launch :: "int \<Rightarrow> node_store \<Rightarrow> node_row \<Rightarrow> bool" where
  "reserved_launch now s r \<longleftrightarrow> \<not> live now r \<and>
     list_ex (\<lambda>q. launch_request r = Some (launch_id q) \<and> launch_state q \<in> {LaunchPending, LaunchStarting} \<and>
        (case last_seen r of None \<Rightarrow> True | Some t \<Rightarrow> t < launch_created_at q) \<and>
        \<not> list_ex (\<lambda>w. ext_request w = launch_id q \<and> ext_node w = node_name r \<and>
                     ext_state w \<in> {ExtFailed, ExtCanceled}) (externals s)) (launches s)"

definition is_sampler :: "assignment_target option \<Rightarrow> bool" where
  "is_sampler t = (case t of None \<Rightarrow> False | Some a \<Rightarrow> target_role a = SamplerAggregator)"

definition sampler_node :: "node_row \<Rightarrow> bool" where
  "sampler_node r \<longleftrightarrow> is_sampler (pool_target r) \<or> is_sampler (desired_target r) \<or> is_sampler (active_target r)"

definition within_budget :: "int \<Rightarrow> i64 \<Rightarrow> node_store \<Rightarrow> bool" where
  "within_budget now additional s \<longleftrightarrow>
     saturating_add_i64
       (saturating_add_i64 (int (length (filter (live now) (nodes s))))
          (int (length (filter (reserved_launch now s) (nodes s))))) additional
     \<le> capacity (max_connections s) (reserved_connections s)
         (int (length (filter (\<lambda>r. (live now r \<or> reserved_launch now s r) \<and> sampler_node r) (nodes s))))"


subsection \<open>Pool membership and desired assignments\<close>

text \<open>
  All updates or none: an update whose node is gone, or whose desired assignment is no
  longer the expected one, rolls the transaction back and returns false.
\<close>

definition update_matches :: "int \<Rightarrow> node_store \<Rightarrow> node_assignment_update \<Rightarrow> bool" where
  "update_matches now s u \<longleftrightarrow>
     list_ex (\<lambda>r. node_uuid r = update_node_uuid u \<and> live now r \<and> desired_target r = expected u) (nodes s)"

text \<open>The foreign key of a target to the table of runs.\<close>

definition target_exists :: "node_store \<Rightarrow> assignment_target option \<Rightarrow> bool" where
  "target_exists s t \<longleftrightarrow> t = None \<or> find_run (runs s) (target_run (the t)) \<noteq> None"

definition set_desired :: "node_assignment_update \<Rightarrow> node_store \<Rightarrow> node_store" where
  "set_desired u = update_where (\<lambda>r. node_uuid r = update_node_uuid u) (\<lambda>r. r\<lparr>desired_target := desired u\<rparr>)"

definition update_desired_assignments ::
    "int \<Rightarrow> node_assignment_update list \<Rightarrow> node_store \<Rightarrow> (store_error + bool) \<times> node_store" where
  "update_desired_assignments now us s =
     (if us = [] then (Inr True, s)
      else let admits = list_ex (\<lambda>u. is_sampler (desired u)) us;
               cleared = clear_expired_assignments now s;
               ordered = sort_key update_node_uuid us
           in if \<not> list_all (update_matches now cleared) ordered then (Inr False, s)
              else let s' = fold set_desired ordered cleared
                   in if list_ex (\<lambda>u. \<not> target_exists s (desired u)) ordered
                      then (Inl (Database ''foreign key violation''), s)
                      else if admits \<and> \<not> within_budget now 0 s'
                      then (Inl (Database ''worker connection budget exceeded''), s)
                      else (Inr True, s'))"

datatype pool_outcome = Assigned | NodeNotLive | SamplerOccupied

definition assign_worker_pool ::
    "int \<Rightarrow> string \<Rightarrow> worker_role \<Rightarrow> i32 \<Rightarrow> node_store \<Rightarrow> (store_error + pool_outcome) \<times> node_store" where
  "assign_worker_pool now name role run s =
     (let cleared = clear_expired_assignments now s in
      case worker_pool_root s run of
        None \<Rightarrow> (Inl (Database ''no rows returned by a query that expected one''), s)
      | Some root \<Rightarrow>
          if role = SamplerAggregator \<and> is_integration root \<and>
             list_ex (\<lambda>r. pool_target r = Some \<lparr>target_role = SamplerAggregator, target_run = run_id root\<rparr>
                          \<and> node_name r \<noteq> name) (nodes cleared)
          then (Inr SamplerOccupied, s)
          else let t = \<lparr>target_role = role, target_run = run_id root\<rparr>;
                   hit = (\<lambda>r. node_name r = name \<and> live now r);
                   s' = update_where hit
                     (\<lambda>r. r\<lparr>desired_target := Some \<lparr>target_role = role, target_run =
                               (if pool_target r = Some t
                                then (case desired_target r of Some d \<Rightarrow> target_run d | None \<Rightarrow> run_id root)
                                else run_id root)\<rparr>,
                            pool_target := Some t\<rparr>) cleared
               in if role = SamplerAggregator \<and> \<not> within_budget now 0 s'
                  then (Inl (Database ''worker connection budget exceeded''), s)
                  else (Inr (if list_ex hit (nodes cleared) then Assigned else NodeNotLive), s'))"

definition assign_pool :: "int \<Rightarrow> string \<Rightarrow> worker_role \<Rightarrow> i32 \<Rightarrow> node_store \<Rightarrow> (store_error + unit) \<times> node_store" where
  "assign_pool now name role run s =
     (case assign_worker_pool now name role run s of
        (Inl e, s') \<Rightarrow> (Inl e, s')
      | (Inr Assigned, s') \<Rightarrow> (Inr (), s')
      | (Inr NodeNotLive, s') \<Rightarrow> (Inl (NotFound ''node is not live''), s')
      | (Inr SamplerOccupied, s') \<Rightarrow>
          (Inl (StoreInvalidInput ''run already has a sampler_aggregator assignment''), s'))"

definition leave_pool :: "node_row \<Rightarrow> node_row" where
  "leave_pool r = r\<lparr>pool_target := None, desired_target := None\<rparr>"

definition desired_run_of :: "node_row \<Rightarrow> i32 option" where
  "desired_run_of r = map_option target_run (desired_target r)"

definition pool_run_of :: "node_row \<Rightarrow> i32 option" where
  "pool_run_of r = map_option target_run (pool_target r)"

definition active_run_of :: "node_row \<Rightarrow> i32 option" where
  "active_run_of r = map_option target_run (active_target r)"

definition clear_desired_assignment :: "string \<Rightarrow> node_store \<Rightarrow> node_store" where
  "clear_desired_assignment name = update_where (\<lambda>r. node_name r = name) leave_pool"

definition clear_desired_assignments_for_run :: "i32 \<Rightarrow> node_store \<Rightarrow> u64 \<times> node_store" where
  "clear_desired_assignments_for_run i s =
     (let hit = (\<lambda>r. desired_run_of r \<in> Some ` set (runs_below s i) \<or> pool_run_of r = Some i)
      in (rows_affected hit s, update_where hit leave_pool s))"

definition clear_desired_assignments_for_run_except_node :: "i32 \<Rightarrow> string \<Rightarrow> node_store \<Rightarrow> u64 \<times> node_store" where
  "clear_desired_assignments_for_run_except_node i keep s =
     (let hit = (\<lambda>r. desired_run_of r = Some i \<and> node_name r \<noteq> keep)
      in (rows_affected hit s, update_where hit leave_pool s))"

definition clear_all_desired_assignments :: "node_store \<Rightarrow> u64 \<times> node_store" where
  "clear_all_desired_assignments s = (rows_affected (\<lambda>r. True) s, update_where (\<lambda>r. True) leave_pool s)"

definition in_pool :: "node_store \<Rightarrow> i32 \<Rightarrow> node_row \<Rightarrow> bool" where
  "in_pool s i r \<longleftrightarrow>
     (case worker_pool_root s i of None \<Rightarrow> False | Some root \<Rightarrow> pool_run_of r = Some (run_id root))"

definition pause_worker_pool :: "i32 \<Rightarrow> node_store \<Rightarrow> u64 \<times> node_store" where
  "pause_worker_pool i s =
     (let hit = (\<lambda>r. in_pool s i r \<and> desired_target r \<noteq> None)
      in (rows_affected hit s, update_where hit (\<lambda>r. r\<lparr>desired_target := None\<rparr>) s))"

definition resume_worker_pool :: "i32 \<Rightarrow> node_store \<Rightarrow> u64 \<times> node_store" where
  "resume_worker_pool i s =
     (let hit = (\<lambda>r. in_pool s i r \<and> desired_target r = None)
      in (rows_affected hit s, update_where hit (\<lambda>r. r\<lparr>desired_target := pool_target r\<rparr>) s))"

text \<open>
  The workers of a finished run return to the controller that spawned it while that
  controller's task (\<open>active_task\<close>, from the task table) is active, and are released otherwise.
\<close>

definition finish_run_assignments ::
    "(i32 \<Rightarrow> i64 \<Rightarrow> bool) \<Rightarrow> i32 \<Rightarrow> node_store \<Rightarrow> (store_error + u64) \<times> node_store" where
  "finish_run_assignments active_task i s =
     (let destination = (case find_run (runs s) i of None \<Rightarrow> None
            | Some r \<Rightarrow> (case (parent_run r, parent_task r) of
                (Some q, Some t) \<Rightarrow> if active_task q t then Some q else None | _ \<Rightarrow> None));
          hit = (\<lambda>r. desired_run_of r = Some i \<or> pool_run_of r = Some i)
      in if destination \<noteq> None \<and> list_ex (\<lambda>r. hit r \<and> desired_target r = None) (nodes s)
         then (Inl (StoreInvalidInput ''role and run fields must be both set or both null''), s)
         else (Inr (rows_affected hit s),
          update_where hit
            (\<lambda>r. case destination of None \<Rightarrow> leave_pool r
             | Some q \<Rightarrow> r\<lparr>desired_target := map_option (\<lambda>t. t\<lparr>target_run := q\<rparr>) (desired_target r)\<rparr>) s))"

definition get_desired_assignment :: "string \<Rightarrow> node_store \<Rightarrow> assignment_target option" where
  "get_desired_assignment name s =
     (case filter (\<lambda>r. node_name r = name \<and> desired_target r \<noteq> None) (nodes s) of
        [] \<Rightarrow> None | r # _ \<Rightarrow> desired_target r)"

definition list_desired_assignments :: "string option \<Rightarrow> node_store \<Rightarrow> (string \<times> assignment_target) list" where
  "list_desired_assignments name s =
     map (\<lambda>r. (node_name r, the (desired_target r)))
       (sort_key node_name (filter (\<lambda>r. desired_target r \<noteq> None \<and> (name = None \<or> name = Some (node_name r))) (nodes s)))"

definition registered :: "node_row \<Rightarrow> registered_node" where
  "registered r = \<lparr>reg_name = node_name r, reg_uuid = node_uuid r, pool_assignment = pool_target r,
     desired_assignment = desired_target r, current_assignment = active_target r\<rparr>"

definition list_nodes :: "int \<Rightarrow> string option \<Rightarrow> node_store \<Rightarrow> registered_node list" where
  "list_nodes now name s =
     map registered
       (sort_key node_name (filter (\<lambda>r. live now r \<and> (name = None \<or> name = Some (node_name r))) (nodes s)))"


subsection \<open>Current assignments and shutdown\<close>

definition count_active_evaluator_nodes :: "int \<Rightarrow> i32 \<Rightarrow> node_store \<Rightarrow> i64" where
  "count_active_evaluator_nodes now i s =
     int (length (filter (\<lambda>r. live now r \<and> active_target r = Some \<lparr>target_role = Evaluator, target_run = i\<rparr>)
       (nodes s)))"

text \<open>The unique index allows one row with an active sampler per run.\<close>

definition sampler_index_ok :: "node_store \<Rightarrow> bool" where
  "sampler_index_ok s \<longleftrightarrow>
     distinct (map (\<lambda>r. target_run (the (active_target r)))
       (filter (\<lambda>r. is_sampler (active_target r)) (nodes s)))"

text \<open>The expired rows are cleared in a statement of its own, before the update.\<close>

definition set_current_assignment ::
    "int \<Rightarrow> string \<Rightarrow> worker_role \<Rightarrow> i32 \<Rightarrow> node_store \<Rightarrow> (store_error + unit) \<times> node_store" where
  "set_current_assignment now uuid role run s =
     (let cleared = clear_expired_assignments now s;
          hit = (\<lambda>r. node_uuid r = uuid \<and> live now r);
          s' = update_where hit (\<lambda>r. r\<lparr>active_target := Some \<lparr>target_role = role, target_run = run\<rparr>\<rparr>) cleared
      in if list_ex hit (nodes cleared) \<and> find_run (runs s) run = None
         then (Inl (Database ''foreign key violation''), cleared)
         else if \<not> sampler_index_ok s'
         then (Inl (StoreInvalidInput ''run already has a current sampler_aggregator node''), cleared)
         else if \<not> list_ex hit (nodes cleared)
         then (Inl (Database ''node uuid is no longer live''), s')
         else (Inr (), s'))"

definition clear_current_assignment :: "int \<Rightarrow> string \<Rightarrow> node_store \<Rightarrow> (store_error + unit) \<times> node_store" where
  "clear_current_assignment now uuid s =
     (let hit = (\<lambda>r. node_uuid r = uuid \<and> live now r)
      in (if list_ex hit (nodes s) then Inr () else Inl (Database ''node uuid is no longer live''),
          update_where hit (\<lambda>r. r\<lparr>active_target := None\<rparr>) s))"

definition request_shutdown :: "node_row \<Rightarrow> node_row" where
  "request_shutdown r = (leave_pool r)\<lparr>resume_requested := False, shutdown_requested := True\<rparr>"

definition request_node_shutdown :: "string \<Rightarrow> node_store \<Rightarrow> u64 \<times> node_store" where
  "request_node_shutdown name s =
     (1, if list_ex (\<lambda>r. node_name r = name) (nodes s)
         then update_where (\<lambda>r. node_name r = name) request_shutdown s
         else s\<lparr>nodes := nodes s @ [(new_node 0 name [])\<lparr>lease_expires_at := 0, last_seen := None,
                                     shutdown_requested := True\<rparr>]\<rparr>)"

definition request_all_nodes_shutdown :: "int \<Rightarrow> node_store \<Rightarrow> u64 \<times> node_store" where
  "request_all_nodes_shutdown now s =
     (let hit = (\<lambda>r. live now r \<or> resume_requested r)
      in (rows_affected hit s, update_where hit request_shutdown s))"

definition consume_node_shutdown_request :: "string \<Rightarrow> node_store \<Rightarrow> bool \<times> node_store" where
  "consume_node_shutdown_request uuid s =
     (let hit = (\<lambda>r. node_uuid r = uuid \<and> shutdown_requested r)
      in (list_ex hit (nodes s), update_where hit (\<lambda>r. r\<lparr>shutdown_requested := False\<rparr>) s))"

definition suspend_workers :: "int \<Rightarrow> node_store \<Rightarrow> u64 \<times> node_store" where
  "suspend_workers now s =
     (let hit = (\<lambda>r. live now r \<and> \<not> shutdown_requested r)
      in (rows_affected hit s,
          update_where hit (\<lambda>r. r\<lparr>resume_requested := True, shutdown_requested := True\<rparr>) s))"

definition drop_target :: "i32 list \<Rightarrow> assignment_target option \<Rightarrow> assignment_target option" where
  "drop_target gone t = (case t of Some a \<Rightarrow> if target_run a \<in> set gone then None else t | None \<Rightarrow> None)"

definition remove_run :: "i32 \<Rightarrow> node_store \<Rightarrow> u64 \<times> node_store" where
  "remove_run i s =
     (let gone = runs_below s i;
          cleared = update_where (\<lambda>r. True)
            (\<lambda>r. r\<lparr>pool_target := drop_target gone (pool_target r),
                   desired_target := drop_target gone (desired_target r),
                   active_target := drop_target gone (active_target r)\<rparr>) s
      in (length (filter (\<lambda>r. run_id r \<in> set gone) (runs s)),
          cleared\<lparr>runs := filter (\<lambda>r. run_id r \<notin> set gone) (runs s)\<rparr>))"

end
