(* ===== verification/Node_Laws.thy ===== *)
theory Node_Laws
  imports Node_Store
begin

section \<open>Invariants of the control plane\<close>

text \<open>
  Steps of any worker, operator or controller on the table of nodes, and what holds in
  every state they reach: names are unique, a run has at most one active sampler, a
  standalone run has at most one sampler in its pool, and pools refer to existing runs.
\<close>

named_theorems node_ops \<open>operations that are one update of the table\<close>

definition names_unique :: "node_store \<Rightarrow> bool" where
  "names_unique s \<longleftrightarrow> distinct (map node_name (nodes s))"

definition same_node :: "node_row \<Rightarrow> node_row \<Rightarrow> bool" where
  "same_node a b \<longleftrightarrow> node_name a = node_name b"

definition one_active_sampler :: "node_store \<Rightarrow> bool" where
  "one_active_sampler s \<longleftrightarrow>
     (\<forall>a \<in> set (nodes s). \<forall>b \<in> set (nodes s). is_sampler (active_target a) \<longrightarrow>
        is_sampler (active_target b) \<longrightarrow> active_run_of a = active_run_of b \<longrightarrow> same_node a b)"

definition standalone :: "node_store \<Rightarrow> i32 \<Rightarrow> bool" where
  "standalone s i = (case find_run (runs s) i of None \<Rightarrow> False | Some r \<Rightarrow> is_integration r)"

definition one_pool_sampler :: "node_store \<Rightarrow> bool" where
  "one_pool_sampler s \<longleftrightarrow>
     (\<forall>a \<in> set (nodes s). \<forall>b \<in> set (nodes s). is_sampler (pool_target a) \<longrightarrow> is_sampler (pool_target b) \<longrightarrow>
        pool_run_of a = pool_run_of b \<longrightarrow> standalone s (the (pool_run_of a)) \<longrightarrow> same_node a b)"

lemma standalone_runs: "runs s' = runs s \<Longrightarrow> standalone s' i = standalone s i"
  by (simp add: standalone_def)

lemma target_exists_runs: "runs s' = runs s \<Longrightarrow> target_exists s' t = target_exists s t"
  by (simp add: target_exists_def)

definition pools_exist :: "node_store \<Rightarrow> bool" where
  "pools_exist s \<longleftrightarrow> (\<forall>r \<in> set (nodes s). target_exists s (pool_target r))"

definition store_inv :: "node_store \<Rightarrow> bool" where
  "store_inv s \<longleftrightarrow> names_unique s \<and> one_active_sampler s \<and> one_pool_sampler s \<and> pools_exist s"

text \<open>Most operations update rows in place, keep names, and only drop pools and active targets.\<close>

definition shrinks :: "(node_row \<Rightarrow> node_row) \<Rightarrow> bool" where
  "shrinks f \<longleftrightarrow> (\<forall>r. node_name (f r) = node_name r \<and>
     (pool_target (f r) = pool_target r \<or> pool_target (f r) = None) \<and>
     (active_target (f r) = active_target r \<or> active_target (f r) = None))"

lemma shrinksI:
  "(\<And>r. node_name (f r) = node_name r \<and> (pool_target (f r) = pool_target r \<or> pool_target (f r) = None) \<and>
     (active_target (f r) = active_target r \<or> active_target (f r) = None)) \<Longrightarrow> shrinks f"
  by (simp add: shrinks_def)

lemma runs_update_where [simp]: "runs (update_where q f s) = runs s"
  by (simp add: update_where_def)

lemma nodes_update_where: "nodes (update_where q f s) = map (\<lambda>r. if q r then f r else r) (nodes s)"
  by (simp add: update_where_def)

lemma no_sampler [simp]: "\<not> is_sampler None"
  by (simp add: is_sampler_def)

text \<open>The two uniqueness invariants survive maps over the rows that drop targets.\<close>

lemma names_unique_map:
  "names_unique s \<Longrightarrow> nodes s' = map f (nodes s) \<Longrightarrow> (\<And>r. node_name (f r) = node_name r) \<Longrightarrow> names_unique s'"
  by (simp add: names_unique_def comp_def)

lemma one_active_sampler_map:
  assumes inv: "one_active_sampler s" and nodes: "nodes s' = map f (nodes s)"
    and n: "\<And>r. node_name (f r) = node_name r"
    and a: "\<And>r. active_target (f r) = active_target r \<or> active_target (f r) = None"
  shows "one_active_sampler s'"
  unfolding one_active_sampler_def nodes
proof (clarsimp)
  fix x y assume *: "x \<in> set (nodes s)" "y \<in> set (nodes s)" "is_sampler (active_target (f x))"
    "is_sampler (active_target (f y))" "active_run_of (f x) = active_run_of (f y)"
  have ar: "active_target (f r) = active_target r" if "is_sampler (active_target (f r))" for r
    using a [of r] that by auto
  then have "active_run_of x = active_run_of y" "is_sampler (active_target x)" "is_sampler (active_target y)"
    using *(3-5) by (auto simp: active_run_of_def)
  then have "same_node x y" using inv *(1,2) unfolding one_active_sampler_def by blast
  then show "same_node (f x) (f y)" by (simp add: same_node_def n)
qed

lemma one_pool_sampler_map:
  assumes inv: "one_pool_sampler s" and nodes: "nodes s' = map f (nodes s)" and runs: "runs s' = runs s"
    and n: "\<And>r. node_name (f r) = node_name r"
    and p: "\<And>r. is_sampler (pool_target (f r)) \<Longrightarrow> pool_target (f r) = pool_target r"
  shows "one_pool_sampler s'"
  unfolding one_pool_sampler_def nodes
proof (clarsimp)
  fix x y assume *: "x \<in> set (nodes s)" "y \<in> set (nodes s)" "is_sampler (pool_target (f x))"
    "is_sampler (pool_target (f y))" "pool_run_of (f x) = pool_run_of (f y)"
    "standalone s' (the (pool_run_of (f y)))"
  then have "pool_run_of x = pool_run_of y" "is_sampler (pool_target x)" "is_sampler (pool_target y)"
    "standalone s (the (pool_run_of x))"
    using p standalone_runs [OF runs] by (auto simp: pool_run_of_def)
  then have "same_node x y" using inv *(1,2) unfolding one_pool_sampler_def by blast
  then show "same_node (f x) (f y)" by (simp add: same_node_def n)
qed

lemma pools_exist_map:
  assumes inv: "pools_exist s" and nodes: "nodes s' = map f (nodes s)" and runs: "runs s' = runs s"
    and p: "\<And>r. pool_target (f r) = pool_target r \<or> pool_target (f r) = None"
  shows "pools_exist s'"
  unfolding pools_exist_def nodes
proof (clarsimp)
  fix x assume "x \<in> set (nodes s)"
  then have "target_exists s (pool_target x)" using inv by (simp add: pools_exist_def)
  then show "target_exists s' (pool_target (f x))"
    using p [of x] by (auto simp: target_exists_def runs)
qed

lemma store_inv_map:
  assumes inv: "store_inv s" and runs: "runs s' = runs s" and f: "shrinks f"
    and nodes: "nodes s' = map f (nodes s)"
  shows "store_inv s'"
proof -
  have n: "node_name (f r) = node_name r"
    and p: "pool_target (f r) = pool_target r \<or> pool_target (f r) = None"
    and a: "active_target (f r) = active_target r \<or> active_target (f r) = None" for r
    using f by (simp_all add: shrinks_def)
  have p': "is_sampler (pool_target (f r)) \<Longrightarrow> pool_target (f r) = pool_target r" for r
    using p [of r] by auto
  show ?thesis
    using inv names_unique_map [OF _ nodes n] one_active_sampler_map [OF _ nodes n a] one_pool_sampler_map [OF _ nodes runs n p']
      pools_exist_map [OF _ nodes runs p] by (simp add: store_inv_def)
qed

lemma store_inv_update_where:
  assumes "store_inv s" "shrinks f"
  shows "store_inv (update_where q f s)"
  by (rule store_inv_map [OF assms(1), of _ "\<lambda>r. if q r then f r else r"])
    (use assms(2) in \<open>auto simp: nodes_update_where shrinks_def\<close>)

lemma shrinks_leave_pool [simp]: "shrinks leave_pool"
  by (simp add: shrinks_def leave_pool_def)

lemma shrinks_request_shutdown [simp]: "shrinks request_shutdown"
  by (simp add: shrinks_def request_shutdown_def leave_pool_def)

lemma shrinks_take_over: "shrinks (take_over now uuid s)"
  by (simp add: shrinks_def take_over_def Let_def)

lemma store_inv_clear_expired: "store_inv s \<Longrightarrow> store_inv (clear_expired_assignments now s)"
  unfolding clear_expired_assignments_def
  by (rule store_inv_update_where) (auto simp: shrinks_def)

lemma store_inv_fold_set_desired: "store_inv s \<Longrightarrow> store_inv (fold set_desired us s)"
proof (induction us arbitrary: s)
  case (Cons u us)
  have "store_inv (set_desired u s)"
    unfolding set_desired_def by (rule store_inv_update_where [OF Cons.prems]) (simp add: shrinks_def)
  then show ?case using Cons.IH by simp
qed simp

lemma runs_clear_expired [simp]: "runs (clear_expired_assignments now s) = runs s"
  by (simp add: clear_expired_assignments_def)



subsection \<open>Steps\<close>

text \<open>
  Whatever workers, controllers and operators do, at any times and in any order. The
  database numbers runs serially, and a child is created under an existing parent.
\<close>

inductive node_step :: "node_store \<Rightarrow> node_store \<Rightarrow> bool" where
  announce: "node_step s (snd (announce_node build_ok now name uuid s))"
| expire: "node_step s (expire_node_lease now uuid s)"
| update: "node_step s (snd (update_desired_assignments now us s))"
| assign: "node_step s (snd (assign_worker_pool now name role run s))"
| clear: "node_step s (clear_desired_assignment name s)"
| clear_run: "node_step s (snd (clear_desired_assignments_for_run i s))"
| clear_except: "node_step s (snd (clear_desired_assignments_for_run_except_node i keep s))"
| clear_all: "node_step s (snd (clear_all_desired_assignments s))"
| pause: "node_step s (snd (pause_worker_pool i s))"
| resume: "node_step s (snd (resume_worker_pool i s))"
| finish: "node_step s (snd (finish_run_assignments active i s))"
| set_current: "node_step s (snd (set_current_assignment now uuid role run s))"
| clear_current: "node_step s (snd (clear_current_assignment now uuid s))"
| shutdown: "node_step s (snd (request_node_shutdown name s))"
| shutdown_all: "node_step s (snd (request_all_nodes_shutdown now s))"
| consume_shutdown: "node_step s (snd (consume_node_shutdown_request uuid s))"
| suspend: "node_step s (snd (suspend_workers now s))"
| remove: "node_step s (snd (remove_run i s))"
| reconcile: "node_step s (reconcile_fulfilled s)"
| create_run: "\<forall>q \<in> set (runs s). run_id q < run_id r \<Longrightarrow>
    \<forall>q. parent_run r = Some q \<longrightarrow> find_run (runs s) q \<noteq> None \<Longrightarrow>
    node_step s (s\<lparr>runs := runs s @ [r]\<rparr>)"

inductive_cases node_stepE: "node_step s s'"

inductive nodes_reachable :: "node_store \<Rightarrow> bool" where
  empty: "nodes s = [] \<Longrightarrow> runs s = [] \<Longrightarrow> nodes_reachable s"
| step: "nodes_reachable s \<Longrightarrow> node_step s s' \<Longrightarrow> nodes_reachable s'"

lemma store_inv_same: "store_inv s \<Longrightarrow> nodes s' = nodes s \<Longrightarrow> runs s' = runs s \<Longrightarrow> store_inv s'"
  by (simp add: store_inv_def names_unique_def one_active_sampler_def one_pool_sampler_def pools_exist_def
      standalone_runs [of s' s] target_exists_runs [of s' s])

lemma store_inv_new_row:
  assumes inv: "store_inv s" and new: "\<not> list_ex (\<lambda>r. node_name r = node_name x) (nodes s)"
    and x: "pool_target x = None" "active_target x = None"
  shows "store_inv (s\<lparr>nodes := nodes s @ [x]\<rparr>)"
proof -
  have "names_unique (s\<lparr>nodes := nodes s @ [x]\<rparr>)"
    using inv new by (auto simp: store_inv_def names_unique_def list_ex_iff)
  moreover have "one_active_sampler (s\<lparr>nodes := nodes s @ [x]\<rparr>)"
    using inv x(2) unfolding store_inv_def one_active_sampler_def by simp
  moreover have "one_pool_sampler (s\<lparr>nodes := nodes s @ [x]\<rparr>)"
    using inv x(1) standalone_runs [of "s\<lparr>nodes := nodes s @ [x]\<rparr>" s]
    unfolding store_inv_def one_pool_sampler_def by simp
  moreover have "pools_exist (s\<lparr>nodes := nodes s @ [x]\<rparr>)"
    using inv x(1) by (simp add: store_inv_def pools_exist_def target_exists_def)
  ultimately show ?thesis by (simp add: store_inv_def)
qed

lemma store_inv_announce: "store_inv s \<Longrightarrow> store_inv (snd (announce_node build_ok now name uuid s))"
proof -
  assume inv: "store_inv s"
  have "store_inv (reconcile_fulfilled s')" if "store_inv s'" for s'
    by (rule store_inv_same [OF that]) (simp_all add: reconcile_fulfilled_def Let_def)
  moreover have "store_inv (s\<lparr>nodes := nodes s @ [new_node now name uuid]\<rparr>)"
    if "\<not> list_ex (\<lambda>r. node_name r = name) (nodes s)"
    by (rule store_inv_new_row [OF inv]) (use that in \<open>simp_all add: new_node_def\<close>)
  moreover have "store_inv (update_where q (take_over now uuid s) s)" for q
    by (rule store_inv_update_where [OF inv shrinks_take_over])
  moreover have "store_inv (update_where q (\<lambda>r. r\<lparr>lease_expires_at := now + lease_seconds, last_seen := Some now\<rparr>) s)" for q
    by (rule store_inv_update_where [OF inv]) (simp add: shrinks_def)
  ultimately show ?thesis
    using inv unfolding announce_node_def by (simp only: if_distrib [of snd] snd_conv split: if_split) blast
qed

lemma store_inv_shutdown: "store_inv s \<Longrightarrow> store_inv (snd (request_node_shutdown name s))"
proof -
  assume inv: "store_inv s"
  let ?x = "(new_node 0 name [])\<lparr>lease_expires_at := 0, last_seen := None, shutdown_requested := True\<rparr>"
  have "store_inv (s\<lparr>nodes := nodes s @ [?x]\<rparr>)" if "\<not> list_ex (\<lambda>r. node_name r = name) (nodes s)"
    by (rule store_inv_new_row [OF inv]) (use that in \<open>simp_all add: new_node_def\<close>)
  moreover have "store_inv (update_where q request_shutdown s)" for q
    by (rule store_inv_update_where [OF inv]) simp
  ultimately show ?thesis
    unfolding request_node_shutdown_def by (simp only: snd_conv split: if_split) blast
qed

text \<open>The unique index is the invariant on active samplers.\<close>

lemma distinct_map_filter_inj:
  "distinct (map f (filter Q xs)) \<Longrightarrow> a \<in> set xs \<Longrightarrow> b \<in> set xs \<Longrightarrow> Q a \<Longrightarrow> Q b \<Longrightarrow> f a = f b \<Longrightarrow> a = b"
  by (simp add: distinct_map inj_on_def)

lemma sampler_index_one_active: "sampler_index_ok s \<Longrightarrow> one_active_sampler s"
  unfolding one_active_sampler_def sampler_index_ok_def
proof (intro ballI impI)
  fix a b assume d: "distinct (map (\<lambda>r. target_run (the (active_target r))) (filter (\<lambda>r. is_sampler (active_target r)) (nodes s)))"
    and ab: "a \<in> set (nodes s)" "b \<in> set (nodes s)" "is_sampler (active_target a)" "is_sampler (active_target b)"
    "active_run_of a = active_run_of b"
  have "target_run (the (active_target a)) = target_run (the (active_target b))"
    using ab(3-5) by (auto simp: active_run_of_def is_sampler_def split: option.splits)
  then show "same_node a b" using distinct_map_filter_inj [OF d ab(1-4)] by (simp add: same_node_def)
qed

lemma store_inv_set_current: "store_inv s \<Longrightarrow> store_inv (snd (set_current_assignment now uuid role run s))"
proof -
  assume "store_inv s"
  then have inv: "store_inv (clear_expired_assignments now s)" by (rule store_inv_clear_expired)
  let ?c = "clear_expired_assignments now s"
  let ?s = "update_where (\<lambda>r. node_uuid r = uuid \<and> live now r)
      (\<lambda>r. r\<lparr>active_target := Some \<lparr>target_role = role, target_run = run\<rparr>\<rparr>) ?c"
  have "store_inv ?s" if "sampler_index_ok ?s"
  proof -
    have "names_unique ?s"
      by (rule names_unique_map [of ?c, OF _ nodes_update_where]) (use inv in \<open>auto simp: store_inv_def\<close>)
    moreover have "one_pool_sampler ?s"
      by (rule one_pool_sampler_map [of ?c, OF _ nodes_update_where]) (use inv in \<open>auto simp: store_inv_def\<close>)
    moreover have "pools_exist ?s"
      by (rule pools_exist_map [of ?c, OF _ nodes_update_where]) (use inv in \<open>auto simp: store_inv_def\<close>)
    ultimately show ?thesis using sampler_index_one_active [OF that] by (simp add: store_inv_def)
  qed
  then show ?thesis using inv by (simp add: set_current_assignment_def Let_def)
qed


lemma find_run_Some: "find_run rs i = Some r \<Longrightarrow> run_id r = i"
  by (induction rs) (auto split: if_splits)

lemma pool_root_Some: "pool_root k rs i = Some r \<Longrightarrow> find_run rs (run_id r) = Some r"
  by (induction k rs i rule: pool_root.induct) (auto split: option.splits dest: find_run_Some)

lemma find_run_filter: "find_run (filter (\<lambda>r. run_id r \<notin> G) rs) i = (if i \<in> G then None else find_run rs i)"
  by (induction rs) auto

lemma find_run_append:
  "find_run (rs @ [r]) i = (case find_run rs i of Some q \<Rightarrow> Some q | None \<Rightarrow> if run_id r = i then Some r else None)"
  by (induction rs) auto

lemma assigned_pool_unique:
  fixes role :: worker_role and name :: string
  assumes inv: "one_pool_sampler c" and root: "find_run (runs c) (run_id root) = Some root"
    and free: "role = SamplerAggregator \<Longrightarrow> is_integration root \<Longrightarrow>
      \<not> list_ex (\<lambda>r. pool_target r = Some \<lparr>target_role = SamplerAggregator, target_run = run_id root\<rparr>
                \<and> node_name r \<noteq> name) (nodes c)"
    and f: "\<And>r. node_name (f r) = node_name r"
      "\<And>r. pool_target (f r) = Some \<lparr>target_role = role, target_run = run_id root\<rparr>"
  shows "one_pool_sampler (update_where (\<lambda>r. node_name r = name \<and> live now r) f c)"
    (is "one_pool_sampler ?s")
proof (cases "role = SamplerAggregator \<and> is_integration root")
  case False
  let ?hit = "\<lambda>r. node_name r = name \<and> live now r"
  show ?thesis
    unfolding one_pool_sampler_def
  proof (intro ballI impI)
    fix a b assume ab: "a \<in> set (nodes ?s)" "b \<in> set (nodes ?s)" "is_sampler (pool_target a)"
      "is_sampler (pool_target b)" "pool_run_of a = pool_run_of b" "standalone ?s (the (pool_run_of a))"
    have fr: "pool_run_of (f r) = Some (run_id root)" for r using f(2) by (simp add: pool_run_of_def)
    have "pool_run_of a \<noteq> Some (run_id root) \<or> role = Evaluator"
      using False ab(6) root by (cases role) (auto simp: standalone_def)
    then have "Some (run_id root) \<noteq> pool_run_of a \<or> role = Evaluator" by metis
    then have "x \<in> set (nodes c)" if "x \<in> set (nodes ?s)" "is_sampler (pool_target x)" "pool_run_of x = pool_run_of a" for x
      using that f by (auto simp: nodes_update_where pool_run_of_def is_sampler_def split: if_splits)
    then show "same_node a b"
      using inv ab standalone_runs [of ?s c] unfolding one_pool_sampler_def by simp
  qed
next
  case True
  have named: "node_name x = name \<or> x \<in> set (nodes c)" if "x \<in> set (nodes ?s)" for x
    using that f(1) by (auto simp: nodes_update_where split: if_splits)
  have own: "node_name x = name" if "x \<in> set (nodes ?s)" "is_sampler (pool_target x)" "pool_run_of x = Some (run_id root)" for x
  proof (rule ccontr)
    assume n: "node_name x \<noteq> name"
    then have "x \<in> set (nodes c)" using named that(1) by blast
    moreover have "pool_target x = Some \<lparr>target_role = SamplerAggregator, target_run = run_id root\<rparr>"
      using that(2,3) by (auto simp: is_sampler_def pool_run_of_def split: option.splits)
    ultimately show False using free True n by (auto simp: list_ex_iff)
  qed
  show ?thesis
    unfolding one_pool_sampler_def
  proof (intro ballI impI)
    fix a b assume ab: "a \<in> set (nodes ?s)" "b \<in> set (nodes ?s)" "is_sampler (pool_target a)"
      "is_sampler (pool_target b)" "pool_run_of a = pool_run_of b" "standalone ?s (the (pool_run_of a))"
    show "same_node a b"
    proof (cases "pool_run_of a = Some (run_id root)")
      case True
      then have "node_name a = name" "node_name b = name" using own ab by simp_all
      then show ?thesis by (simp add: same_node_def)
    next
      case False
      have fr: "pool_run_of (f r) = Some (run_id root)" for r using f(2) by (simp add: pool_run_of_def)
      have False': "Some (run_id root) \<noteq> pool_run_of a" using False by metis
      have "x \<in> set (nodes c)" if "x \<in> set (nodes ?s)" "pool_run_of x = pool_run_of a" for x
        using that False' fr by (auto simp: nodes_update_where split: if_splits)
      then show ?thesis
        using inv ab standalone_runs [of ?s c] unfolding one_pool_sampler_def by simp
    qed
  qed
qed


lemma store_inv_assign: "store_inv s \<Longrightarrow> store_inv (snd (assign_worker_pool now name role run s))"
proof -
  assume inv0: "store_inv s"
  then have inv: "store_inv (clear_expired_assignments now s)" by (rule store_inv_clear_expired)
  let ?c = "clear_expired_assignments now s" and ?hit = "\<lambda>r. node_name r = name \<and> live now r"
  have good: "store_inv (update_where ?hit f ?c)"
    if root: "worker_pool_root s run = Some root"
      and free: "\<not> (role = SamplerAggregator \<and> is_integration root \<and>
        list_ex (\<lambda>r. pool_target r = Some \<lparr>target_role = SamplerAggregator, target_run = run_id root\<rparr>
                    \<and> node_name r \<noteq> name) (nodes ?c))"
      and f: "\<And>r. node_name (f r) = node_name r" "\<And>r. active_target (f r) = active_target r"
        "\<And>r. pool_target (f r) = Some \<lparr>target_role = role, target_run = run_id root\<rparr>" for root f
  proof -
    let ?s = "update_where ?hit f ?c"
    have rt: "find_run (runs ?c) (run_id root) = Some root"
      using root pool_root_Some by (simp add: worker_pool_root_def)
    have "names_unique ?s"
      by (rule names_unique_map [of ?c, OF _ nodes_update_where]) (use inv f(1) in \<open>auto simp: store_inv_def\<close>)
    moreover have "one_active_sampler ?s"
      by (rule one_active_sampler_map [of ?c, OF _ nodes_update_where]) (use inv f in \<open>auto simp: store_inv_def\<close>)
    moreover have "one_pool_sampler ?s"
      by (rule assigned_pool_unique [OF _ rt _ f(1,3)]) (use inv free in \<open>auto simp: store_inv_def\<close>)
    moreover have "pools_exist ?s"
      using inv f(3) rt target_exists_runs [of ?s ?c]
      by (auto simp: store_inv_def pools_exist_def nodes_update_where target_exists_def)
    ultimately show ?thesis by (simp add: store_inv_def)
  qed
  show ?thesis
  proof (cases "worker_pool_root s run")
    case (Some root)
    show ?thesis
      unfolding assign_worker_pool_def Let_def Some option.case
      by (simp only: if_distrib [of snd] snd_conv split: if_split, intro conjI impI)
        (use inv0 in \<open>auto intro!: good [OF Some]\<close>)
  qed (use inv0 in \<open>simp add: assign_worker_pool_def\<close>)
qed

lemma store_inv_remove: "store_inv s \<Longrightarrow> store_inv (snd (remove_run i s))"
proof -
  assume inv: "store_inv s"
  let ?gone = "runs_below s i" and ?s = "snd (remove_run i s)"
  let ?f = "\<lambda>r. r\<lparr>pool_target := drop_target ?gone (pool_target r),
      desired_target := drop_target ?gone (desired_target r), active_target := drop_target ?gone (active_target r)\<rparr>"
  have nodes: "nodes ?s = map ?f (nodes s)"
    by (simp add: remove_run_def Let_def nodes_update_where)
  have runs: "find_run (runs ?s) j = (if j \<in> set ?gone then None else find_run (runs s) j)" for j
    by (simp add: remove_run_def Let_def find_run_filter)
  have drop: "drop_target G t = t \<or> drop_target G t = None" for G t
    by (auto simp: drop_target_def split: option.splits)
  let ?m = "s\<lparr>nodes := nodes ?s\<rparr>"
  have m: "store_inv ?m"
    by (rule store_inv_map [OF inv, of _ ?f]) (simp_all add: nodes shrinks_def drop)
  have st: "standalone ?s j \<Longrightarrow> standalone ?m j" for j
    by (auto simp: standalone_def runs split: if_splits)
  have "one_pool_sampler ?s"
    using m st unfolding store_inv_def one_pool_sampler_def by simp
  moreover have "pools_exist ?s"
    using inv unfolding store_inv_def pools_exist_def nodes
    by (auto simp: target_exists_def runs drop_target_def split: option.splits)
  moreover have "names_unique ?s" "one_active_sampler ?s"
    using m unfolding store_inv_def names_unique_def one_active_sampler_def by simp_all
  ultimately show ?thesis by (simp add: store_inv_def)
qed

lemma store_inv_create:
  assumes inv: "store_inv s" and new: "find_run (runs s) (run_id r) = None"
  shows "store_inv (s\<lparr>runs := runs s @ [r]\<rparr>)"
proof -
  let ?s = "s\<lparr>runs := runs s @ [r]\<rparr>"
  have known: "find_run (runs ?s) j = find_run (runs s) j" if "find_run (runs s) j \<noteq> None" for j
    using that by (auto simp: find_run_append)
  have p: "find_run (runs s) (the (pool_run_of a)) \<noteq> None" if "a \<in> set (nodes s)" "is_sampler (pool_target a)" for a
    using inv that by (auto simp: store_inv_def pools_exist_def target_exists_def pool_run_of_def is_sampler_def
        split: option.splits)
  have "one_pool_sampler ?s"
    unfolding one_pool_sampler_def
  proof (intro ballI impI)
    fix a b assume ab: "a \<in> set (nodes ?s)" "b \<in> set (nodes ?s)" "is_sampler (pool_target a)"
      "is_sampler (pool_target b)" "pool_run_of a = pool_run_of b" "standalone ?s (the (pool_run_of a))"
    then have "standalone s (the (pool_run_of a))"
      using known [OF p [of a]] by (simp add: standalone_def)
    then show "same_node a b" using inv ab unfolding store_inv_def one_pool_sampler_def by simp
  qed
  moreover have "pools_exist ?s"
    using inv known unfolding store_inv_def pools_exist_def target_exists_def by auto
  moreover have "names_unique ?s" "one_active_sampler ?s"
    using inv unfolding store_inv_def names_unique_def one_active_sampler_def by simp_all
  ultimately show ?thesis by (simp add: store_inv_def)
qed

lemma create_new: "\<forall>q \<in> set rs. run_id q < run_id r \<Longrightarrow> find_run rs (run_id r) = None"
  by (induction rs) auto

lemma store_inv_update: "store_inv s \<Longrightarrow> store_inv (snd (update_desired_assignments now us s))"
  using store_inv_fold_set_desired [OF store_inv_clear_expired, of s "sort_key update_node_uuid us" now]
  unfolding update_desired_assignments_def Let_def by (simp only: if_distrib [of snd] snd_conv split: if_split) blast

lemma node_step_inv: "node_step s s' \<Longrightarrow> store_inv s \<Longrightarrow> store_inv s'"
proof (induction rule: node_step.induct)
  case (finish s active i)
  show ?case
    unfolding finish_run_assignments_def Let_def
    by (simp only: if_distrib [of snd] snd_conv split: if_split, intro conjI impI finish store_inv_update_where)
      (auto simp: shrinks_def leave_pool_def split: option.splits)
next
  case (reconcile s)
  then show ?case by (rule store_inv_same) (simp_all add: reconcile_fulfilled_def Let_def)
qed (auto simp: expire_node_lease_def clear_desired_assignment_def clear_desired_assignments_for_run_def
    clear_desired_assignments_for_run_except_node_def clear_all_desired_assignments_def pause_worker_pool_def
    resume_worker_pool_def clear_current_assignment_def request_all_nodes_shutdown_def
    consume_node_shutdown_request_def suspend_workers_def Let_def leave_pool_def request_shutdown_def
    split: if_splits intro!: shrinksI store_inv_announce store_inv_update store_inv_assign store_inv_set_current store_inv_shutdown
      store_inv_remove store_inv_create create_new store_inv_update_where)

text \<open>The forest of runs: identifiers are unique and grow from parent to child.\<close>

definition runs_ordered :: "node_store \<Rightarrow> bool" where
  "runs_ordered s \<longleftrightarrow> distinct (map run_id (runs s)) \<and>
     (\<forall>r \<in> set (runs s). \<forall>q. parent_run r = Some q \<longrightarrow> q < run_id r)"

lemma find_run_in: "find_run rs i = Some r \<Longrightarrow> r \<in> set rs \<and> run_id r = i"
  by (induction rs) (auto split: if_splits)

lemma runs_fold_set_desired [simp]: "runs (fold set_desired us s) = runs s"
  by (induction us arbitrary: s) (simp_all add: set_desired_def)

lemma node_step_ordered: "node_step s s' \<Longrightarrow> runs_ordered s \<Longrightarrow> runs_ordered s'"
proof (induction rule: node_step.induct)
  case (create_run s r)
  then show ?case by (fastforce simp: runs_ordered_def dest: find_run_in)
next
  case (remove i s)
  then show ?case by (auto simp: runs_ordered_def remove_run_def Let_def distinct_map_filter)
qed (simp_all add: runs_ordered_def announce_node_def reconcile_fulfilled_def expire_node_lease_def
    update_desired_assignments_def assign_worker_pool_def clear_desired_assignment_def
    clear_desired_assignments_for_run_def clear_desired_assignments_for_run_except_node_def
    clear_all_desired_assignments_def pause_worker_pool_def resume_worker_pool_def finish_run_assignments_def
    set_current_assignment_def clear_current_assignment_def request_node_shutdown_def
    request_all_nodes_shutdown_def consume_node_shutdown_request_def suspend_workers_def Let_def
    split: option.split)

lemma reachable_store: "nodes_reachable s \<Longrightarrow> store_inv s \<and> runs_ordered s"
proof (induction rule: nodes_reachable.induct)
  case (empty s)
  then show ?case
    by (simp add: store_inv_def names_unique_def one_active_sampler_def one_pool_sampler_def
        pools_exist_def runs_ordered_def)
next
  case (step s s')
  then show ?case using node_step_inv node_step_ordered by blast
qed


text \<open>C13. Whatever workers, controllers and operators do, in any order and at any times:
  worker names stay unique, no run ever has two active samplers, and no standalone run
  ever has two samplers in its pool.\<close>

theorem control_plane_invariant:
  assumes "nodes_reachable s"
  shows "names_unique s \<and> one_active_sampler s \<and> one_pool_sampler s"
  using reachable_store [OF assms] by (simp add: store_inv_def)

end
