(* ===== verification/Controller_Tick.thy ===== *)
theory Controller_Tick
  imports Assignment_Laws Node_Laws
begin

section \<open>The tick of a controller on the control plane\<close>

text \<open>
  \<open>apply_controller_assignment_plan\<close> reads the branches and the live nodes, plans, and
  publishes the differences in one transaction. A tick leaves the workers of others
  alone, settles the pool, and repeated it changes nothing more.
\<close>

subsection \<open>Plans over the registered nodes\<close>

text \<open>
  A plan is well formed when the runs of its branches are branches themselves and its own
  run is none of them, as the rows of \<open>worker_pool_branches\<close> guarantee.
\<close>

definition well_formed_plan :: "controller_plan \<Rightarrow> bool" where
  "well_formed_plan p \<longleftrightarrow>
     plan_branches p (parent_run_id p) = None \<and>
     (\<forall>b \<in> ran (plan_branches p). plan_branches p b = Some b) \<and>
     (\<forall>i \<in> set (selected_child_runs p). plan_branches p i = None \<or> plan_branches p i = Some i)"

definition selected_children :: "controller_plan \<Rightarrow> i32 list" where
  "selected_children p = select_children (plan_branches p) {} (selected_child_runs p)"

definition snapshot :: "registered_node list \<Rightarrow> controller_plan \<Rightarrow> placements" where
  "snapshot ns p = snapshot_placements p ns Map.empty"

definition pool_of :: "registered_node list \<Rightarrow> controller_plan \<Rightarrow> (string \<times> assignment_target) list" where
  "pool_of ns p = reusable_assignments p ns (snapshot ns p)"

definition outside_pool :: "registered_node list \<Rightarrow> controller_plan \<Rightarrow> placements" where
  "outside_pool ns p = snapshot ns p |` (- set (map fst (pool_of ns p)))"

lemma desired_placements_eq:
  "desired_placements ns p =
     schedule_pool p (selected_children p) (pool_of ns p) (outside_pool ns p)"
  by (simp add: desired_placements_def selected_children_def pool_of_def outside_pool_def snapshot_def Let_def)

lemma select_children_iff:
  "i \<in> set (select_children br seen is) \<longleftrightarrow> i \<in> set is \<and> i \<notin> seen \<and> br i \<noteq> None"
  by (induction br seen "is" rule: select_children.induct) auto

lemma select_children_distinct: "distinct (select_children br seen is)"
  by (induction br seen "is" rule: select_children.induct) (simp_all add: select_children_iff)

lemma selected_children_distinct: "distinct (selected_children p)"
  by (simp add: selected_children_def select_children_distinct)

lemma selected_children_branch:
  "well_formed_plan p \<Longrightarrow> i \<in> set (selected_children p) \<Longrightarrow> plan_branches p i = Some i"
  by (auto simp: selected_children_def well_formed_plan_def select_children_iff)

lemma parent_not_selected: "well_formed_plan p \<Longrightarrow> parent_run_id p \<notin> set (selected_children p)"
  by (auto simp: selected_children_def well_formed_plan_def select_children_iff)

lemma snapshot_placements_at:
  "distinct (map reg_name ns) \<Longrightarrow> n \<in> set ns \<Longrightarrow>
   snapshot_placements p ns m (reg_name n) =
     (case desired_assignment n of None \<Rightarrow> m (reg_name n) | Some t \<Rightarrow> Some (at_level p t))"
  and snapshot_placements_other:
  "x \<notin> reg_name ` set ns \<Longrightarrow> snapshot_placements p ns m x = m x"
proof -
  have other: "x \<notin> reg_name ` set ns \<Longrightarrow> snapshot_placements p ns m x = m x" for x ns m
    by (induction p ns m rule: snapshot_placements.induct) (auto split: option.splits)
  then show "x \<notin> reg_name ` set ns \<Longrightarrow> snapshot_placements p ns m x = m x" .
  show "distinct (map reg_name ns) \<Longrightarrow> n \<in> set ns \<Longrightarrow>
   snapshot_placements p ns m (reg_name n) =
     (case desired_assignment n of None \<Rightarrow> m (reg_name n) | Some t \<Rightarrow> Some (at_level p t))"
  proof (induction ns arbitrary: m)
    case (Cons k ks)
    show ?case
    proof (cases "n = k")
      case True
      then have "reg_name n \<notin> reg_name ` set ks" using Cons.prems(1) by simp
      then show ?thesis using True by (simp add: other split: option.splits)
    next
      case False
      then have n: "n \<in> set ks" "reg_name n \<noteq> reg_name k" using Cons.prems by (auto intro: rev_image_eqI)
      show ?thesis
        using Cons.IH [OF _ n(1)] Cons.prems(1) n(2) by (auto split: option.splits)
    qed
  qed simp
qed


lemma snapshot_at:
  "distinct (map reg_name ns) \<Longrightarrow> n \<in> set ns \<Longrightarrow>
   snapshot ns p (reg_name n) = map_option (at_level p) (desired_assignment n)"
  by (simp add: snapshot_def snapshot_placements_at split: option.splits)

lemma snapshot_other: "x \<notin> reg_name ` set ns \<Longrightarrow> snapshot ns p x = None"
  by (simp add: snapshot_def snapshot_placements_other)

lemma pool_of_iff: "(x, t) \<in> set (pool_of ns p) \<longleftrightarrow> snapshot ns p x = Some t \<and> reusable p t"
proof -
  have "snapshot ns p x = Some t \<Longrightarrow> x \<in> reg_name ` set ns" using snapshot_other by fastforce
  then show ?thesis
    by (auto simp: pool_of_def reusable_assignments_def split: option.splits)
qed

lemma pool_of_distinct: "distinct (map fst (pool_of ns p))"
  by (simp add: pool_of_def reusable_assignments_def comp_def)

lemma outside_pool_None: "\<forall>x \<in> fst ` set (pool_of ns p). outside_pool ns p x = None"
  by (auto simp: outside_pool_def restrict_map_def)

lemmas pool_facts = pool_of_distinct outside_pool_None

lemma schedule_pool_other:
  assumes "distinct (map fst pool)" "\<forall>n \<in> fst ` set pool. des n = None" "x \<notin> fst ` set pool"
  shows "schedule_pool p sel pool des x = des x"
proof -
  have n: "x \<notin> fst ` set (role_entries r pool)" for r using assms(3) role_entries_names by blast
  have d: "distinct (map fst (role_entries Evaluator pool))"
    unfolding role_entries_def by (intro distinct_map_filter assms)
  have "schedule_pool p sel pool des x = sampler_placements p sel pool des x"
    using assms(3) by (simp add: schedule_pool_eq assms case_prod_beta plan_simps
        place_evaluators_other [OF d n] sampler_placements_def)
  then show ?thesis using sampler_placements_evaluator [OF assms(1,2) n] by simp
qed

lemma desired_at_pool:
  "(x, t) \<in> set (pool_of ns p) \<Longrightarrow> \<exists>u. desired_placements ns p x = Some u \<and> target_role u = target_role t"
  unfolding desired_placements_eq by (rule scheduled_role [OF pool_facts])

lemma desired_outside_pool:
  "x \<notin> fst ` set (pool_of ns p) \<Longrightarrow> desired_placements ns p x = snapshot ns p x"
  unfolding desired_placements_eq by (simp add: schedule_pool_other pool_facts outside_pool_def restrict_map_def)

text \<open>The runs the plan places workers on.\<close>

lemma desired_pool_run:
  assumes "(x, t) \<in> set (pool_of ns p)" "desired_placements ns p x = Some u"
  shows "target_run u = parent_run_id p \<or> target_run u \<in> set (selected_children p)"
proof -
  let ?pool = "pool_of ns p" and ?sel = "selected_children p" and ?des = "outside_pool ns p"
  have u: "u = the (schedule_pool p ?sel ?pool ?des x)" using assms(2) by (simp add: desired_placements_eq)
  have act: "active_children p ?sel ?pool \<subseteq> set ?sel"
    using fill_pairs_run spread_pairs_run
    by (fastforce simp: active_children_def sampled_children_def)
  show ?thesis
  proof (cases "target_role t")
    case Evaluator
    then have "(x, t) \<in> set (role_entries Evaluator ?pool)" using assms(1) by (simp add: role_entries_def)
    from bspec [OF schedule_evaluators(1) [OF pool_facts, of ns p p ?sel] this] u act
    show ?thesis by (cases "active_children p ?sel ?pool = {}") auto
  next
    case SamplerAggregator
    from schedule_sampler [OF pool_facts assms(1) SamplerAggregator, of p ?sel] u
    show ?thesis
      by (elim disjE conjE exE) (auto dest: kept_subset fill_pairs_run spread_pairs_run)
  qed
qed



subsection \<open>Planning again\<close>

lemma at_level_fixed:
  "plan_branches p (target_run t) = None \<or> plan_branches p (target_run t) = Some (target_run t) \<Longrightarrow> at_level p t = t"
  by (auto simp: at_level_def)

text \<open>The published assignment of a node stands for its wanted placement.\<close>

lemma next_at_level:
  assumes d: "distinct (map reg_name ns)" and n: "n \<in> set ns" and wf: "well_formed_plan p"
  defines "D \<equiv> desired_placements ns p"
  shows "map_option (at_level p) (next_assignment p n (D (reg_name n))) = D (reg_name n)"
proof (cases "desired_assignment n")
  case None
  then have "reg_name n \<notin> fst ` set (pool_of ns p)"
    using snapshot_at [OF d n, of p] by (auto simp: pool_of_iff)
  then have "D (reg_name n) = None"
    using None snapshot_at [OF d n, of p] by (simp add: D_def desired_outside_pool)
  then show ?thesis by (simp add: next_assignment_def None)
next
  case (Some t)
  have snap: "snapshot ns p (reg_name n) = Some (at_level p t)" using snapshot_at [OF d n] Some by simp
  obtain u where u: "D (reg_name n) = Some u"
    and run: "plan_branches p (target_run t) = Some (target_run u) \<or>
      plan_branches p (target_run u) = None \<or> plan_branches p (target_run u) = Some (target_run u)"
  proof (cases "reg_name n \<in> fst ` set (pool_of ns p)")
    case True
    then obtain v where v: "(reg_name n, v) \<in> set (pool_of ns p)" by auto
    then obtain u where u: "D (reg_name n) = Some u" using desired_at_pool D_def by blast
    moreover have "plan_branches p (target_run u) = None \<or> plan_branches p (target_run u) = Some (target_run u)"
      using desired_pool_run [OF v u [unfolded D_def]] selected_children_branch [OF wf] wf
      by (auto simp: well_formed_plan_def)
    ultimately show thesis using that by blast
  next
    case False
    then have "D (reg_name n) = Some (at_level p t)" using snap by (simp add: D_def desired_outside_pool)
    then show thesis by (rule that) (auto simp: at_level_def split: option.splits)
  qed
  then show ?thesis
    by (auto simp: next_assignment_def Some at_level_fixed at_level_def intro: target_eqI)
qed

lemma next_idempotent:
  "next_assignment p (n\<lparr>desired_assignment := next_assignment p n v\<rparr>) v = next_assignment p n v"
  by (cases v; cases "desired_assignment n") (auto simp: next_assignment_def)

definition replaced :: "controller_plan \<Rightarrow> placements \<Rightarrow> registered_node \<Rightarrow> registered_node" where
  "replaced p D n = n\<lparr>desired_assignment := next_assignment p n (D (reg_name n))\<rparr>"

lemma replaced_simps [simp]:
  "reg_name (replaced p D n) = reg_name n" "reg_uuid (replaced p D n) = reg_uuid n"
  "desired_assignment (replaced p D n) = next_assignment p n (D (reg_name n))"
  by (simp_all add: replaced_def)

lemma assignment_diff_empty:
  "distinct (map reg_name ns) \<Longrightarrow>
   \<forall>n \<in> set ns. next_assignment p n (D (reg_name n)) = desired_assignment n \<Longrightarrow> assignment_diff p ns D = []"
proof (induction p ns D rule: assignment_diff.induct)
  case (2 p n ns des)
  have "\<forall>k \<in> set ns. reg_name k \<noteq> reg_name n" using "2.prems"(1) by (auto simp: image_iff)
  then show ?case using 2 by (simp add: Let_def fun_upd_def)
qed simp

lemma snapshot_replaced:
  assumes d: "distinct (map reg_name ns)" and wf: "well_formed_plan p"
  shows "snapshot (map (replaced p (desired_placements ns p)) ns) p = desired_placements ns p"
proof
  fix x
  let ?D = "desired_placements ns p"
  have d': "distinct (map reg_name (map (replaced p ?D) ns))" using d by (simp add: comp_def)
  show "snapshot (map (replaced p ?D) ns) p x = ?D x"
  proof (cases "x \<in> reg_name ` set ns")
    case True
    then obtain n where n: "n \<in> set ns" "x = reg_name n" by auto
    then show ?thesis
      using snapshot_at [OF d', of "replaced p ?D n" p] next_at_level [OF d n(1) wf] by simp
  next
    case False
    then have "snapshot ns p x = None" by (rule snapshot_other)
    then have "?D x = None" by (subst desired_outside_pool) (auto simp: pool_of_iff)
    moreover have "x \<notin> reg_name ` set (map (replaced p ?D) ns)" using False by (auto simp: image_iff)
    ultimately show ?thesis by (simp add: snapshot_other)
  qed
qed

lemma pool_of_replaced:
  assumes d: "distinct (map reg_name ns)" and wf: "well_formed_plan p"
  shows "pool_of (map (replaced p (desired_placements ns p)) ns) p =
     scheduled p (selected_children p) (pool_of ns p) (outside_pool ns p)"
proof -
  let ?D = "desired_placements ns p" and ?m = "snapshot ns p"
  let ?in = "\<lambda>m n. case m n of Some t \<Rightarrow> reusable p t | None \<Rightarrow> False"
  have "?in ?D x = ?in ?m x" for x
  proof (cases "x \<in> fst ` set (pool_of ns p)")
    case True
    then obtain t where t: "(x, t) \<in> set (pool_of ns p)" by auto
    then obtain u where u: "?D x = Some u" using desired_at_pool by blast
    have "reusable p u"
      using desired_pool_run [OF t u] selected_children_branch [OF wf] by (auto simp: reusable_def)
    then show ?thesis using t u by (simp add: pool_of_iff)
  next
    case False
    then show ?thesis by (simp add: desired_outside_pool)
  qed
  then show ?thesis
    unfolding pool_of_def [of "map _ _"] snapshot_replaced [OF d wf] reusable_assignments_def scheduled_def
    by (simp add: pool_of_def reusable_assignments_def comp_def desired_placements_eq)
qed

lemma replaced_settled:
  assumes d: "distinct (map reg_name ns)" and wf: "well_formed_plan p"
  shows "settled p (selected_children p) (pool_of (map (replaced p (desired_placements ns p)) ns) p)"
  unfolding pool_of_replaced [OF d wf]
  by (rule scheduled_settled [OF pool_facts parent_not_selected [OF wf] selected_children_distinct])

lemma desired_replaced:
  assumes d: "distinct (map reg_name ns)" and wf: "well_formed_plan p"
  shows "desired_placements (map (replaced p (desired_placements ns p)) ns) p = desired_placements ns p"
proof
  fix x
  let ?D = "desired_placements ns p" let ?ns = "map (replaced p ?D) ns"
  show "desired_placements ?ns p x = ?D x"
  proof (cases "x \<in> fst ` set (pool_of ?ns p)")
    case True
    then obtain t where t: "(x, t) \<in> set (pool_of ?ns p)" by auto
    have "desired_placements ?ns p x = Some t"
      unfolding desired_placements_eq [of ?ns] by (rule settled_fixed [OF pool_facts replaced_settled [OF d wf] t])
    then show ?thesis using t by (simp add: pool_of_iff snapshot_replaced [OF d wf])
  next
    case False
    then show ?thesis by (simp add: desired_outside_pool snapshot_replaced [OF d wf])
  qed
qed

lemma replanning_changes_nothing:
  assumes d: "distinct (map reg_name ns)" and wf: "well_formed_plan p"
  shows "controller_assignment_updates (map (replaced p (desired_placements ns p)) ns) p = []"
  unfolding controller_assignment_updates_def desired_replaced [OF d wf]
  by (rule assignment_diff_empty)
    (use d in \<open>auto simp: comp_def replaced_def next_idempotent\<close>)



subsection \<open>The plan of a controller is well formed\<close>

definition child_rel :: "run_row list \<Rightarrow> (i32 \<times> i32) set" where
  "child_rel rs = {(q, run_id r) | q r. r \<in> set rs \<and> parent_run r = Some q}"

lemma run_tree_child_rel: "j \<in> set (run_tree k rs i) \<Longrightarrow> (i, j) \<in> (child_rel rs)\<^sup>*"
proof (induction k arbitrary: i)
  case (Suc k)
  then consider "j = i" | r where "r \<in> set rs" "parent_run r = Some i" "j \<in> set (run_tree k rs (run_id r))"
    by auto
  then show ?case
  proof cases
    case 2
    then have "(i, run_id r) \<in> child_rel rs" by (auto simp: child_rel_def)
    then show ?thesis using Suc.IH [OF 2(3)] by (rule converse_rtrancl_into_rtrancl)
  qed simp
qed simp

lemma child_rel_less: "runs_ordered s \<Longrightarrow> (i, j) \<in> child_rel (runs s) \<Longrightarrow> i < j"
  by (auto simp: child_rel_def runs_ordered_def)

lemma child_rel_le: "(i, j) \<in> (child_rel (runs s))\<^sup>* \<Longrightarrow> runs_ordered s \<Longrightarrow> i \<le> j"
  by (induction rule: rtrancl.induct) (auto dest: child_rel_less)

definition is_child :: "node_store \<Rightarrow> i32 \<Rightarrow> i32 \<Rightarrow> bool" where
  "is_child s q i \<longleftrightarrow> (\<exists>r \<in> set (runs s). run_id r = i \<and> parent_run r = Some q)"

lemma branch_rows:
  "(j, b, c) \<in> set (worker_pool_branches s q) \<Longrightarrow> is_child s q b \<and> (b, j) \<in> (child_rel (runs s))\<^sup>*"
  by (auto simp: worker_pool_branches_def is_child_def dest: run_tree_child_rel)

lemma branch_row_self: "is_child s q b \<Longrightarrow> \<exists>c. (b, b, c) \<in> set (worker_pool_branches s q)"
  by (cases "length (runs s)") (auto simp: worker_pool_branches_def is_child_def)

text \<open>Below one parent, a child is not below another child.\<close>

lemma branch_unique:
  assumes o: "runs_ordered s" and b: "is_child s q b" and b': "is_child s q b'"
    and path: "(b', b) \<in> (child_rel (runs s))\<^sup>*"
  shows "b' = b"
  using path
proof (cases rule: rtrancl.cases)
  case (rtrancl_into_rtrancl y)
  obtain r where r: "r \<in> set (runs s)" "run_id r = b" "parent_run r = Some q"
    using b by (auto simp: is_child_def)
  obtain r' where "r' \<in> set (runs s)" "run_id r' = b" "parent_run r' = Some y"
    using rtrancl_into_rtrancl by (auto simp: child_rel_def)
  then have "y = q" using r o by (metis (no_types, lifting) distinct_map inj_on_def option.inject runs_ordered_def)
  then have "b' \<le> q" using rtrancl_into_rtrancl child_rel_le o by blast
  moreover have "q < b'" using b' o by (auto simp: is_child_def runs_ordered_def)
  ultimately show ?thesis by simp
qed simp

lemma add_branches_fields [simp]:
  "parent_run_id (add_branches p rows) = parent_run_id p"
  "selected_child_runs (add_branches p rows) = selected_child_runs p"
  by (induction p rows rule: add_branches.induct) simp_all

lemma add_branches_lookup:
  "plan_branches (add_branches p rows) i = plan_branches p i \<and> (\<forall>b c. (i, b, c) \<notin> set rows) \<or>
   (\<exists>b c. (i, b, c) \<in> set rows \<and> plan_branches (add_branches p rows) i = Some b)"
  by (induction p rows rule: add_branches.induct) (auto split: if_splits)

text \<open>The plan a controller with direct children \<open>sel\<close> to serve makes in a store.\<close>

definition plan_in :: "node_store \<Rightarrow> i32 \<Rightarrow> i32 list \<Rightarrow> controller_plan" where
  "plan_in s q sel = add_branches (controller_plan_new q sel) (worker_pool_branches s q)"

lemma plan_in_parent [simp]: "parent_run_id (plan_in s q sel) = q"
  by (simp add: plan_in_def controller_plan_new_def)

lemma plan_in_branches:
  assumes "\<forall>i \<in> set sel. is_child s q i"
  shows "plan_branches (plan_in s q sel) j = None \<and> (\<forall>b c. (j, b, c) \<notin> set (worker_pool_branches s q)) \<or>
    (\<exists>b c. (j, b, c) \<in> set (worker_pool_branches s q) \<and> plan_branches (plan_in s q sel) j = Some b)"
  using add_branches_lookup [of "controller_plan_new q sel" "worker_pool_branches s q" j] assms branch_row_self [of s q j]
  by (auto simp: plan_in_def controller_plan_new_def split: if_splits)

lemma plan_in_child:
  assumes o: "runs_ordered s" and sel: "\<forall>i \<in> set sel. is_child s q i" and b: "is_child s q b"
  shows "plan_branches (plan_in s q sel) b = Some b"
  using plan_in_branches [OF sel, of b] branch_row_self [OF b] branch_rows branch_unique [OF o b] by blast

lemma plan_in_well_formed:
  assumes o: "runs_ordered s" and sel: "\<forall>i \<in> set sel. is_child s q i"
  shows "well_formed_plan (plan_in s q sel)"
proof -
  let ?p = "plan_in s q sel"
  have "plan_branches ?p q = None"
  proof (rule ccontr)
    assume "plan_branches ?p q \<noteq> None"
    then obtain b c where "(q, b, c) \<in> set (worker_pool_branches s q)"
      using plan_in_branches [OF sel, of q] by auto
    then have "is_child s q b" "b \<le> q" using branch_rows child_rel_le o by blast+
    then show False using o by (force simp: is_child_def runs_ordered_def)
  qed
  moreover have "plan_branches ?p b = Some b" if b: "b \<in> ran (plan_branches ?p)" for b
  proof -
    obtain j where "plan_branches ?p j = Some b" using b by (auto simp: ran_def)
    then have "is_child s q b" using plan_in_branches [OF sel, of j] branch_rows by auto
    then show ?thesis by (rule plan_in_child [OF o sel])
  qed
  moreover have "selected_child_runs ?p = sel" by (simp add: plan_in_def controller_plan_new_def)
  ultimately show ?thesis
    using sel plan_in_child [OF o sel] by (simp add: well_formed_plan_def)
qed



subsection \<open>The tick\<close>

definition apply_controller_assignment_plan ::
    "int \<Rightarrow> controller_plan \<Rightarrow> node_store \<Rightarrow> (store_error + bool) \<times> node_store" where
  "apply_controller_assignment_plan now p s =
     (let p = add_branches p (worker_pool_branches s (parent_run_id p))
      in update_desired_assignments now (controller_assignment_updates (list_nodes now None s) p) s)"

text \<open>No two rows of the table carry the identity of a live worker.\<close>

definition live_uuids_unique :: "int \<Rightarrow> node_store \<Rightarrow> bool" where
  "live_uuids_unique now s \<longleftrightarrow>
     (\<forall>a \<in> set (nodes s). \<forall>b \<in> set (nodes s). live now a \<longrightarrow> node_uuid a = node_uuid b \<longrightarrow> same_node a b)"

lemma assignment_diff_filter:
  "distinct (map reg_name ns) \<Longrightarrow>
   assignment_diff p ns D =
     map (\<lambda>n. \<lparr>update_node_uuid = reg_uuid n, expected = desired_assignment n,
                desired = next_assignment p n (D (reg_name n))\<rparr>)
       (filter (\<lambda>n. desired_assignment n \<noteq> next_assignment p n (D (reg_name n))) ns)"
proof (induction p ns D rule: assignment_diff.induct)
  case (2 p n ns des)
  have k: "\<forall>k \<in> set ns. reg_name k \<noteq> reg_name n" using "2.prems"(1) by (auto simp: image_iff)
  have d: "distinct (map reg_name ns)" using "2.prems" by simp
  let ?g = "\<lambda>des n. \<lparr>update_node_uuid = reg_uuid n, expected = desired_assignment n,
                desired = next_assignment p n (des (reg_name n))\<rparr>"
  let ?f = "\<lambda>des n. desired_assignment n \<noteq> next_assignment p n (des (reg_name n))"
  have "filter (?f (des(reg_name n := None))) ns = filter (?f des) ns"
    using k by (intro filter_cong) auto
  moreover have "map (?g (des(reg_name n := None))) (filter (?f des) ns) = map (?g des) (filter (?f des) ns)"
    using k by (intro map_cong) auto
  ultimately have "assignment_diff p ns (des(reg_name n := None)) = map (?g des) (filter (?f des) ns)"
    unfolding "2.IH" [OF refl d] by (simp only:)
  then show ?case by (simp add: Let_def)
qed simp

definition row_update :: "node_assignment_update \<Rightarrow> node_row \<Rightarrow> node_row" where
  "row_update u r = (if node_uuid r = update_node_uuid u then r\<lparr>desired_target := desired u\<rparr> else r)"

lemma row_update_simps [simp]:
  "node_name (fold row_update us r) = node_name r" "live now (fold row_update us r) = live now r"
  "node_uuid (fold row_update us r) = node_uuid r"
  by (induction us arbitrary: r) (simp_all add: row_update_def live_def)

lemma nodes_fold_set_desired: "nodes (fold set_desired us s) = map (fold row_update us) (nodes s)"
proof (induction us arbitrary: s)
  case (Cons u us)
  have "nodes (set_desired u s) = map (row_update u) (nodes s)"
    by (simp add: set_desired_def nodes_update_where row_update_def)
  then show ?case using Cons.IH by simp
qed simp

lemma row_update_none:
  "\<forall>u \<in> set us. update_node_uuid u \<noteq> node_uuid r \<Longrightarrow> fold row_update us r = r"
  by (induction us) (auto simp: row_update_def)

lemma row_update_one:
  "\<forall>u \<in> set us. update_node_uuid u = node_uuid r \<longrightarrow> desired u = v \<Longrightarrow>
   \<exists>u \<in> set us. update_node_uuid u = node_uuid r \<Longrightarrow> fold row_update us r = r\<lparr>desired_target := v\<rparr>"
proof (induction us arbitrary: r)
  case (Cons u us)
  show ?case
  proof (cases "update_node_uuid u = node_uuid r")
    case True
    let ?r = "r\<lparr>desired_target := v\<rparr>"
    have "row_update u r = ?r" using True Cons.prems(1) by (simp add: row_update_def)
    moreover have "fold row_update us ?r = ?r"
    proof (cases "\<exists>u \<in> set us. update_node_uuid u = node_uuid r")
      case True
      then have "fold row_update us ?r = ?r\<lparr>desired_target := v\<rparr>"
        by (intro Cons.IH) (use Cons.prems(1) in auto)
      then show ?thesis by simp
    qed (auto intro: row_update_none)
    ultimately show ?thesis by simp
  next
    case False
    then have "row_update u r = r" by (simp add: row_update_def)
    then show ?thesis using Cons False by auto
  qed
qed simp

lemma sort_key_map: "sort_key f (map g xs) = map g (sort_key (\<lambda>x. f (g x)) xs)"
proof (induction xs)
  case (Cons x xs)
  have "insort_key f (g x) (map g ys) = map g (insort_key (\<lambda>x. f (g x)) x ys)" for ys
    by (induction ys) auto
  then show ?case using Cons.IH by simp
qed simp

lemma live_after_clear: "filter (live now) (nodes (clear_expired_assignments now s)) = filter (live now) (nodes s)"
proof -
  have "filter (live now) (map (\<lambda>r. if \<not> live now r \<and> Q r then h r else r) rs) = filter (live now) rs"
    if "\<And>r. live now (h r) = live now r" for Q h and rs :: "node_row list"
    using that by (induction rs) auto
  then show ?thesis
    unfolding clear_expired_assignments_def nodes_update_where by (simp add: live_def)
qed


text \<open>What a tick that is not refused leaves for the next listing of the nodes.\<close>

lemma list_nodes_names: "names_unique s \<Longrightarrow> distinct (map reg_name (list_nodes now None s))"
proof -
  assume "names_unique s"
  then have "distinct (map node_name (filter (live now) (nodes s)))"
    by (simp add: names_unique_def distinct_map_filter)
  then show ?thesis by (simp add: list_nodes_def registered_def comp_def distinct_map)
qed

lemma list_nodes_set: "set (list_nodes now None s) = registered ` {r \<in> set (nodes s). live now r}"
  by (auto simp: list_nodes_def)

lemma list_nodes_update:
  assumes u: "names_unique s" "live_uuids_unique now s"
  defines "ns \<equiv> list_nodes now None s"
  shows "list_nodes now None
      (fold set_desired (sort_key update_node_uuid (assignment_diff p ns D)) (clear_expired_assignments now s)) =
    map (replaced p D) ns"
proof -
  let ?us = "sort_key update_node_uuid (assignment_diff p ns D)"
  have us: "assignment_diff p ns D =
      map (\<lambda>n. \<lparr>update_node_uuid = reg_uuid n, expected = desired_assignment n,
                 desired = next_assignment p n (D (reg_name n))\<rparr>)
        (filter (\<lambda>n. desired_assignment n \<noteq> next_assignment p n (D (reg_name n))) ns)"
    unfolding ns_def by (rule assignment_diff_filter [OF list_nodes_names [OF u(1)]])
  have own: "registered q = registered r"
    if r: "r \<in> set (nodes s)" "live now r" and q: "q \<in> set (nodes s)" "live now q" "node_uuid q = node_uuid r"
    for q r
  proof -
    have "node_name q = node_name r" using u(2) r q unfolding live_uuids_unique_def same_node_def by metis
    then have "q = r" using u(1) r(1) q(1) by (simp add: names_unique_def distinct_map inj_on_def)
    then show ?thesis by simp
  qed
  have row: "registered (fold row_update ?us r) = replaced p D (registered r)"
    if r: "r \<in> set (nodes s)" "live now r" for r
  proof -
    let ?n = "registered r" and ?v = "next_assignment p (registered r) (D (node_name r))"
    have n: "?n \<in> set ns" using r by (auto simp: ns_def list_nodes_set)
    have same: "desired u = ?v \<and> ?v \<noteq> desired_target r" if uu: "u \<in> set ?us" "update_node_uuid u = node_uuid r" for u
    proof -
      obtain m where m: "m \<in> set ns" "u = \<lparr>update_node_uuid = reg_uuid m, expected = desired_assignment m,
          desired = next_assignment p m (D (reg_name m))\<rparr>"
        "desired_assignment m \<noteq> next_assignment p m (D (reg_name m))"
        using uu(1) by (auto simp: us)
      then obtain q where q: "q \<in> set (nodes s)" "live now q" "m = registered q"
        by (auto simp: ns_def list_nodes_set)
      have "node_uuid q = node_uuid r" using uu(2) m(2) q(3) by (simp add: registered_def)
      then have e: "m = ?n" using own [OF r q(1,2)] q(3) by blast
      have r': "desired_assignment ?n = desired_target r" "reg_name ?n = node_name r"
        by (simp_all add: registered_def)
      have "desired u = ?v" using m(2) unfolding e r' by (simp only: node_assignment_update.select_convs)
      moreover have "desired_target r \<noteq> ?v" using m(3) unfolding e r' .
      ultimately show ?thesis by metis
    qed
    show ?thesis
    proof (cases "desired_target r = ?v")
      case True
      have "fold row_update ?us r = r"
      proof (rule row_update_none, intro ballI notI)
        fix u assume "u \<in> set ?us" "update_node_uuid u = node_uuid r"
        from conjunct2 [OF same [OF this]] True show False by metis
      qed
      then show ?thesis using True by (simp add: replaced_def registered_def)
    next
      case False
      then have "desired_assignment ?n \<noteq> next_assignment p ?n (D (reg_name ?n))"
        by (simp add: registered_def)
      then have "\<exists>u \<in> set ?us. update_node_uuid u = node_uuid r"
        using n by (simp add: us) (force simp: registered_def)
      then have "fold row_update ?us r = r\<lparr>desired_target := ?v\<rparr>"
        by (intro row_update_one ballI impI conjunct1 [OF same])
      then show ?thesis by (simp add: replaced_def registered_def)
    qed
  qed
  have "filter (live now) (map (fold row_update ?us) (nodes (clear_expired_assignments now s))) =
      map (fold row_update ?us) (filter (live now) (nodes s))"
    by (simp add: filter_map comp_def live_after_clear)
  then show ?thesis
    using row by (simp add: list_nodes_def nodes_fold_set_desired sort_key_map comp_def ns_def)
qed

lemma update_accepted:
  assumes "update_desired_assignments now us s = (Inr True, s')" "us \<noteq> []"
  shows "s' = fold set_desired (sort_key update_node_uuid us) (clear_expired_assignments now s)"
  using assms by (auto simp: update_desired_assignments_def Let_def split: if_splits)

text \<open>After an accepted tick the listing is the planned one, whether it changed anything or not.\<close>

lemma tick_listing:
  assumes u: "names_unique s" "live_uuids_unique now s"
    and t: "update_desired_assignments now (controller_assignment_updates (list_nodes now None s) p) s = (Inr True, s')"
  shows "list_nodes now None s' =
    map (replaced p (desired_placements (list_nodes now None s) p)) (list_nodes now None s)"
proof (cases "controller_assignment_updates (list_nodes now None s) p = []")
  case True
  let ?ns = "list_nodes now None s" and ?D = "desired_placements (list_nodes now None s) p"
  have "\<forall>n \<in> set ?ns. next_assignment p n (?D (reg_name n)) = desired_assignment n"
    using True by (simp add: controller_assignment_updates_def assignment_diff_filter [OF list_nodes_names [OF u(1)]]
        filter_empty_conv)
  then have "\<forall>n \<in> set ?ns. replaced p ?D n = n" by (simp add: replaced_def)
  then have "map (replaced p ?D) ?ns = ?ns" by (simp add: map_idI)
  then show ?thesis using t True by (simp add: update_desired_assignments_def)
next
  case False
  then show ?thesis
    using update_accepted [OF t False] list_nodes_update [OF u] by (simp add: controller_assignment_updates_def)
qed



lemma tick_plan:
  "apply_controller_assignment_plan now (controller_plan_new q sel) s =
   update_desired_assignments now (controller_assignment_updates (list_nodes now None s) (plan_in s q sel)) s"
  unfolding apply_controller_assignment_plan_def Let_def plan_in_def
  by (simp only: controller_plan_new_def controller_plan.select_convs)


lemma plan_pool_below:
  assumes "\<forall>i \<in> set sel. is_child s q i" "reusable (plan_in s q sel) (at_level (plan_in s q sel) t)"
  shows "(q, target_run t) \<in> (child_rel (runs s))\<^sup>*"
proof -
  have below: "(q, j) \<in> (child_rel (runs s))\<^sup>*" if j: "plan_branches (plan_in s q sel) j \<noteq> None" for j
  proof -
    obtain b where b: "is_child s q b" "(b, j) \<in> (child_rel (runs s))\<^sup>*"
      using plan_in_branches [OF assms(1), of j] j branch_rows by (metis option.distinct(1))
    then have "(q, b) \<in> child_rel (runs s)" by (auto simp: is_child_def child_rel_def)
    then show ?thesis using b(2) by (rule converse_rtrancl_into_rtrancl)
  qed
  then show ?thesis
    using assms(2) by (cases "plan_branches (plan_in s q sel) (target_run t)") (auto simp: reusable_def at_level_def)
qed


subsection \<open>Properties of the tick\<close>

text \<open>C10. The controller settles: once a tick of a controller has been accepted, in any
  reachable state of the control plane and while no other worker carries the identity of a
  live one, the next tick with the same children finds nothing to change. It neither
  moves a worker back and forth nor writes to the store.\<close>

theorem controller_tick_is_stable:
  assumes "nodes_reachable s" "live_uuids_unique now s"
    and "\<forall>i \<in> set sel. is_child s q i"
    and "apply_controller_assignment_plan now (controller_plan_new q sel) s = (Inr True, s')"
  shows "apply_controller_assignment_plan now (controller_plan_new q sel) s' = (Inr True, s')"
proof -
  have inv: "names_unique s" "runs_ordered s" using reachable_store [OF assms(1)] by (simp_all add: store_inv_def)
  let ?p = "plan_in s q sel" and ?ns = "list_nodes now None s"
  have tick: "update_desired_assignments now (controller_assignment_updates ?ns ?p) s = (Inr True, s')"
    using assms(4) unfolding tick_plan .
  have runs: "runs s' = runs s"
    using arg_cong [OF tick, of "\<lambda>x. runs (snd x)"]
    by (simp add: update_desired_assignments_def Let_def split: if_splits)
  then have p': "plan_in s' q sel = ?p" by (simp add: plan_in_def worker_pool_branches_def)
  have "controller_assignment_updates (list_nodes now None s') ?p = []"
    unfolding tick_listing [OF inv(1) assms(2) tick]
    by (rule replanning_changes_nothing [OF list_nodes_names [OF inv(1)] plan_in_well_formed [OF inv(2) assms(3)]])
  then show ?thesis unfolding tick_plan p' by (simp add: update_desired_assignments_def)
qed




end
