(* ===== verification/Controller_Demo.thy ===== *)
theory Controller_Demo
  imports Controller_Tick
begin

section \<open>A campaign with two children\<close>

text \<open>
  A concrete control plane on which the properties of the tick apply: a campaign (run 1)
  with the children 2 and 3, an unrelated run 4, and four registered workers, three of
  them in the campaign's pool.
\<close>

definition demo_run :: "i32 \<Rightarrow> i32 option \<Rightarrow> string option \<Rightarrow> run_row" where
  "demo_run i q k = \<lparr>run_id = i, parent_run = q, parent_task = None, run_kind = k\<rparr>"

definition demo_empty :: node_store where
  "demo_empty = \<lparr>nodes = [], runs = [], launches = [], externals = [], max_connections = 100,
     reserved_connections = 3\<rparr>"

definition demo_runs :: node_store where
  "demo_runs = demo_empty\<lparr>runs := [demo_run 1 None (Some ''integration_campaign''), demo_run 2 (Some 1) None,
     demo_run 3 (Some 1) None, demo_run 4 None None]\<rparr>"

definition demo_nodes :: node_store where
  "demo_nodes =
     snd (announce_node True 0 ''d'' ''ud'' (snd (announce_node True 0 ''c'' ''uc''
       (snd (announce_node True 0 ''b'' ''ub'' (snd (announce_node True 0 ''a'' ''ua'' demo_runs)))))))"

definition demo_store :: node_store where
  "demo_store =
     snd (assign_worker_pool 1 ''d'' Evaluator 4 (snd (assign_worker_pool 1 ''c'' Evaluator 1
       (snd (assign_worker_pool 1 ''b'' Evaluator 1 (snd (assign_worker_pool 1 ''a'' SamplerAggregator 1 demo_nodes)))))))"

lemma demo_runs_reachable: "nodes_reachable demo_runs"
proof -
  have "nodes_reachable demo_empty" by (rule nodes_reachable.empty) (simp_all add: demo_empty_def)
  note this [THEN nodes_reachable.step, OF create_run, of "demo_run 1 None (Some ''integration_campaign'')"]
  then have "nodes_reachable (demo_empty\<lparr>runs := [demo_run 1 None (Some ''integration_campaign'')]\<rparr>)"
    by (simp add: demo_empty_def demo_run_def)
  note this [THEN nodes_reachable.step, OF create_run, of "demo_run 2 (Some 1) None"]
  then have "nodes_reachable (demo_empty\<lparr>runs := [demo_run 1 None (Some ''integration_campaign''),
      demo_run 2 (Some 1) None]\<rparr>)"
    by (simp add: demo_empty_def demo_run_def)
  note this [THEN nodes_reachable.step, OF create_run, of "demo_run 3 (Some 1) None"]
  then have "nodes_reachable (demo_empty\<lparr>runs := [demo_run 1 None (Some ''integration_campaign''),
      demo_run 2 (Some 1) None, demo_run 3 (Some 1) None]\<rparr>)"
    by (simp add: demo_empty_def demo_run_def)
  note this [THEN nodes_reachable.step, OF create_run, of "demo_run 4 None None"]
  then show ?thesis
    by (simp add: demo_runs_def demo_empty_def demo_run_def)
qed

lemma demo_reachable: "nodes_reachable demo_store"
  unfolding demo_store_def demo_nodes_def
  by (intro demo_runs_reachable [THEN nodes_reachable.step] nodes_reachable.step [OF _ announce]
      nodes_reachable.step [OF _ assign] announce demo_runs_reachable)

lemma demo_evaluated:
  "nodes demo_store =
    [\<lparr>node_name = ''a'', node_uuid = ''ua'', lease_expires_at = 10, last_seen = Some 0,
      pool_target = Some \<lparr>target_role = SamplerAggregator, target_run = 1\<rparr>,
      desired_target = Some \<lparr>target_role = SamplerAggregator, target_run = 1\<rparr>, active_target = None,
      shutdown_requested = False, resume_requested = False, launch_request = None\<rparr>,
     \<lparr>node_name = ''b'', node_uuid = ''ub'', lease_expires_at = 10, last_seen = Some 0,
      pool_target = Some \<lparr>target_role = Evaluator, target_run = 1\<rparr>,
      desired_target = Some \<lparr>target_role = Evaluator, target_run = 1\<rparr>, active_target = None,
      shutdown_requested = False, resume_requested = False, launch_request = None\<rparr>,
     \<lparr>node_name = ''c'', node_uuid = ''uc'', lease_expires_at = 10, last_seen = Some 0,
      pool_target = Some \<lparr>target_role = Evaluator, target_run = 1\<rparr>,
      desired_target = Some \<lparr>target_role = Evaluator, target_run = 1\<rparr>, active_target = None,
      shutdown_requested = False, resume_requested = False, launch_request = None\<rparr>,
     \<lparr>node_name = ''d'', node_uuid = ''ud'', lease_expires_at = 10, last_seen = Some 0,
      pool_target = Some \<lparr>target_role = Evaluator, target_run = 4\<rparr>,
      desired_target = Some \<lparr>target_role = Evaluator, target_run = 4\<rparr>, active_target = None,
      shutdown_requested = False, resume_requested = False, launch_request = None\<rparr>]"
  by code_simp

lemma demo_live_unique: "live_uuids_unique 1 demo_store"
  by code_simp

lemma demo_children: "\<forall>i \<in> set [2, 3]. is_child demo_store 1 i"
  by code_simp

definition demo_after :: node_store where
  "demo_after = snd (apply_controller_assignment_plan 1 (controller_plan_new 1 [2, 3]) demo_store)"

lemma demo_tick:
  "apply_controller_assignment_plan 1 (controller_plan_new 1 [2, 3]) demo_store = (Inr True, demo_after)"
proof -
  have "fst (apply_controller_assignment_plan 1 (controller_plan_new 1 [2, 3]) demo_store) = Inr True"
    by code_simp
  then show ?thesis by (simp add: demo_after_def prod_eq_iff)
qed


theorem control_plane_invariant_witness:
  "names_unique demo_store \<and> one_active_sampler demo_store \<and> one_pool_sampler demo_store"
  by (rule control_plane_invariant [OF demo_reachable])

theorem controller_tick_is_stable_witness:
  "apply_controller_assignment_plan 1 (controller_plan_new 1 [2, 3]) demo_after = (Inr True, demo_after)"
  by (rule controller_tick_is_stable [OF demo_reachable demo_live_unique demo_children demo_tick])


definition demo_sampler :: "i32 \<Rightarrow> registered_node" where
  "demo_sampler i = \<lparr>reg_name = ''a'', reg_uuid = ''ua'',
     pool_assignment = Some \<lparr>target_role = SamplerAggregator, target_run = 1\<rparr>,
     desired_assignment = Some \<lparr>target_role = SamplerAggregator, target_run = i\<rparr>, current_assignment = None\<rparr>"

lemma demo_sampler_before: "demo_sampler 1 \<in> set (list_nodes 1 None demo_store)"
  by code_simp

lemma demo_sampler_after: "demo_sampler 2 \<in> set (list_nodes 1 None demo_after)"
  by code_simp


end
