(* ===== verification/Task_Store.thy ===== *)
theory Task_Store
  imports Task_Spec Node_Store
begin

section \<open>The store of run tasks\<close>

text \<open>
  The table of tasks of \<open>src/stores/queries/tasks.rs\<close>, the sample budgets of
  \<open>src/stores/queries/campaign_budget.rs\<close>, and the operations on them. A run works off
  its tasks in the order of their sequence numbers, at most one of them active; the
  database enforces this, unique names and the order of the counters by constraints,
  which appear here as errors. Accounting of CPU time and the TOML text of a task are
  left out. Sums of counters are taken in the integers.
\<close>

record ('e, 't, 'p, 'm, 'o) task_row =
  task_id :: i64
  task_run :: i32
  task_name :: string
  sequence_nr :: i32
  task_spec :: "('e, 't, 'p) run_task_spec"
  spawned_from :: "i64 option"
  task_state :: run_task_state
  nr_produced_samples :: i64
  nr_completed_samples :: i64
  failure_reason :: "string option"
  started_at :: "int option"
  completed_at :: "int option"
  failed_at :: "int option"
  measurement_out :: "'m option"
  controller_out :: "'o option"

record budget_row =
  child_run :: i32
  campaign_task :: i64
  granted_samples :: i64

text \<open>\<open>live_observables\<close> are the runs whose \<open>current_observable\<close> is set; \<open>next_id\<close> is the serial column.\<close>

record ('e, 't, 'p, 'm, 'o) task_store =
  tasks :: "('e, 't, 'p, 'm, 'o) task_row list"
  next_id :: i64
  task_runs :: "run_row list"
  live_observables :: "i32 list"
  budgets :: "budget_row list"

definition update_tasks ::
    "(('e, 't, 'p, 'm, 'o) task_row \<Rightarrow> bool) \<Rightarrow> (('e, 't, 'p, 'm, 'o) task_row \<Rightarrow> ('e, 't, 'p, 'm, 'o) task_row)
     \<Rightarrow> ('e, 't, 'p, 'm, 'o) task_store \<Rightarrow> ('e, 't, 'p, 'm, 'o) task_store" where
  "update_tasks q f s = s\<lparr>tasks := map (\<lambda>r. if q r then f r else r) (tasks s)\<rparr>"

fun find_task :: "('e, 't, 'p, 'm, 'o) task_row list \<Rightarrow> i64 \<Rightarrow> ('e, 't, 'p, 'm, 'o) task_row option" where
  "find_task [] i = None"
| "find_task (r # rs) i = (if task_id r = i then Some r else find_task rs i)"

definition tasks_of_run :: "i32 \<Rightarrow> ('e, 't, 'p, 'm, 'o) task_store \<Rightarrow> ('e, 't, 'p, 'm, 'o) task_row list" where
  "tasks_of_run i s = filter (\<lambda>r. task_run r = i) (tasks s)"

definition list_run_tasks :: "i32 \<Rightarrow> ('e, 't, 'p, 'm, 'o) task_store \<Rightarrow> ('e, 't, 'p, 'm, 'o) task_row list" where
  "list_run_tasks i s = sort_key (\<lambda>r. sequence_nr r) (sort_key task_id (tasks_of_run i s))"

definition load_run_task :: "i64 \<Rightarrow> ('e, 't, 'p, 'm, 'o) task_store \<Rightarrow> ('e, 't, 'p, 'm, 'o) task_row option" where
  "load_run_task i s = find_task (tasks s) i"

definition load_active_run_task :: "i32 \<Rightarrow> ('e, 't, 'p, 'm, 'o) task_store \<Rightarrow> ('e, 't, 'p, 'm, 'o) task_row option" where
  "load_active_run_task i s =
     (case filter (\<lambda>r. task_state r = TaskActive) (tasks_of_run i s) of [] \<Rightarrow> None | r # _ \<Rightarrow> Some r)"

definition produced_by_run :: "i32 \<Rightarrow> ('e, 't, 'p, 'm, 'o) task_store \<Rightarrow> i64" where
  "produced_by_run i s = sum_list (map nr_produced_samples (tasks_of_run i s))"


subsection \<open>The queue of a run\<close>

definition next_sequence :: "i32 \<Rightarrow> ('e, 't, 'p, 'm, 'o) task_store \<Rightarrow> i32" where
  "next_sequence i s =
     (case map sequence_nr (tasks_of_run i s) of [] \<Rightarrow> 0 | n # ns \<Rightarrow> fold max ns n) + 1"

definition new_task ::
    "i64 \<Rightarrow> i32 \<Rightarrow> string \<Rightarrow> i32 \<Rightarrow> ('e, 't, 'p) run_task_spec \<Rightarrow> ('e, 't, 'p, 'm, 'o) task_row" where
  "new_task i run name n spec =
     \<lparr>task_id = i, task_run = run, task_name = name, sequence_nr = n, task_spec = spec, spawned_from = None,
      task_state = TaskPending, nr_produced_samples = 0, nr_completed_samples = 0, failure_reason = None,
      started_at = None, completed_at = None, failed_at = None, measurement_out = None, controller_out = None\<rparr>"

definition name_taken :: "i32 \<Rightarrow> string \<Rightarrow> ('e, 't, 'p, 'm, 'o) task_store \<Rightarrow> bool" where
  "name_taken run name s = list_ex (\<lambda>r. task_run r = run \<and> task_name r = name) (tasks s)"

fun append_in_transaction ::
    "i32 \<Rightarrow> i32 \<Rightarrow> ('e, 't, 'p) run_task_input list \<Rightarrow> ('e, 't, 'p, 'm, 'o) task_store
     \<Rightarrow> store_error + ('e, 't, 'p, 'm, 'o) task_row list \<times> ('e, 't, 'p, 'm, 'o) task_store" where
  "append_in_transaction run n [] s = Inr ([], s)"
| "append_in_transaction run n (i # is) s =
     (let name = (case input_name i of Some x \<Rightarrow> x | None \<Rightarrow> generated_task_name (input_task i) n);
          row = new_task (next_id s) run name n (input_task i)
      in if name_taken run name s then Inl (StoreInvalidInput ''task name must be unique within a run'')
         else and_then (append_in_transaction run (n + 1) is
                (s\<lparr>tasks := tasks s @ [row], next_id := next_id s + 1\<rparr>))
              (\<lambda>(rows, s'). Inr (row # rows, s')))"

definition append_run_tasks ::
    "i32 \<Rightarrow> ('e, 't, 'p) run_task_input list \<Rightarrow> ('e, 't, 'p, 'm, 'o) task_store
     \<Rightarrow> (store_error + ('e, 't, 'p, 'm, 'o) task_row list) \<times> ('e, 't, 'p, 'm, 'o) task_store" where
  "append_run_tasks run is s =
     (if find_run (task_runs s) run = None then (Inl (Database ''no rows returned''), s)
      else case append_in_transaction run (next_sequence run s) is s of
        Inl e \<Rightarrow> (Inl e, s) | Inr (rows, s') \<Rightarrow> (Inr rows, s'))"

definition remove_pending_run_task ::
    "i32 \<Rightarrow> i64 \<Rightarrow> ('e, 't, 'p, 'm, 'o) task_store \<Rightarrow> bool \<times> ('e, 't, 'p, 'm, 'o) task_store" where
  "remove_pending_run_task run i s =
     (let hit = (\<lambda>r. task_id r = i \<and> task_run r = run \<and> task_state r = TaskPending)
      in (list_ex hit (tasks s), s\<lparr>tasks := filter (\<lambda>r. \<not> hit r) (tasks s)\<rparr>))"

definition update_run_task_queue_tuning ::
    "(f64 \<Rightarrow> f64) \<Rightarrow> i32 \<Rightarrow> i64 \<Rightarrow> sampler_queue_tuning option \<Rightarrow> ('e, 't, 'p, 'm, 'o) task_store
     \<Rightarrow> (store_error + ('e, 't, 'p, 'm, 'o) task_row) \<times> ('e, 't, 'p, 'm, 'o) task_store" where
  "update_run_task_queue_tuning sqrt_f run i tuning s =
     (case find_task (tasks s) i of
        None \<Rightarrow> (Inl (Database ''run task not found for update''), s)
      | Some r \<Rightarrow>
          if task_run r \<noteq> run then (Inl (Database ''run task belongs to another run''), s)
          else if task_state r \<notin> {TaskPending, TaskActive}
          then (Inl (Database ''run task cannot be updated in its state''), s)
          else case and_then (set_sample_queue_tuning (task_spec r) tuning)
                      (\<lambda>spec. and_then (spec_validate sqrt_f spec) (\<lambda>_. Inr spec)) of
            Inl e \<Rightarrow> (Inl (Database e), s)
          | Inr spec \<Rightarrow> (Inr (r\<lparr>task_spec := spec\<rparr>),
              update_tasks (\<lambda>q. task_id q = i \<and> task_run q = run \<and> task_state q \<in> {TaskPending, TaskActive})
                (\<lambda>q. q\<lparr>task_spec := spec\<rparr>) s))"

text \<open>
  An edit of the queue is accepted only against the queue the client saw, and only on
  pending work.
\<close>

datatype ('e, 't, 'p) task_queue_change =
    Append "('e, 't, 'p) run_task_input list"
  | Replace i64 "('e, 't, 'p) run_task_input"
  | Remove i64

definition same_definition :: "('e, 't, 'p, 'm, 'o) task_row \<Rightarrow> ('e, 't, 'p, 'm, 'o) task_row \<Rightarrow> bool" where
  "same_definition a b \<longleftrightarrow> task_id a = task_id b \<and> task_name a = task_name b \<and>
     sequence_nr a = sequence_nr b \<and> task_spec a = task_spec b"

definition pending_in :: "i32 \<Rightarrow> i64 \<Rightarrow> ('e, 't, 'p, 'm, 'o) task_store \<Rightarrow> bool" where
  "pending_in run i s = list_ex (\<lambda>r. task_id r = i \<and> task_state r = TaskPending) (tasks_of_run run s)"

definition apply_task_queue_change ::
    "i32 \<Rightarrow> ('e, 't, 'p, 'm, 'o) task_row list \<Rightarrow> ('e, 't, 'p) task_queue_change \<Rightarrow> ('e, 't, 'p, 'm, 'o) task_store
     \<Rightarrow> (store_error + ('e, 't, 'p, 'm, 'o) task_row list) \<times> ('e, 't, 'p, 'm, 'o) task_store" where
  "apply_task_queue_change run seen change s =
     (if find_run (task_runs s) run = None then (Inl (Database ''no rows returned''), s)
      else if \<not> list_all2 same_definition (list_run_tasks run s) seen
      then (Inl (StoreInvalidInput ''task queue changed; reload it before retrying''), s)
      else case change of
        Append is \<Rightarrow>
          (case append_in_transaction run (next_sequence run s) is s of
             Inl e \<Rightarrow> (Inl e, s) | Inr (rows, s') \<Rightarrow> (Inr rows, s'))
      | Replace i input \<Rightarrow>
          if \<not> pending_in run i s
          then (Inl (StoreInvalidInput ''only pending tasks can be changed; reload the task queue''), s)
          else (case input_name input of
             None \<Rightarrow> (Inl (Database ''null value in column name''), s)
           | Some name \<Rightarrow>
               if list_ex (\<lambda>r. task_run r = run \<and> task_name r = name \<and> task_id r \<noteq> i) (tasks s)
               then (Inl (StoreInvalidInput ''task name must be unique within a run''), s)
               else let hit = (\<lambda>r. task_run r = run \<and> task_id r = i);
                        f = (\<lambda>r. r\<lparr>task_name := name, task_spec := input_task input\<rparr>)
                    in (Inr (map f (filter hit (tasks s))), update_tasks hit f s))
      | Remove i \<Rightarrow>
          if \<not> pending_in run i s
          then (Inl (StoreInvalidInput ''only pending tasks can be changed; reload the task queue''), s)
          else (Inr [], s\<lparr>tasks := filter (\<lambda>r. \<not> (task_run r = run \<and> task_id r = i)) (tasks s)\<rparr>))"


subsection \<open>The life of a task\<close>

text \<open>
  The first pending task becomes active; the unique index refuses a second active task.
  A stage on a sampler worker starts without a live observable.
\<close>

definition activate_next_run_task ::
    "int \<Rightarrow> i32 \<Rightarrow> ('e, 't, 'p, 'm, 'o) task_store
     \<Rightarrow> (store_error + ('e, 't, 'p, 'm, 'o) task_row option) \<times> ('e, 't, 'p, 'm, 'o) task_store" where
  "activate_next_run_task now run s =
     (case filter (\<lambda>r. task_state r = TaskPending) (list_run_tasks run s) of
        [] \<Rightarrow> (Inr None, s)
      | r # _ \<Rightarrow>
          if load_active_run_task run s \<noteq> None then (Inl (Database ''duplicate active task''), s)
          else let f = (\<lambda>q. q\<lparr>task_state := TaskActive,
                             started_at := (case started_at q of None \<Rightarrow> Some now | t \<Rightarrow> t)\<rparr>);
                   s' = update_tasks (\<lambda>q. task_id q = task_id r) f s
               in (Inr (Some (f r)),
                   if runs_on_sampler_worker (task_spec r)
                   then s'\<lparr>live_observables := filter (\<lambda>i. i \<noteq> run) (live_observables s')\<rparr> else s'))"

definition progress_ok :: "i64 \<Rightarrow> i64 \<Rightarrow> bool" where
  "progress_ok produced completed \<longleftrightarrow> 0 \<le> produced \<and> 0 \<le> completed \<and> completed \<le> produced"

definition update_run_task_progress ::
    "i64 \<Rightarrow> i64 \<Rightarrow> i64 \<Rightarrow> ('e, 't, 'p, 'm, 'o) task_store
     \<Rightarrow> (store_error + unit) \<times> ('e, 't, 'p, 'm, 'o) task_store" where
  "update_run_task_progress i produced completed s =
     (let hit = (\<lambda>r. task_id r = i \<and> task_state r = TaskActive)
      in if list_ex hit (tasks s) \<and> \<not> progress_ok produced completed
         then (Inl (Database ''check constraint run_tasks_progress_check''), s)
         else (Inr (), update_tasks hit
                (\<lambda>r. r\<lparr>nr_produced_samples := produced, nr_completed_samples := completed\<rparr>) s))"

definition set_run_task_spawn_origin ::
    "i64 \<Rightarrow> i64 option \<Rightarrow> ('e, 't, 'p, 'm, 'o) task_store \<Rightarrow> ('e, 't, 'p, 'm, 'o) task_store" where
  "set_run_task_spawn_origin i origin = update_tasks (\<lambda>r. task_id r = i) (\<lambda>r. r\<lparr>spawned_from := origin\<rparr>)"

definition complete_run_task :: "int \<Rightarrow> i64 \<Rightarrow> ('e, 't, 'p, 'm, 'o) task_store \<Rightarrow> ('e, 't, 'p, 'm, 'o) task_store" where
  "complete_run_task now i =
     update_tasks (\<lambda>r. task_id r = i \<and> task_state r = TaskActive)
       (\<lambda>r. r\<lparr>task_state := TaskCompleted, completed_at := Some now, failure_reason := None, failed_at := None\<rparr>)"

definition fail_run_task ::
    "int \<Rightarrow> i64 \<Rightarrow> string \<Rightarrow> ('e, 't, 'p, 'm, 'o) task_store \<Rightarrow> ('e, 't, 'p, 'm, 'o) task_store" where
  "fail_run_task now i reason =
     update_tasks (\<lambda>r. task_id r = i \<and> task_state r \<in> {TaskPending, TaskActive})
       (\<lambda>r. r\<lparr>task_state := TaskFailed, failure_reason := Some reason, failed_at := Some now\<rparr>)"

definition persist_task_measurement_output ::
    "i64 \<Rightarrow> 'm \<Rightarrow> ('e, 't, 'p, 'm, 'o) task_store \<Rightarrow> ('e, 't, 'p, 'm, 'o) task_store" where
  "persist_task_measurement_output i out = update_tasks (\<lambda>r. task_id r = i) (\<lambda>r. r\<lparr>measurement_out := Some out\<rparr>)"

definition persist_task_controller_output ::
    "i64 \<Rightarrow> 'o \<Rightarrow> ('e, 't, 'p, 'm, 'o) task_store \<Rightarrow> ('e, 't, 'p, 'm, 'o) task_store" where
  "persist_task_controller_output i out = update_tasks (\<lambda>r. task_id r = i) (\<lambda>r. r\<lparr>controller_out := Some out\<rparr>)"


subsection \<open>Campaign budgets\<close>

text \<open>The cap of a campaign; a campaign without one reserves bounded quanta too.\<close>

fun campaign_cap :: "('e, 't, 'p) run_task_spec \<Rightarrow> i64 option" where
  "campaign_cap (IntegrationCampaign cs m stop a) =
     Some (case max_total_samples stop of None \<Rightarrow> i64_max | Some n \<Rightarrow> n)"
| "campaign_cap _ = None"

definition seed_budgets :: "i64 \<Rightarrow> ('e, 't, 'p, 'm, 'o) task_store \<Rightarrow> budget_row list" where
  "seed_budgets i s =
     budgets s @ map (\<lambda>r. \<lparr>child_run = run_id r, campaign_task = i, granted_samples = produced_by_run (run_id r) s\<rparr>)
       (filter (\<lambda>r. parent_task r = Some i \<and> \<not> list_ex (\<lambda>b. child_run b = run_id r) (budgets s)) (task_runs s))"

definition drained :: "i32 \<Rightarrow> ('e, 't, 'p, 'm, 'o) task_store \<Rightarrow> bool" where
  "drained run s = list_all (\<lambda>r. task_state r = TaskCompleted) (tasks_of_run run s)"

text \<open>Completed children give back what they did not use.\<close>

definition reuse_budgets :: "i64 \<Rightarrow> ('e, 't, 'p, 'm, 'o) task_store \<Rightarrow> budget_row list \<Rightarrow> budget_row list" where
  "reuse_budgets i s bs =
     map (\<lambda>b. if campaign_task b = i \<and> drained (child_run b) s
              then b\<lparr>granted_samples := produced_by_run (child_run b) s\<rparr> else b) bs"

fun checked_total :: "i64 \<Rightarrow> i64 list \<Rightarrow> i64 option" where
  "checked_total acc [] = Some acc"
| "checked_total acc (n # ns) =
     (case checked_add_i64 acc n of None \<Rightarrow> None | Some t \<Rightarrow> checked_total t ns)"

definition grant_of :: "i64 \<Rightarrow> budget_row list \<Rightarrow> i32 \<Rightarrow> i64 option" where
  "grant_of i bs c =
     (case filter (\<lambda>b. campaign_task b = i \<and> child_run b = c) bs of [] \<Rightarrow> None | b # _ \<Rightarrow> Some (granted_samples b))"

definition set_grant :: "i32 \<Rightarrow> i64 \<Rightarrow> budget_row list \<Rightarrow> budget_row list" where
  "set_grant c n bs = map (\<lambda>b. if child_run b = c then b\<lparr>granted_samples := n\<rparr> else b) bs"

fun grant_requests :: "i64 \<Rightarrow> i64 \<Rightarrow> (i32 \<times> i64) list \<Rightarrow> budget_row list \<Rightarrow> store_error + budget_row list" where
  "grant_requests i remaining [] bs = Inr bs"
| "grant_requests i remaining ((c, wanted) # rs) bs =
     (case grant_of i bs c of
        None \<Rightarrow> Inl (Database ''budget request is not for a campaign child'')
      | Some g \<Rightarrow>
          let extra = min (max (saturating_sub_i64 wanted g) 0) remaining
          in if extra = 0 then grant_requests i remaining rs bs
             else grant_requests i (remaining - extra) rs (set_grant c (g + extra) bs))"

definition campaign_grants :: "i64 \<Rightarrow> budget_row list \<Rightarrow> (i32 \<times> i64) list" where
  "campaign_grants i bs = map (\<lambda>b. (child_run b, granted_samples b)) (filter (\<lambda>b. campaign_task b = i) bs)"

definition allocate_campaign_samples ::
    "i64 \<Rightarrow> (i32 \<times> i64) list \<Rightarrow> ('e, 't, 'p, 'm, 'o) task_store
     \<Rightarrow> (store_error + (i32 \<times> i64) list) \<times> ('e, 't, 'p, 'm, 'o) task_store" where
  "allocate_campaign_samples i requests s =
     (case find_task (tasks s) i of
        None \<Rightarrow> (Inl (Database ''no rows returned''), s)
      | Some r \<Rightarrow> (case campaign_cap (task_spec r) of
          None \<Rightarrow> (Inl (Database ''no rows returned''), s)
        | Some cap \<Rightarrow>
            let bs = reuse_budgets i s (seed_budgets i s) in
            (case checked_total 0 (map snd (campaign_grants i bs)) of
               None \<Rightarrow> (Inl (Database ''campaign sample accounting overflow''), s)
             | Some t \<Rightarrow>
                 if t > cap
                 then (Inl (Database ''campaign has already produced more than its sample cap''), s)
                 else case (if task_state r = TaskActive then grant_requests i (cap - t) requests bs else Inr bs) of
                   Inl e \<Rightarrow> (Inl e, s)
                 | Inr bs' \<Rightarrow> (Inr (campaign_grants i bs'), s\<lparr>budgets := bs'\<rparr>))))"

text \<open>What a child of a campaign may still produce in the task \<open>i\<close>; other runs have no limit.\<close>

definition campaign_sample_allowance :: "i32 \<Rightarrow> i64 \<Rightarrow> ('e, 't, 'p, 'm, 'o) task_store \<Rightarrow> i64 option" where
  "campaign_sample_allowance run i s =
     (case find_run (task_runs s) run of None \<Rightarrow> None
      | Some r \<Rightarrow> (case parent_task r of None \<Rightarrow> None
        | Some p \<Rightarrow> (case find_task (tasks s) p of None \<Rightarrow> None
          | Some q \<Rightarrow>
              if campaign_cap (task_spec q) = None then None
              else Some ((case filter (\<lambda>b. child_run b = run) (budgets s) of [] \<Rightarrow> 0 | b # _ \<Rightarrow> granted_samples b)
                     - sum_list (map nr_produced_samples (filter (\<lambda>t. task_id t \<noteq> i) (tasks_of_run run s)))))))"

end
