(* ===== verification/Task_Laws.thy ===== *)
theory Task_Laws
  imports Task_Store
begin

section \<open>Laws of the task store\<close>

text \<open>
  What every sequence of operations on the tasks keeps: unique keys, one active task per
  run, ordered counters; what is final once a task has finished; the order of activation;
  and the cap on what a campaign grants.
\<close>

definition task_key :: "('e, 't, 'p, 'm, 'o) task_row \<Rightarrow> i32 \<times> string" where
  "task_key r = (task_run r, task_name r)"

definition task_slot :: "('e, 't, 'p, 'm, 'o) task_row \<Rightarrow> i32 \<times> i32" where
  "task_slot r = (task_run r, sequence_nr r)"

definition keys_unique :: "('e, 't, 'p, 'm, 'o) task_store \<Rightarrow> bool" where
  "keys_unique s \<longleftrightarrow> distinct (map task_id (tasks s)) \<and> distinct (map task_key (tasks s)) \<and>
     distinct (map task_slot (tasks s)) \<and> list_all (\<lambda>r. task_id r < next_id s) (tasks s)"

definition same_task :: "('e, 't, 'p, 'm, 'o) task_row \<Rightarrow> ('e, 't, 'p, 'm, 'o) task_row \<Rightarrow> bool" where
  "same_task a b \<longleftrightarrow> task_id a = task_id b"

definition one_active_task :: "('e, 't, 'p, 'm, 'o) task_store \<Rightarrow> bool" where
  "one_active_task s \<longleftrightarrow>
     (\<forall>a \<in> set (tasks s). \<forall>b \<in> set (tasks s). task_state a = TaskActive \<longrightarrow> task_state b = TaskActive \<longrightarrow>
        task_run a = task_run b \<longrightarrow> same_task a b)"

definition counters_ordered :: "('e, 't, 'p, 'm, 'o) task_store \<Rightarrow> bool" where
  "counters_ordered s \<longleftrightarrow> list_all (\<lambda>r. progress_ok (nr_produced_samples r) (nr_completed_samples r)) (tasks s)"

definition budgets_unique :: "('e, 't, 'p, 'm, 'o) task_store \<Rightarrow> bool" where
  "budgets_unique s \<longleftrightarrow> distinct (map child_run (budgets s)) \<and> distinct (map run_id (task_runs s))"

definition task_inv :: "('e, 't, 'p, 'm, 'o) task_store \<Rightarrow> bool" where
  "task_inv s \<longleftrightarrow> keys_unique s \<and> one_active_task s \<and> counters_ordered s \<and> budgets_unique s"

text \<open>Deleting runs removes their tasks and the budgets that refer to them.\<close>

definition delete_runs :: "i32 list \<Rightarrow> ('e, 't, 'p, 'm, 'o) task_store \<Rightarrow> ('e, 't, 'p, 'm, 'o) task_store" where
  "delete_runs gone s =
     s\<lparr>tasks := filter (\<lambda>r. task_run r \<notin> set gone) (tasks s),
       task_runs := filter (\<lambda>r. run_id r \<notin> set gone) (task_runs s),
       budgets := filter (\<lambda>b. child_run b \<notin> set gone \<and>
         \<not> list_ex (\<lambda>r. task_id r = campaign_task b \<and> task_run r \<in> set gone) (tasks s)) (budgets s)\<rparr>"

inductive task_step :: "('e, 't, 'p, 'm, 'o) task_store \<Rightarrow> ('e, 't, 'p, 'm, 'o) task_store \<Rightarrow> bool" where
  append: "task_step s (snd (append_run_tasks run is s))"
| remove: "task_step s (snd (remove_pending_run_task run i s))"
| tune: "task_step s (snd (update_run_task_queue_tuning sqrt_f run i tuning s))"
| edit: "task_step s (snd (apply_task_queue_change run seen change s))"
| activate: "task_step s (snd (activate_next_run_task now run s))"
| progress: "task_step s (snd (update_run_task_progress i produced completed s))"
| origin: "task_step s (set_run_task_spawn_origin i org s)"
| complete: "task_step s (complete_run_task now i s)"
| fail: "task_step s (fail_run_task now i reason s)"
| measurement: "task_step s (persist_task_measurement_output i m s)"
| controller: "task_step s (persist_task_controller_output i out s)"
| allocate: "task_step s (snd (allocate_campaign_samples i requests s))"
| observe: "task_step s (s\<lparr>live_observables := obs\<rparr>)"
| create: "find_run (task_runs s) (run_id r) = None \<Longrightarrow> task_step s (s\<lparr>task_runs := task_runs s @ [r]\<rparr>)"
| delete: "task_step s (delete_runs gone s)"

inductive tasks_reachable :: "('e, 't, 'p, 'm, 'o) task_store \<Rightarrow> bool" where
  empty: "tasks s = [] \<Longrightarrow> task_runs s = [] \<Longrightarrow> budgets s = [] \<Longrightarrow> tasks_reachable s"
| step: "tasks_reachable s \<Longrightarrow> task_step s s' \<Longrightarrow> tasks_reachable s'"

lemma tasks_update_tasks [simp]:
  "tasks (update_tasks q f s) = map (\<lambda>r. if q r then f r else r) (tasks s)"
  "next_id (update_tasks q f s) = next_id s" "budgets (update_tasks q f s) = budgets s"
  "task_runs (update_tasks q f s) = task_runs s" "live_observables (update_tasks q f s) = live_observables s"
  by (simp_all add: update_tasks_def)

text \<open>Updates in place that keep the keys and activate nothing.\<close>

lemma one_active_kept:
  assumes one: "one_active_task s" and s': "tasks s' = map f (tasks s)"
    and f: "\<And>r. task_id (f r) = task_id r" "\<And>r. task_run (f r) = task_run r"
    and act: "\<And>r. task_state (f r) = TaskActive \<Longrightarrow> task_state r = TaskActive"
  shows "one_active_task s'"
  unfolding one_active_task_def s'
proof (clarsimp simp: f)
  fix x y assume "x \<in> set (tasks s)" "y \<in> set (tasks s)" "task_state (f x) = TaskActive"
    "task_state (f y) = TaskActive" "task_run x = task_run y"
  then have "same_task x y" using one act unfolding one_active_task_def by blast
  then show "same_task (f x) (f y)" using f by (simp add: same_task_def)
qed

lemma task_inv_map:
  assumes inv: "task_inv s"
    and s': "tasks s' = map f (tasks s)" "next_id s' = next_id s" "budgets s' = budgets s" "task_runs s' = task_runs s"
    and f: "\<And>r. task_id (f r) = task_id r \<and> task_key (f r) = task_key r \<and> task_slot (f r) = task_slot r"
    and act: "\<And>r. task_state (f r) = TaskActive \<Longrightarrow> task_state r = TaskActive"
    and cnt: "\<And>r. r \<in> set (tasks s) \<Longrightarrow> progress_ok (nr_produced_samples r) (nr_completed_samples r) \<Longrightarrow>
      progress_ok (nr_produced_samples (f r)) (nr_completed_samples (f r))"
  shows "task_inv s'"
proof -
  have run: "task_run (f r) = task_run r" for r using f [of r] by (simp add: task_key_def)
  have "one_active_task s'"
    by (rule one_active_kept [OF _ s'(1)]) (use inv f run act in \<open>auto simp: task_inv_def\<close>)
  moreover have "keys_unique s'"
    using inv f by (simp add: task_inv_def keys_unique_def s' comp_def list_all_iff)
  moreover have "counters_ordered s'"
    using inv cnt by (simp add: task_inv_def counters_ordered_def s' list_all_iff)
  ultimately show ?thesis using inv by (simp add: task_inv_def budgets_unique_def s')
qed

lemma task_inv_update:
  assumes "task_inv s"
    and "\<And>r. task_id (f r) = task_id r \<and> task_key (f r) = task_key r \<and> task_slot (f r) = task_slot r"
    and "\<And>r. q r \<Longrightarrow> task_state (f r) = TaskActive \<Longrightarrow> task_state r = TaskActive"
    and "\<And>r. r \<in> set (tasks s) \<Longrightarrow> q r \<Longrightarrow> progress_ok (nr_produced_samples r) (nr_completed_samples r) \<Longrightarrow>
      progress_ok (nr_produced_samples (f r)) (nr_completed_samples (f r))"
  shows "task_inv (update_tasks q f s)"
  by (rule task_inv_map [OF assms(1), of _ "\<lambda>r. if q r then f r else r"])
    (use assms(2-4) in \<open>auto split: if_splits\<close>)

lemma counters_kept:
  assumes "counters_ordered s" "tasks s' = map f (tasks s)"
    and "\<And>r. nr_produced_samples (f r) = nr_produced_samples r" "\<And>r. nr_completed_samples (f r) = nr_completed_samples r"
  shows "counters_ordered s'"
  using assms by (simp add: counters_ordered_def list_all_iff)

lemma task_inv_filter:
  assumes "task_inv s"
  shows "task_inv (s\<lparr>tasks := filter P (tasks s)\<rparr>)"
  using assms by (auto simp: task_inv_def keys_unique_def one_active_task_def counters_ordered_def
      budgets_unique_def distinct_map_filter list_all_iff)


lemma next_sequence_greater:
  assumes "r \<in> set (tasks s)" "task_run r = i"
  shows "sequence_nr r < next_sequence i s"
proof -
  have fold_max: "\<forall>n \<in> set (m # ns). n \<le> fold max ns (m :: int)" for m ns
  proof (induction ns arbitrary: m)
    case (Cons n ns)
    have "max n m \<le> fold max ns (max n m)" "\<forall>k \<in> set ns. k \<le> fold max ns (max n m)"
      using Cons.IH [of "max n m"] by auto
    then show ?case by auto
  qed simp
  have "sequence_nr r \<in> set (map sequence_nr (tasks_of_run i s))" using assms by (auto simp: tasks_of_run_def)
  then show ?thesis
    using fold_max by (cases "map sequence_nr (tasks_of_run i s)") (fastforce simp: next_sequence_def)+
qed

text \<open>Appending numbers the new tasks upwards from a number above all present ones.\<close>

lemma append_in_transaction_facts:
  fixes s :: "('e, 't, 'p, 'm, 'o) task_store"
  assumes "append_in_transaction run n is s = Inr (rows, s')" "task_inv s"
    and "\<forall>r \<in> set (tasks s). task_run r = run \<longrightarrow> sequence_nr r < n"
  shows "task_inv s' \<and> (\<exists>new. tasks s' = tasks s @ new \<and> (\<forall>r \<in> set new. task_run r = run \<and> task_state r = TaskPending))
    \<and> task_runs s' = task_runs s \<and> budgets s' = budgets s"
  using assms
proof (induction "is" arbitrary: n s rows)
  case (Cons i "is")
  define row :: "('e, 't, 'p, 'm, 'o) task_row" where "row = new_task (next_id s) run
    (case input_name i of Some x \<Rightarrow> x | None \<Rightarrow> generated_task_name (input_task i) n) n (input_task i)"
  let ?s = "s\<lparr>tasks := tasks s @ [row], next_id := next_id s + 1\<rparr>"
  have free: "\<not> name_taken run (task_name row) s" and rest: "\<exists>rows'. append_in_transaction run (n + 1) is ?s = Inr (rows', s')"
    using Cons.prems(1) by (auto simp: row_def new_task_def Let_def split: if_splits)
  have row: "task_id row = next_id s" "task_run row = run" "sequence_nr row = n" "task_state row = TaskPending"
    "nr_produced_samples row = 0" "nr_completed_samples row = 0"
    by (simp_all add: row_def new_task_def)
  have "keys_unique ?s"
    using Cons.prems(2,3) free row
    by (auto simp: task_inv_def keys_unique_def task_key_def task_slot_def name_taken_def list_ex_iff list_all_iff)
  moreover have "one_active_task ?s"
    using Cons.prems(2) row unfolding task_inv_def one_active_task_def by simp
  moreover have "counters_ordered ?s" "budgets_unique ?s"
    using Cons.prems(2) row by (simp_all add: task_inv_def counters_ordered_def budgets_unique_def progress_ok_def)
  ultimately have inv: "task_inv ?s" by (simp add: task_inv_def)
  obtain rows' where r: "append_in_transaction run (n + 1) is ?s = Inr (rows', s')" using rest by blast
  have "\<forall>r \<in> set (tasks ?s). task_run r = run \<longrightarrow> sequence_nr r < n + 1"
    using Cons.prems(3) row by auto
  from Cons.IH [OF r inv this] obtain new where "task_inv s'" "tasks s' = tasks ?s @ new"
    "\<forall>r \<in> set new. task_run r = run \<and> task_state r = TaskPending"
    "task_runs s' = task_runs ?s" "budgets s' = budgets ?s" by blast
  then show ?case using row by (intro conjI exI [of _ "row # new"]) simp_all
qed simp

lemma append_any_facts:
  assumes "append_in_transaction run (next_sequence run s) is s = Inr (rows, s')" "task_inv s"
  shows "task_inv s' \<and> (\<exists>new. tasks s' = tasks s @ new \<and> (\<forall>r \<in> set new. task_run r = run \<and> task_state r = TaskPending))
    \<and> task_runs s' = task_runs s \<and> budgets s' = budgets s"
  by (rule append_in_transaction_facts [OF assms]) (auto intro: next_sequence_greater)

text \<open>Budgets keep one row per child.\<close>

lemma seed_budgets_unique:
  "budgets_unique s \<Longrightarrow> distinct (map child_run (seed_budgets i s))"
  by (auto simp: budgets_unique_def seed_budgets_def comp_def list_ex_iff intro: distinct_map_filter)

lemma reuse_budgets_children [simp]: "map child_run (reuse_budgets i s bs) = map child_run bs"
  by (simp add: reuse_budgets_def comp_def)

lemma set_grant_children [simp]: "map child_run (set_grant c n bs) = map child_run bs"
  by (simp add: set_grant_def comp_def)

lemma grant_requests_children: "grant_requests i rem rs bs = Inr bs' \<Longrightarrow> map child_run bs' = map child_run bs"
  by (induction i rem rs bs rule: grant_requests.induct)
    (auto simp: Let_def split: option.splits if_splits)

lemma task_inv_allocate:
  assumes "task_inv s"
  shows "task_inv (snd (allocate_campaign_samples i requests s)) \<and>
    tasks (snd (allocate_campaign_samples i requests s)) = tasks s \<and>
    task_runs (snd (allocate_campaign_samples i requests s)) = task_runs s"
proof -
  have keep: "task_inv (s\<lparr>budgets := bs\<rparr>)" if "map child_run bs = map child_run (seed_budgets i s)" for bs
    using assms seed_budgets_unique [of s i] that
    by (simp add: task_inv_def keys_unique_def one_active_task_def counters_ordered_def budgets_unique_def)
  show ?thesis
    using assms by (auto simp: allocate_campaign_samples_def Let_def intro!: keep dest!: grant_requests_children
        split: option.splits sum.splits if_splits)
qed


text \<open>Replacing the definition of one task under a name nobody else in the run has.\<close>

lemma task_inv_rename:
  assumes inv: "task_inv s"
    and free: "\<not> list_ex (\<lambda>r. task_run r = run \<and> task_name r = name \<and> task_id r \<noteq> i) (tasks s)"
  shows "task_inv (update_tasks (\<lambda>r. task_run r = run \<and> task_id r = i)
    (\<lambda>r. r\<lparr>task_name := name, task_spec := spec\<rparr>) s)"
proof -
  let ?f = "\<lambda>r. if task_run r = run \<and> task_id r = i then r\<lparr>task_name := name, task_spec := spec\<rparr> else r"
  let ?s = "update_tasks (\<lambda>r. task_run r = run \<and> task_id r = i) (\<lambda>r. r\<lparr>task_name := name, task_spec := spec\<rparr>) s"
  have f: "task_id (?f r) = task_id r" "task_slot (?f r) = task_slot r" "task_run (?f r) = task_run r"
    "task_state (?f r) = task_state r" "nr_produced_samples (?f r) = nr_produced_samples r"
    "nr_completed_samples (?f r) = nr_completed_samples r" for r
    by (simp_all add: task_slot_def)
  have ids: "inj_on task_id (set (tasks s))" and keys: "distinct (map task_key (tasks s))"
    using inv by (simp_all add: task_inv_def keys_unique_def distinct_map)
  have "inj_on task_key (set (tasks s))" using keys by (simp add: distinct_map)
  then have "inj_on (task_key \<circ> ?f) (set (tasks s))"
    using ids free by (auto simp: inj_on_def task_key_def list_ex_iff)
  then have "distinct (map (task_key \<circ> ?f) (tasks s))" using keys by (simp add: distinct_map)
  then have "keys_unique ?s"
    using inv unfolding task_inv_def keys_unique_def tasks_update_tasks by (simp add: f comp_def list.pred_map)
  moreover have "one_active_task ?s"
    by (rule one_active_kept [OF _ tasks_update_tasks(1)]) (use inv in \<open>simp_all add: task_inv_def f\<close>)
  moreover have "counters_ordered ?s"
    by (rule counters_kept [OF _ tasks_update_tasks(1)]) (use inv in \<open>simp_all add: task_inv_def f\<close>)
  moreover have "budgets_unique ?s"
    using inv by (simp add: task_inv_def budgets_unique_def)
  ultimately show ?thesis by (simp add: task_inv_def)
qed

lemma task_inv_observables [simp]: "task_inv (s\<lparr>live_observables := obs\<rparr>) = task_inv s"
  by (simp add: task_inv_def keys_unique_def one_active_task_def counters_ordered_def budgets_unique_def)

lemma task_inv_append:
  "task_inv s \<Longrightarrow> task_inv (snd (append_run_tasks run is s))"
  by (auto simp: append_run_tasks_def split: sum.splits dest: append_any_facts)

lemma task_inv_edit:
  assumes "task_inv s"
  shows "task_inv (snd (apply_task_queue_change run seen change s))"
  using assms by (cases change)
    (auto simp: apply_task_queue_change_def Let_def task_inv_filter split: sum.splits option.splits
      intro: task_inv_rename dest: append_any_facts)

lemma task_inv_tune:
  assumes "task_inv s"
  shows "task_inv (snd (update_run_task_queue_tuning sqrt_f run i tuning s))"
  using assms by (auto simp: update_run_task_queue_tuning_def task_key_def task_slot_def
      split: option.splits sum.splits intro: task_inv_update)

text \<open>Activation is guarded by the absence of another active task of the run.\<close>

lemma list_run_tasks_set [simp]: "set (list_run_tasks run s) = {r \<in> set (tasks s). task_run r = run}"
  by (auto simp: list_run_tasks_def tasks_of_run_def)

lemma no_active_task:
  "load_active_run_task run s = None \<Longrightarrow> r \<in> set (tasks s) \<Longrightarrow> task_run r = run \<Longrightarrow> task_state r \<noteq> TaskActive"
  by (auto simp: load_active_run_task_def tasks_of_run_def filter_empty_conv split: list.splits)

lemma task_inv_activated:
  assumes inv: "task_inv s" and r: "r \<in> set (tasks s)" "task_run r = run" and idle: "load_active_run_task run s = None"
  shows "task_inv (update_tasks (\<lambda>q. task_id q = task_id r) (\<lambda>q. q\<lparr>task_state := TaskActive, started_at := t q\<rparr>) s)"
    (is "task_inv ?s")
proof -
  let ?f = "\<lambda>q. if task_id q = task_id r then q\<lparr>task_state := TaskActive, started_at := t q\<rparr> else q"
  have f: "task_id (?f q) = task_id q" "task_slot (?f q) = task_slot q" "task_key (?f q) = task_key q"
    "task_run (?f q) = task_run q" "nr_produced_samples (?f q) = nr_produced_samples q"
    "nr_completed_samples (?f q) = nr_completed_samples q" for q
    by (simp_all add: task_slot_def task_key_def)
  have same: "q = r" if "q \<in> set (tasks s)" "task_id q = task_id r" for q
    using that inv r(1) by (simp add: task_inv_def keys_unique_def distinct_map inj_on_def)
  have old: "task_id q = task_id r \<or> task_state q = TaskActive" if "task_state (?f q) = TaskActive" for q
    using that by (simp split: if_splits)
  have "one_active_task ?s"
    unfolding one_active_task_def tasks_update_tasks
  proof (clarify, unfold set_map, elim imageE)
    fix a b x y
    assume ab: "task_state a = TaskActive" "task_state b = TaskActive" "task_run a = task_run b"
      and x: "a = ?f x" "x \<in> set (tasks s)" and y: "b = ?f y" "y \<in> set (tasks s)"
    have runs: "task_run x = task_run y" using ab(3) f(4) unfolding x(1) y(1) by metis
    have x': "task_id x = task_id r \<or> task_state x = TaskActive" using old ab(1) unfolding x(1) by blast
    have y': "task_id y = task_id r \<or> task_state y = TaskActive" using old ab(2) unfolding y(1) by blast
    have "task_id x = task_id y"
    proof (cases "task_run x = run")
      case True
      then have "task_state x \<noteq> TaskActive" "task_state y \<noteq> TaskActive"
        using no_active_task [OF idle] x(2) y(2) runs by simp_all
      then show ?thesis using x' y' by simp
    next
      case False
      then have "task_id x \<noteq> task_id r" "task_id y \<noteq> task_id r"
        using same x(2) y(2) r(2) runs by metis+
      then have "same_task x y"
        using x' y' inv x(2) y(2) runs unfolding task_inv_def one_active_task_def by blast
      then show ?thesis by (simp add: same_task_def)
    qed
    then show "same_task a b" using f(1) unfolding x(1) y(1) same_task_def by metis
  qed
  moreover have "keys_unique ?s"
    using inv unfolding task_inv_def keys_unique_def tasks_update_tasks by (simp add: f comp_def list.pred_map)
  moreover have "counters_ordered ?s"
    by (rule counters_kept [OF _ tasks_update_tasks(1)]) (use inv in \<open>simp_all add: task_inv_def f\<close>)
  moreover have "budgets_unique ?s"
    using inv by (simp add: task_inv_def budgets_unique_def)
  ultimately show ?thesis by (simp add: task_inv_def)
qed


lemma task_inv_activate:
  assumes inv: "task_inv s"
  shows "task_inv (snd (activate_next_run_task now run s))"
proof (cases "filter (\<lambda>r. task_state r = TaskPending) (list_run_tasks run s)")
  case (Cons r rs)
  then have r: "r \<in> set (tasks s)" "task_run r = run"
    using list_run_tasks_set [of run s] Cons list.set_intros(1) [of r rs] unfolding Cons [symmetric] by simp_all
  show ?thesis
    using task_inv_activated [OF inv r] inv by (simp add: activate_next_run_task_def Cons Let_def)
qed (simp add: activate_next_run_task_def inv)

lemma find_run_None: "find_run rs i = None \<longleftrightarrow> i \<notin> run_id ` set rs"
  by (induction rs) auto

lemma task_inv_create:
  "task_inv s \<Longrightarrow> find_run (task_runs s) (run_id r) = None \<Longrightarrow> task_inv (s\<lparr>task_runs := task_runs s @ [r]\<rparr>)"
  by (auto simp: task_inv_def keys_unique_def one_active_task_def counters_ordered_def budgets_unique_def
      find_run_None)

lemma task_inv_delete: "task_inv s \<Longrightarrow> task_inv (delete_runs gone s)"
  by (auto simp: delete_runs_def task_inv_def keys_unique_def one_active_task_def counters_ordered_def
      budgets_unique_def distinct_map_filter list_all_iff)

lemma task_inv_step:
  assumes "task_step s s'" "task_inv s"
  shows "task_inv s'"
  using assms
proof (cases rule: task_step.cases)
  case (progress i produced completed)
  then show ?thesis
    using assms(2) unfolding progress update_run_task_progress_def Let_def
    by (auto simp: list_ex_iff task_key_def task_slot_def intro!: task_inv_update)
qed (use assms(2) in \<open>auto simp: remove_pending_run_task_def Let_def set_run_task_spawn_origin_def complete_run_task_def
      fail_run_task_def persist_task_measurement_output_def persist_task_controller_output_def
      task_key_def task_slot_def task_inv_append task_inv_edit task_inv_tune task_inv_activate task_inv_filter
      task_inv_create task_inv_delete task_inv_allocate intro!: task_inv_update\<close>)

lemma task_inv_reachable: "tasks_reachable s \<Longrightarrow> task_inv s"
proof (induction rule: tasks_reachable.induct)
  case (empty s)
  then show ?case
    by (simp add: task_inv_def keys_unique_def one_active_task_def counters_ordered_def budgets_unique_def)
qed (rule task_inv_step)


subsection \<open>What a reachable store promises\<close>

lemma at_most_one:
  assumes "distinct (map k xs)" "\<forall>a \<in> set xs. \<forall>b \<in> set xs. k a = k b"
  shows "length xs \<le> 1"
proof (cases xs)
  case (Cons a as)
  show ?thesis
  proof (cases as)
    case (Cons b bs)
    have "k a = k b" using assms(2) by (simp only: Cons \<open>xs = a # as\<close> list.set) blast
    then show ?thesis using assms(1) by (simp only: Cons \<open>xs = a # as\<close> list.map list.set distinct.simps) simp
  qed (simp add: Cons)
qed simp

text \<open>C15. In every store the operations on tasks can reach, task identifiers are unique, names and
  sequence numbers are unique within a run, a run has at most one active task, no counter of
  completed samples exceeds its counter of produced ones, and a run has one budget at most.\<close>

theorem task_store_invariant:
  assumes "tasks_reachable s"
  shows "distinct (map task_id (tasks s)) \<and> distinct (map task_key (tasks s)) \<and> distinct (map task_slot (tasks s))
    \<and> (\<forall>run. length (filter (\<lambda>r. task_run r = run \<and> task_state r = TaskActive) (tasks s)) \<le> 1)
    \<and> list_all (\<lambda>r. 0 \<le> nr_completed_samples r \<and> nr_completed_samples r \<le> nr_produced_samples r) (tasks s)
    \<and> distinct (map child_run (budgets s))"
proof -
  have inv: "task_inv s" using assms by (rule task_inv_reachable)
  have "length (filter (\<lambda>r. task_run r = run \<and> task_state r = TaskActive) (tasks s)) \<le> 1" (is "length ?act \<le> 1") for run
  proof -
    have "distinct (map task_id ?act)" using inv by (simp add: task_inv_def keys_unique_def distinct_map_filter)
    moreover have "\<forall>a \<in> set ?act. \<forall>b \<in> set ?act. task_id a = task_id b"
      using inv unfolding task_inv_def one_active_task_def same_task_def by simp
    ultimately show ?thesis by (rule at_most_one)
  qed
  moreover have "list_all (\<lambda>r. 0 \<le> nr_completed_samples r \<and> nr_completed_samples r \<le> nr_produced_samples r) (tasks s)"
    using inv by (simp add: task_inv_def counters_ordered_def list_all_iff progress_ok_def)
  ultimately show ?thesis using inv by (simp add: task_inv_def keys_unique_def budgets_unique_def)
qed

text \<open>The part of a row that records how the task ran and ended.\<close>

definition task_outcome where
  "task_outcome r = (task_id r, task_run r, task_name r, sequence_nr r, task_spec r, task_state r,
     nr_produced_samples r, nr_completed_samples r, failure_reason r, started_at r, completed_at r, failed_at r)"

lemma outcome_kept:
  assumes "r \<in> set (tasks s)" "q r \<Longrightarrow> task_outcome (f r) = task_outcome r"
  shows "task_outcome r \<in> task_outcome ` set (tasks (update_tasks q f s))"
proof -
  have "task_outcome r = task_outcome (if q r then f r else r)" using assms(2) by simp
  moreover have "(if q r then f r else r) \<in> set (tasks (update_tasks q f s))"
    using assms(1) unfolding tasks_update_tasks set_map by (rule imageI)
  ultimately show ?thesis by (rule image_eqI)
qed

lemma outcome_kept_update:
  assumes "tasks s' = tasks (update_tasks q f s)" "r \<in> set (tasks s)" "q r \<Longrightarrow> task_outcome (f r) = task_outcome r"
  shows "task_outcome r \<in> task_outcome ` set (tasks s')"
  unfolding assms(1) by (rule outcome_kept) (use assms in auto)

lemma outcome_subset: "r \<in> set (tasks s') \<Longrightarrow> task_outcome r \<in> task_outcome ` set (tasks s')"
  by simp

lemma pending_in_unique:
  assumes "task_inv s" "pending_in run i s" "r \<in> set (tasks s)" "task_id r = i"
  shows "task_state r = TaskPending"
proof -
  obtain q where "q \<in> set (tasks s)" "task_id q = i" "task_state q = TaskPending"
    using assms(2) by (auto simp: pending_in_def tasks_of_run_def list_ex_iff)
  moreover have "q = r" using calculation assms by (simp add: task_inv_def keys_unique_def distinct_map inj_on_def)
  ultimately show ?thesis by simp
qed

lemma activate_tasks:
  assumes "task_inv s"
  obtains (none) "tasks (snd (activate_next_run_task now run s)) = tasks s"
  | (one) q t where "q \<in> set (tasks s)" "task_state q = TaskPending" "tasks (snd (activate_next_run_task now run s)) =
      tasks (update_tasks (\<lambda>r. task_id r = task_id q) (\<lambda>r. r\<lparr>task_state := TaskActive, started_at := t r\<rparr>) s)"
proof (cases "filter (\<lambda>r. task_state r = TaskPending) (list_run_tasks run s)")
  case Nil
  then show ?thesis using none by (simp add: activate_next_run_task_def)
next
  case (Cons q qs)
  then have q: "q \<in> set (tasks s)" "task_state q = TaskPending"
    using list_run_tasks_set [of run s] Cons_eq_filterD [OF Cons [symmetric]] list.set_intros(1) [of q qs]
    unfolding Cons [symmetric] by auto
  show ?thesis
  proof (cases "load_active_run_task run s")
    case None
    show ?thesis
      by (rule one [OF q, of "\<lambda>r. case started_at r of None \<Rightarrow> Some now | t \<Rightarrow> t"])
        (simp add: activate_next_run_task_def Cons None Let_def)
  qed (rule none, simp add: activate_next_run_task_def Cons)
qed

lemma edit_keeps_finished:
  assumes inv: "task_inv s" and r: "r \<in> set (tasks s)" "task_state r \<noteq> TaskPending"
  shows "r \<in> set (tasks (snd (apply_task_queue_change run seen change s)))"
proof -
  have other: "\<not> (pending_in run i s \<and> task_id r = i)" for i using pending_in_unique [OF inv _ r(1)] r(2) by blast
  show ?thesis
  proof (cases change)
    case (Append "is")
    then show ?thesis using r inv
      by (auto simp: apply_task_queue_change_def split: sum.splits dest: append_any_facts)
  next
    case (Replace i input)
    have "r \<in> set (tasks (update_tasks (\<lambda>r. task_run r = run \<and> task_id r = i) f s))" if "pending_in run i s" for f
      using other [of i] that r(1) unfolding tasks_update_tasks set_map by (intro image_eqI [of _ _ r]) auto
    then show ?thesis using r(1)
      by (simp add: Replace apply_task_queue_change_def Let_def split: option.splits)
  next
    case (Remove i)
    then show ?thesis using r(1) other [of i] by (auto simp: apply_task_queue_change_def)
  qed
qed


text \<open>C14. A finished task is final: whatever operation follows in a reachable store, the row of a
  completed or failed task keeps its definition, its place, its state, its counters, its failure
  reason and its times; only the deletion of its run removes it.\<close>

theorem finished_task_is_final:
  assumes "tasks_reachable s" "task_step s s'" "r \<in> set (tasks s)" "task_state r \<in> {TaskCompleted, TaskFailed}"
  shows "task_outcome r \<in> task_outcome ` set (tasks s') \<or> (\<exists>gone. s' = delete_runs gone s \<and> task_run r \<in> set gone)"
proof -
  have inv: "task_inv s" using assms(1) by (rule task_inv_reachable)
  note kept = outcome_kept [OF assms(3)] and same = outcome_subset [of r s'] and r = assms(3,4)
  have fin: "task_state r \<noteq> TaskPending" "task_state r \<noteq> TaskActive" using r(2) by auto
  show ?thesis
    using assms(2)
  proof (cases rule: task_step.cases)
    case (append run "is")
    then have "r \<in> set (tasks s')"
      using r(1) inv by (auto simp: append_run_tasks_def split: sum.splits dest: append_any_facts)
    then show ?thesis using same by blast
  next
    case (edit run seen change)
    then show ?thesis using same edit_keeps_finished [OF inv r(1) fin(1)] by blast
  next
    case (tune run i tuning sqrt_f)
    then show ?thesis
      using r fin outcome_subset [OF r(1)]
      by (auto simp only: update_run_task_queue_tuning_def snd_conv split: option.splits sum.splits if_splits
          intro!: disjI1 kept)
  next
    case (activate now run)
    show ?thesis
    proof (rule activate_tasks [OF inv, of now run])
      assume "tasks (snd (activate_next_run_task now run s)) = tasks s"
      then show ?thesis using same r(1) activate by simp
    next
      fix q t
      assume q: "q \<in> set (tasks s)" "task_state q = TaskPending"
        and s': "tasks (snd (activate_next_run_task now run s)) =
          tasks (update_tasks (\<lambda>r. task_id r = task_id q) (\<lambda>r. r\<lparr>task_state := TaskActive, started_at := t r\<rparr>) s)"
      have "task_id r \<noteq> task_id q"
        using q r(1) fin(1) inv by (auto simp: task_inv_def keys_unique_def distinct_map dest: inj_onD)
      then show ?thesis using outcome_kept_update [OF s' r(1)] unfolding activate(1) by blast
    qed
  next
    case (delete gone)
    then show ?thesis using r(1) outcome_subset [of r s'] by (auto simp: delete_runs_def)
  next
    case (remove run i)
    then show ?thesis using r(1) fin same by (simp add: remove_pending_run_task_def Let_def)
  next
    case (progress i produced completed)
    then show ?thesis using fin outcome_subset [OF r(1)]
      by (auto simp only: update_run_task_progress_def Let_def snd_conv split: if_splits intro!: disjI1 kept)
  next
    case (allocate i requests)
    then show ?thesis using r(1) same task_inv_allocate [OF inv] by simp
  next
    case origin
    then show ?thesis
      by (simp only: set_run_task_spawn_origin_def) (rule disjI1, rule kept, use fin in \<open>simp add: task_outcome_def\<close>)
  next
    case complete
    then show ?thesis
      by (simp only: complete_run_task_def) (rule disjI1, rule kept, use fin in \<open>simp add: task_outcome_def\<close>)
  next
    case fail
    then show ?thesis
      by (simp only: fail_run_task_def) (rule disjI1, rule kept, use fin in \<open>simp add: task_outcome_def\<close>)
  next
    case measurement
    then show ?thesis
      by (simp only: persist_task_measurement_output_def) (rule disjI1, rule kept, use fin in \<open>simp add: task_outcome_def\<close>)
  next
    case controller
    then show ?thesis
      by (simp only: persist_task_controller_output_def) (rule disjI1, rule kept, use fin in \<open>simp add: task_outcome_def\<close>)
  qed (use r(1) same in simp_all)
qed


subsection \<open>Activation\<close>

text \<open>The row a pending task becomes.\<close>

definition activated :: "int \<Rightarrow> ('e, 't, 'p, 'm, 'o) task_row \<Rightarrow> ('e, 't, 'p, 'm, 'o) task_row" where
  "activated now r = r\<lparr>task_state := TaskActive, started_at := (case started_at r of None \<Rightarrow> Some now | t \<Rightarrow> t)\<rparr>"

lemma sorted_run_tasks: "sorted (map sequence_nr (list_run_tasks run s))"
  by (simp add: list_run_tasks_def)

lemma first_of_sorted:
  assumes "sorted (map k xs)" "distinct (map k xs)" "r \<in> set xs" "P r" "\<And>q. q \<in> set xs \<Longrightarrow> P q \<Longrightarrow> k r \<le> (k q :: int)"
  shows "\<exists>rest. filter P xs = r # rest"
  using assms
proof (induction xs)
  case (Cons x xs)
  show ?case
  proof (cases "P x")
    case True
    then have "k r \<le> k x" using Cons.prems(5) by simp
    moreover have "r = x \<or> k x < k r" using Cons.prems(1-3) by (auto simp: order.strict_iff_order)
    ultimately show ?thesis using True by auto
  next
    case False
    then have "r \<in> set xs" using Cons.prems(3,4) by auto
    then show ?thesis using Cons False by simp
  qed
qed simp

lemma distinct_run_slots:
  assumes "task_inv s"
  shows "distinct (map sequence_nr (list_run_tasks run s))"
proof -
  have "inj_on task_slot (set (tasks s))" and ids: "distinct (map task_id (tasks s))"
    using assms by (simp_all add: task_inv_def keys_unique_def distinct_map)
  then have "inj_on sequence_nr {r \<in> set (tasks s). task_run r = run}"
    by (auto simp: inj_on_def task_slot_def)
  moreover have "distinct (list_run_tasks run s)"
    using ids by (simp add: list_run_tasks_def tasks_of_run_def distinct_map)
  ultimately show ?thesis by (simp add: distinct_map)
qed

text \<open>C16. Activation takes up the pending task of the run with the least sequence number when no task
  of the run is active: that task becomes the active one, keeps an earlier start time, and no
  other task changes.\<close>

theorem activation_follows_sequence:
  assumes "tasks_reachable s" "r \<in> set (tasks s)" "task_run r = run" "task_state r = TaskPending"
    and "list_all (\<lambda>q. task_run q = run \<and> task_state q = TaskPending \<longrightarrow> sequence_nr r \<le> sequence_nr q) (tasks s)"
    and "load_active_run_task run s = None"
  shows "fst (activate_next_run_task now run s) = Inr (Some (activated now r))
    \<and> tasks (snd (activate_next_run_task now run s)) = map (\<lambda>q. if task_id q = task_id r then activated now r else q) (tasks s)
    \<and> load_active_run_task run (snd (activate_next_run_task now run s)) = Some (activated now r)"
proof -
  have inv: "task_inv s" using assms(1) by (rule task_inv_reachable)
  have "\<exists>rest. filter (\<lambda>q. task_state q = TaskPending) (list_run_tasks run s) = r # rest"
    by (rule first_of_sorted [OF sorted_run_tasks distinct_run_slots [OF inv]])
      (use assms in \<open>auto simp: list_all_iff\<close>)
  then obtain rest where pend: "filter (\<lambda>q. task_state q = TaskPending) (list_run_tasks run s) = r # rest" ..
  have same: "q = r" if "q \<in> set (tasks s)" "task_id q = task_id r" for q
    using that inv assms(2) by (simp add: task_inv_def keys_unique_def distinct_map inj_on_def)
  let ?s' = "snd (activate_next_run_task now run s)"
  have fst': "fst (activate_next_run_task now run s) = Inr (Some (activated now r))"
    by (simp add: activate_next_run_task_def pend assms(6) Let_def activated_def)
  have tasks': "tasks ?s' = map (\<lambda>q. if task_id q = task_id r then activated now r else q) (tasks s)"
    by (auto simp: activate_next_run_task_def pend assms(6) Let_def activated_def dest: same)
  have act: "activated now r \<in> set (tasks ?s')" "task_run (activated now r) = run" "task_state (activated now r) = TaskActive"
    "task_id (activated now r) = task_id r"
    using assms(2,3) unfolding tasks' by (auto simp: activated_def)
  have "q = activated now r" if "q \<in> set (tasks_of_run run ?s')" "task_state q = TaskActive" for q
    using that no_active_task [OF assms(6)] unfolding tasks_of_run_def tasks' by (auto split: if_splits)
  moreover have "activated now r \<in> set (filter (\<lambda>q. task_state q = TaskActive) (tasks_of_run run ?s'))"
    using act by (simp add: tasks_of_run_def)
  ultimately have "load_active_run_task run ?s' = Some (activated now r)"
    unfolding load_active_run_task_def
    by (cases "filter (\<lambda>q. task_state q = TaskActive) (tasks_of_run run ?s')")
      (auto dest!: Cons_eq_filterD [OF sym] simp del: set_filter)
  then show ?thesis using fst' tasks' by blast
qed


subsection \<open>Campaign budgets\<close>

definition granted_total :: "i64 \<Rightarrow> budget_row list \<Rightarrow> int" where
  "granted_total i bs = sum_list (map snd (campaign_grants i bs))"

lemma granted_total_simps [simp]:
  "granted_total i [] = 0"
  "granted_total i (b # bs) = (if campaign_task b = i then granted_samples b else 0) + granted_total i bs"
  by (simp_all add: granted_total_def campaign_grants_def)

lemma grant_of_simps [simp]:
  "grant_of i [] c = None"
  "grant_of i (b # bs) c = (if campaign_task b = i \<and> child_run b = c then Some (granted_samples b) else grant_of i bs c)"
  by (simp_all add: grant_of_def)

lemma set_grant_Cons [simp]:
  "set_grant c n (b # bs) = (if child_run b = c then b\<lparr>granted_samples := n\<rparr> else b) # set_grant c n bs"
  by (simp add: set_grant_def)

lemma set_grant_other: "c \<notin> child_run ` set bs \<Longrightarrow> set_grant c n bs = bs"
  by (induction bs) (simp_all add: set_grant_def)

lemma granted_total_set_grant:
  "grant_of i bs c = Some g \<Longrightarrow> distinct (map child_run bs) \<Longrightarrow> granted_total i (set_grant c n bs) = granted_total i bs - g + n"
proof (induction bs)
  case (Cons b bs)
  then show ?case by (cases "child_run b = c") (auto simp: set_grant_other split: if_splits)
qed simp

lemma grant_of_set_grant:
  "grant_of i bs c = Some g \<Longrightarrow> grant_of i (set_grant c n bs) d = (if d = c then Some n else grant_of i bs d)"
proof -
  have "grant_of i (set_grant c n bs) d = (if d = c then map_option (\<lambda>_. n) (grant_of i bs d) else grant_of i bs d)"
    by (induction bs) (auto simp: set_grant_def)
  then show "grant_of i bs c = Some g \<Longrightarrow> ?thesis" by simp
qed

text \<open>One request moves a grant up by at most what is wanted and what remains.\<close>

lemma grant_extra:
  assumes "extra = min (max (saturating_sub_i64 wanted g) 0) remaining" "0 \<le> remaining"
  shows "0 \<le> extra" "extra \<le> remaining" "extra = 0 \<or> g + extra \<le> wanted"
  using assms by (auto simp: saturating_sub_i64_def i64_max_def min_def max_def split: if_splits)

lemma grant_requests_total:
  assumes "grant_requests i remaining rs bs = Inr bs'" "distinct (map child_run bs)" "0 \<le> remaining"
  shows "granted_total i bs' \<le> granted_total i bs + remaining"
  using assms
proof (induction i remaining rs bs rule: grant_requests.induct)
  case (2 i remaining c wanted rs bs)
  define extra where extra: "extra = min (max (saturating_sub_i64 wanted (the (grant_of i bs c))) 0) remaining"
  obtain g where g: "grant_of i bs c = Some g" using "2.prems"(1) by (auto split: option.splits)
  note e = grant_extra [OF extra "2.prems"(3)]
  show ?case
  proof (cases "extra = 0")
    case True
    then show ?thesis using "2.IH"(1) [OF g extra [unfolded g option.sel]] "2.prems" g
      by (simp add: extra)
  next
    case False
    then have "grant_requests i (remaining - extra) rs (set_grant c (g + extra) bs) = Inr bs'"
      using "2.prems"(1) g by (simp add: extra Let_def)
    from "2.IH"(2) [OF g extra [unfolded g option.sel] False this] show ?thesis
      using "2.prems"(2) e by (simp add: granted_total_set_grant [OF g])
  qed
qed simp

definition grown_to :: "(i32 \<times> i64) list \<Rightarrow> i32 \<Rightarrow> i64 option \<Rightarrow> i64 \<Rightarrow> bool" where
  "grown_to requests c old new \<longleftrightarrow>
     (case old of None \<Rightarrow> False | Some g \<Rightarrow> new = g \<or> g < new \<and> list_ex (\<lambda>(d, w). d = c \<and> new \<le> w) requests)"

lemma grant_requests_grown:
  assumes "grant_requests i remaining rs bs = Inr bs'" "0 \<le> remaining" "grant_of i bs' d = Some n"
  shows "grown_to rs d (grant_of i bs d) n"
  using assms
proof (induction i remaining rs bs rule: grant_requests.induct)
  case (2 i remaining c wanted rs bs)
  define extra where extra: "extra = min (max (saturating_sub_i64 wanted (the (grant_of i bs c))) 0) remaining"
  obtain g where g: "grant_of i bs c = Some g" using "2.prems"(1) by (auto split: option.splits)
  note e = grant_extra [OF extra "2.prems"(2), unfolded g option.sel]
  show ?case
  proof (cases "extra = 0")
    case True
    then show ?thesis using "2.IH"(1) [OF g extra [unfolded g option.sel]] "2.prems" g
      by (auto simp: extra grown_to_def split: option.splits)
  next
    case False
    then have "grant_requests i (remaining - extra) rs (set_grant c (g + extra) bs) = Inr bs'"
      using "2.prems"(1) g by (simp add: extra Let_def)
    from "2.IH"(2) [OF g extra [unfolded g option.sel] False this] show ?thesis
      using "2.prems"(3) e False by (auto simp: grant_of_set_grant [OF g] grown_to_def g split: option.splits if_splits)
  qed
qed (simp add: grown_to_def)

lemma checked_total_sum: "checked_total acc ns = Some t \<Longrightarrow> t = acc + sum_list ns"
  by (induction acc ns rule: checked_total.induct) (auto simp: checked_add_i64_def split: option.splits if_splits)

lemma grant_of_member:
  "distinct (map child_run bs) \<Longrightarrow> (c, n) \<in> set (campaign_grants i bs) \<Longrightarrow> grant_of i bs c = Some n"
  by (induction bs) (auto simp: campaign_grants_def split: if_splits)

lemma allocation_within_cap:
  assumes "tasks_reachable s" "find_task (tasks s) i = Some t" "campaign_cap (task_spec t) = Some cap"
    and "allocate_campaign_samples i requests s = (Inr grants, s')"
  shows "sum_list (map snd grants) \<le> cap \<and> grants = campaign_grants i (budgets s')
    \<and> list_all (\<lambda>(c, n). grown_to requests c (grant_of i (reuse_budgets i s (seed_budgets i s)) c) n) grants"
proof -
  let ?bs = "reuse_budgets i s (seed_budgets i s)"
  have inv: "task_inv s" using assms(1) by (rule task_inv_reachable)
  then have dist: "distinct (map child_run ?bs)"
    by (simp add: task_inv_def seed_budgets_unique)
  obtain n bs' where n: "checked_total 0 (map snd (campaign_grants i ?bs)) = Some n" "n \<le> cap"
    and bs': "(if task_state t = TaskActive then grant_requests i (cap - n) requests ?bs else Inr ?bs) = Inr bs'"
    and res: "grants = campaign_grants i bs'" "s' = s\<lparr>budgets := bs'\<rparr>"
    using assms(2-4) by (auto simp: allocate_campaign_samples_def Let_def split: option.splits sum.splits if_splits)
  have tot: "granted_total i ?bs = n" using checked_total_sum [OF n(1)] by (simp add: granted_total_def)
  have kids: "distinct (map child_run bs')"
    using bs' dist by (auto split: if_splits dest: grant_requests_children)
  have "granted_total i bs' \<le> cap"
    using bs' n(2) tot grant_requests_total [OF _ dist] by (fastforce split: if_splits)
  moreover have "grown_to requests c (grant_of i ?bs c) m" if "(c, m) \<in> set grants" for c m
    using grant_of_member [OF kids that [unfolded res(1)]] bs' n(2)
    by (auto simp: grown_to_def dest: grant_requests_grown split: if_splits)
  ultimately show ?thesis unfolding res by (auto simp: granted_total_def list_all_iff res(1))
qed


end
