(* ===== verification/Task_Demo.thy ===== *)
theory Task_Demo
  imports Task_Laws
begin

section \<open>A campaign and its children\<close>

text \<open>
  A concrete store of tasks on which the laws apply: run 1 works on a campaign with a cap of
  100 samples and has another task waiting; its children 2 and 3 have one task each, of which
  the first is completed.
\<close>

type_synonym demo_store_type = "(unit, unit, unit, unit, unit) task_store"

definition demo_campaign :: "(unit, unit, unit) run_task_spec" where
  "demo_campaign = IntegrationCampaign [] task_measurement_default
     \<lparr>min_total_samples = 0, max_total_samples = Some 100, stop_absolute_error = None, stop_relative_error = None\<rparr>
     allocation_default"

definition demo_input :: "string \<Rightarrow> (unit, unit, unit) run_task_spec \<Rightarrow> (unit, unit, unit) run_task_input" where
  "demo_input n t = \<lparr>input_name = Some n, input_task = t\<rparr>"

definition demo_accumulator :: "(unit, unit, unit) run_task_spec" where
  "demo_accumulator = SetAccumulator (FullVector [''value''])"

definition demo_none :: demo_store_type where
  "demo_none = \<lparr>tasks = [], next_id = 1, task_runs = [], live_observables = [], budgets = []\<rparr>"

definition demo_task_run :: "i32 \<Rightarrow> i64 option \<Rightarrow> run_row" where
  "demo_task_run i t = \<lparr>run_id = i, parent_run = (case t of None \<Rightarrow> None | Some _ \<Rightarrow> Some 1), parent_task = t, run_kind = None\<rparr>"

definition demo_with_runs :: demo_store_type where
  "demo_with_runs = demo_none\<lparr>task_runs := [demo_task_run 1 None, demo_task_run 2 (Some 1), demo_task_run 3 (Some 1)]\<rparr>"

definition demo_queued :: demo_store_type where
  "demo_queued =
     snd (append_run_tasks 3 [demo_input ''y'' demo_accumulator]
       (snd (append_run_tasks 2 [demo_input ''x'' demo_accumulator]
         (snd (append_run_tasks 1 [demo_input ''c'' demo_campaign, demo_input ''a'' demo_accumulator] demo_with_runs)))))"

definition demo_tasks :: demo_store_type where
  "demo_tasks =
     complete_run_task 7 3 (snd (update_run_task_progress 3 20 20 (snd (activate_next_run_task 6 2
       (snd (activate_next_run_task 5 1 demo_queued))))))"

lemma demo_queued_reachable: "tasks_reachable demo_queued"
proof -
  have "tasks_reachable demo_none" by (rule tasks_reachable.empty) (simp_all add: demo_none_def)
  note this [THEN tasks_reachable.step, OF create, of "demo_task_run 1 None"]
  then have "tasks_reachable (demo_none\<lparr>task_runs := [demo_task_run 1 None]\<rparr>)" by (simp add: demo_none_def)
  note this [THEN tasks_reachable.step, OF create, of "demo_task_run 2 (Some 1)"]
  then have "tasks_reachable (demo_none\<lparr>task_runs := [demo_task_run 1 None, demo_task_run 2 (Some 1)]\<rparr>)"
    by (simp add: demo_none_def demo_task_run_def)
  note this [THEN tasks_reachable.step, OF create, of "demo_task_run 3 (Some 1)"]
  then have "tasks_reachable demo_with_runs"
    by (simp add: demo_with_runs_def demo_none_def demo_task_run_def)
  then show ?thesis unfolding demo_queued_def by (intro tasks_reachable.step [OF _ append])
qed

lemma demo_tasks_reachable: "tasks_reachable demo_tasks"
  unfolding demo_tasks_def
  by (rule tasks_reachable.step [OF _ complete], rule tasks_reachable.step [OF _ progress],
      rule tasks_reachable.step [OF _ activate], rule tasks_reachable.step [OF _ activate], rule demo_queued_reachable)

text \<open>The rows the store holds.\<close>

definition demo_task :: "i64 \<Rightarrow> (unit, unit, unit, unit, unit) task_row" where
  "demo_task i = the (find_task (tasks demo_tasks) i)"

lemma demo_done: "demo_task 3 \<in> set (tasks demo_tasks)" "task_state (demo_task 3) \<in> {TaskCompleted, TaskFailed}"
  by code_simp+

lemma demo_waiting:
  "demo_task 4 \<in> set (tasks demo_tasks)" "task_run (demo_task 4) = 3" "task_state (demo_task 4) = TaskPending"
  "list_all (\<lambda>q. task_run q = 3 \<and> task_state q = TaskPending \<longrightarrow> sequence_nr (demo_task 4) \<le> sequence_nr q) (tasks demo_tasks)"
  "load_active_run_task 3 demo_tasks = None"
  by code_simp+

lemma demo_capped:
  "find_task (tasks demo_tasks) 1 = Some (demo_task 1)" "campaign_cap (task_spec (demo_task 1)) = Some 100"
  "fst (allocate_campaign_samples 1 [(2, 50), (3, 90)] demo_tasks) = Inr [(2, 50), (3, 50)]"
  by code_simp+

theorem task_store_invariant_witness:
  "distinct (map task_id (tasks demo_tasks)) \<and> distinct (map task_key (tasks demo_tasks))
    \<and> distinct (map task_slot (tasks demo_tasks))"
  using task_store_invariant [OF demo_tasks_reachable] by blast

theorem finished_task_is_final_witness:
  "task_outcome (demo_task 3) \<in> task_outcome ` set (tasks (fail_run_task 9 3 ''late'' demo_tasks)) \<or>
    (\<exists>gone. fail_run_task 9 3 ''late'' demo_tasks = delete_runs gone demo_tasks \<and> task_run (demo_task 3) \<in> set gone)"
  by (rule finished_task_is_final [OF demo_tasks_reachable fail demo_done])

theorem activation_follows_sequence_witness:
  "fst (activate_next_run_task 8 3 demo_tasks) = Inr (Some (activated 8 (demo_task 4)))"
  using activation_follows_sequence [OF demo_tasks_reachable demo_waiting, of 8] by blast

definition demo_granted :: demo_store_type where
  "demo_granted = snd (allocate_campaign_samples 1 [(2, 50), (3, 90)] demo_tasks)"

lemma demo_allocation:
  "allocate_campaign_samples 1 [(2, 50), (3, 90)] demo_tasks = (Inr [(2, 50), (3, 50)], demo_granted)"
  using demo_capped(3) by (simp only: demo_granted_def prod_eq_iff fst_conv snd_conv)


end
