(* ===== verification/Campaign.thy ===== *)
theory Campaign
  imports Controller_Tick Task_Store
begin

section \<open>Integration campaigns\<close>

text \<open>
  The controller of \<open>src/runners/integration_campaign.rs\<close> and the part of
  \<open>src/runners/controller_child.rs\<close> that reads results of children and ends a controller. A
  campaign integrates a weighted sum with one child run per term: it hands out samples in
  quanta, places the workers of its pool on the children that profit most, combines their
  measurements, and stops when the combined error is small enough. Accumulators of children
  appear by their sample counts only; the projection of an accumulator onto the measured
  components, the loading of a stage and the storing of a derived snapshot are arguments.
\<close>

subsection \<open>Orders\<close>

text \<open>
  \<open>f64::total_cmp\<close>. The sign of a NaN that an operation returns is unspecified: \<open>nan_low\<close> tells
  whether NaNs sort below all numbers or above.
\<close>

fun f64_negative :: "f64 \<Rightarrow> bool" where
  "f64_negative (F_Num s _) = s"
| "f64_negative (F_Inf s) = s"
| "f64_negative F_NaN = False"

definition f64_total_le :: "bool \<Rightarrow> f64 \<Rightarrow> f64 \<Rightarrow> bool" where
  "f64_total_le nan_low a b =
     (if a = F_NaN then nan_low \<or> b = F_NaN
      else if b = F_NaN then \<not> nan_low
      else f64_lt a b \<or> f64_eq a b \<and> (f64_negative b \<longrightarrow> f64_negative a))"

text \<open>\<open>ordering.then_with(\<dots>)\<close> and \<open>sort_by\<close>, which is stable, over orders given as \<open>\<le>\<close>.\<close>

definition then_with :: "('a \<Rightarrow> 'a \<Rightarrow> bool) \<Rightarrow> ('a \<Rightarrow> 'a \<Rightarrow> bool) \<Rightarrow> 'a \<Rightarrow> 'a \<Rightarrow> bool" where
  "then_with le1 le2 a b \<longleftrightarrow> le1 a b \<and> (le1 b a \<longrightarrow> le2 a b)"

fun insort_by :: "('a \<Rightarrow> 'a \<Rightarrow> bool) \<Rightarrow> 'a \<Rightarrow> 'a list \<Rightarrow> 'a list" where
  "insort_by le x [] = [x]"
| "insort_by le x (y # ys) = (if le x y then x # y # ys else y # insort_by le x ys)"

definition sort_by :: "('a \<Rightarrow> 'a \<Rightarrow> bool) \<Rightarrow> 'a list \<Rightarrow> 'a list" where
  "sort_by le xs = foldr (insort_by le) xs []"

fun max_or :: "i64 \<Rightarrow> i64 list \<Rightarrow> i64" where
  "max_or d [] = d"
| "max_or d (n # ns) = fold max ns n"


subsection \<open>Results of a child\<close>

type_synonym measured = "measurement_result measurement_output"

record ('e, 't, 'p, 'o) child_task_result =
  ctr_task_state :: run_task_state
  ctr_output :: "measured option"
  ctr_source :: result_source
  ctr_accumulator :: "i64 option"
  ctr_source_task :: "('e, 't, 'p, measured, 'o) task_row"

definition child_task_failed :: "string \<Rightarrow> string" where
  "child_task_failed name = ''child task '' @ name @ '' failed''"

definition task_failure_reason ::
    "run_task_state \<Rightarrow> string \<Rightarrow> string option \<Rightarrow> measured option \<Rightarrow> string option" where
  "task_failure_reason st name reason out =
     (if st \<noteq> TaskFailed then None
      else Some (case out of Some (MeasurementFailed r) \<Rightarrow> r
        | _ \<Rightarrow> (case reason of Some r \<Rightarrow> r | None \<Rightarrow> child_task_failed name)))"

definition controller_child_output :: "('e, 't, 'p, 'o) child_task_result \<Rightarrow> measurement_result child_output" where
  "controller_child_output r =
     (let reason = (case task_failure_reason (ctr_task_state r) (task_name (ctr_source_task r))
                           (failure_reason (ctr_source_task r)) (ctr_output r) of
                      Some x \<Rightarrow> Some x
                    | None \<Rightarrow> (case ctr_output r of Some (MeasurementFailed x) \<Rightarrow> Some x | _ \<Rightarrow> None))
      in \<lparr>child_run_id = Some (rs_run_id (ctr_source r)),
          child_status = (if reason \<noteq> None then ChildFailed else child_state_of_task (ctr_task_state r)),
          child_result = Some (ctr_source r), child_throughput = None,
          child_measurement = ctr_output r, child_failure = reason\<rparr>)"

text \<open>
  The newest stage that published a usable result, whether it is the last one, and the work
  done so far. The state of the child is the state of its whole queue.
\<close>

fun publishes :: "('e, 't, 'p) run_task_spec \<Rightarrow> bool" where
  "publishes (Sample _ publish _ _ _ _ _ _ _) = publish"
| "publishes _ = False"

fun newest_usable ::
    "(string \<Rightarrow> store_error + ('e, 't, 'p, 'o) child_task_result) \<Rightarrow> ('e, 't, 'p, measured, 'o) task_row list
     \<Rightarrow> store_error + ('e, 't, 'p, 'o) child_task_result option" where
  "newest_usable load [] = Inr None"
| "newest_usable load (t # ts) =
     and_then (load (task_name t)) (\<lambda>r.
       if (task_state t = TaskCompleted \<or> nr_completed_samples t > 0)
          \<and> (case ctr_accumulator r of None \<Rightarrow> False | Some n \<Rightarrow> n > 0)
       then Inr (Some r) else newest_usable load ts)"

definition stage_ready ::
    "('e, 't, 'p, measured, 'o) task_row \<Rightarrow> ('e, 't, 'p, 'o) child_task_result \<Rightarrow> bool" where
  "stage_ready final r \<longleftrightarrow>
     rs_task_id (ctr_source r) = task_id final \<and> nr_completed_samples final > 1
     \<and> task_state final \<in> {TaskActive, TaskCompleted}
     \<and> (case ctr_accumulator r of None \<Rightarrow> False | Some n \<Rightarrow> n > 1)"

definition queue_state_of ::
    "('e, 't, 'p, measured, 'o) task_row list \<Rightarrow> ('e, 't, 'p, 'o) child_task_result
     \<Rightarrow> ('e, 't, 'p, 'o) child_task_result" where
  "queue_state_of ts r =
     (case filter (\<lambda>t. task_state t = TaskFailed) ts of
        f # _ \<Rightarrow> r\<lparr>ctr_task_state := TaskFailed,
                   ctr_output := Some (MeasurementFailed
                     (child_task_failed (task_name f) @ (case failure_reason f of None \<Rightarrow> [] | Some x \<Rightarrow> '': '' @ x)))\<rparr>
      | [] \<Rightarrow> r\<lparr>ctr_task_state :=
                  (if list_all (\<lambda>t. task_state t = TaskCompleted) ts then TaskCompleted else TaskActive)\<rparr>)"

definition load_published_child_result ::
    "(string \<Rightarrow> store_error + ('e, 't, 'p, 'o) child_task_result) \<Rightarrow> i32 \<Rightarrow> ('e, 't, 'p, measured, 'o) task_store
     \<Rightarrow> store_error + ('e, 't, 'p, 'o) child_task_result \<times> bool \<times> i64" where
  "load_published_child_result load run s =
     (let ts = list_run_tasks run s; publishing = filter (\<lambda>t. publishes (task_spec t)) ts
      in if publishing = [] then Inl (Internal ''campaign child has no publishing sample task'')
         else let final = last publishing; work = sum_list (map nr_completed_samples ts) in
           and_then (newest_usable load (filter (\<lambda>t. task_state t \<in> {TaskActive, TaskCompleted}) (rev publishing)))
             (\<lambda>found. and_then (case found of Some r \<Rightarrow> Inr r | None \<Rightarrow> load (task_name final))
               (\<lambda>r. Inr (queue_state_of ts r, stage_ready final r, work))))"


subsection \<open>The state of a child\<close>

record campaign_state =
  final_stage_ready :: bool
  work_samples :: i64
  cs_name :: string
  cs_coefficient :: f64
  cs_run :: i32
  cs_status :: child_state
  cs_task_state :: run_task_state
  cs_source :: result_source
  cs_accumulator :: "i64 option"
  cs_throughput :: "f64 option"
  cs_measurement :: "measured option"
  cs_failure :: "string option"

definition state_results :: "campaign_state \<Rightarrow> measurement_result list option" where
  "state_results c = (case cs_measurement c of Some (MeasurementCompleted rs) \<Rightarrow> Some rs | _ \<Rightarrow> None)"

definition state_samples :: "campaign_state \<Rightarrow> i64" where
  "state_samples c = (case state_results c of None \<Rightarrow> 0 | Some rs \<Rightarrow> max_or 0 (map result_samples rs))"

definition needs_pilot :: "i64 \<Rightarrow> campaign_state \<Rightarrow> bool" where
  "needs_pilot minimum c \<longleftrightarrow> \<not> final_stage_ready c \<or> state_samples c < minimum
     \<or> (case state_results c of None \<Rightarrow> True | Some rs \<Rightarrow> list_ex (\<lambda>r. result_uncertainty r = None) rs)"

definition f64_square :: "f64 \<Rightarrow> f64" where
  "f64_square x = f64_mul x x"

fun weighted_variance :: "f64 \<Rightarrow> f64 \<Rightarrow> measurement_result list \<Rightarrow> f64 option" where
  "weighted_variance k acc [] = Some acc"
| "weighted_variance k acc (r # rs) =
     (case result_uncertainty r of None \<Rightarrow> None
      | Some u \<Rightarrow> weighted_variance k (f64_add acc (f64_mul (f64_square k) (f64_square u))) rs)"

definition score :: "allocation_algorithm \<Rightarrow> campaign_state \<Rightarrow> f64 option" where
  "score alg c =
     (case state_results c of None \<Rightarrow> None
      | Some rs \<Rightarrow> (case weighted_variance (cs_coefficient c) f64_zero rs of None \<Rightarrow> None
        | Some v \<Rightarrow> (case alg of
            LargestVariance \<Rightarrow> Some v
          | VarianceReductionRate \<Rightarrow> (case cs_throughput c of None \<Rightarrow> None
            | Some t \<Rightarrow> Some (f64_div (f64_mul v t) (f64_of_nat (nat (max (state_samples c) 1))))))))"


subsection \<open>Choosing the children to serve\<close>

definition granted :: "(i32 \<times> i64) list \<Rightarrow> i32 \<Rightarrow> i64" where
  "granted grants i = (case map_of grants i of None \<Rightarrow> 0 | Some n \<Rightarrow> n)"

definition unfinished :: "(i32 \<times> i64) list \<Rightarrow> campaign_state \<Rightarrow> bool" where
  "unfinished grants c \<longleftrightarrow> granted grants (cs_run c) > work_samples c"

definition score_or_zero :: "allocation_algorithm \<Rightarrow> campaign_state \<Rightarrow> f64" where
  "score_or_zero alg c = (case score alg c of None \<Rightarrow> f64_zero | Some x \<Rightarrow> x)"

text \<open>
  The order of the candidates: unfinished quanta first, then pilots with the least work, then
  the largest scores; incumbents win ties.
\<close>

definition priority_le ::
    "bool \<Rightarrow> (i32 \<times> i64) list \<Rightarrow> i32 list \<Rightarrow> campaign_allocation \<Rightarrow> campaign_state \<Rightarrow> campaign_state \<Rightarrow> bool" where
  "priority_le nan_low grants incumbents al =
     then_with (\<lambda>a b. unfinished grants b \<longrightarrow> unfinished grants a)
    (then_with (\<lambda>a b. needs_pilot (min_samples_per_child al) b \<longrightarrow> needs_pilot (min_samples_per_child al) a)
    (then_with (\<lambda>a b. if needs_pilot (min_samples_per_child al) a then work_samples a \<le> work_samples b
        else f64_total_le nan_low (score_or_zero (algorithm al) b) (score_or_zero (algorithm al) a))
    (then_with (\<lambda>a b. cs_run b \<in> set incumbents \<longrightarrow> cs_run a \<in> set incumbents)
      (\<lambda>a b. cs_run a \<le> cs_run b))))"

definition schedule_children ::
    "bool \<Rightarrow> campaign_state list \<Rightarrow> (i32 \<times> i64) list \<Rightarrow> i32 list \<Rightarrow> i32 list \<Rightarrow> campaign_allocation \<Rightarrow> usize \<Rightarrow> i32 list" where
  "schedule_children nan_low states grants incumbents eligible al cap =
     (let ks = take cap (filter (\<lambda>i. i \<in> set eligible \<and>
                   list_ex (\<lambda>c. cs_run c = i \<and> granted grants i > work_samples c) states) incumbents);
          candidates = filter (\<lambda>c. cs_run c \<in> set eligible \<and> cs_run c \<notin> set ks) states
      in ks @ map cs_run (take (cap - length ks)
                   (sort_by (priority_le nan_low grants incumbents al) candidates)))"

end
