(* ===== verification/Campaign_Tick.thy ===== *)
theory Campaign_Tick
  imports Campaign
begin

section \<open>The tick of a campaign\<close>

text \<open>
  One round of the campaign controller: it reads the published results of the children,
  combines them, decides whether the campaign has failed, has reached its target or is
  drained, chooses the children to serve, grants them samples and places the workers. The
  round works on the tables of tasks and of workers. Creation of missing child runs precedes
  it (\<open>by_label\<close> names the runs), and the numbers shown on the dashboard only are left out.
\<close>

subsection \<open>Combining measurements\<close>

definition same_metric :: "measurement_result \<Rightarrow> measurement_result \<Rightarrow> bool" where
  "same_metric t r \<longleftrightarrow> result_name r = result_name t \<and> result_component r = result_component t"

text \<open>The sums for one component: value, variance, samples, mean and variance of the basic estimate.\<close>

record component_sum =
  sum_value :: f64
  sum_variance :: f64
  sum_samples :: i64
  basic_mean :: f64
  basic_variance :: "f64 option"
  has_basic :: bool

definition component_zero :: component_sum where
  "component_zero = \<lparr>sum_value = f64_zero, sum_variance = f64_zero, sum_samples = 0, basic_mean = f64_zero,
     basic_variance = Some f64_zero, has_basic = False\<rparr>"

definition component_add :: "f64 \<Rightarrow> measurement_result \<Rightarrow> component_sum \<Rightarrow> component_sum option" where
  "component_add k r a =
     (case result_uncertainty r of None \<Rightarrow> None
      | Some u \<Rightarrow>
          let (mean, err) = (case result_basic r of Some b \<Rightarrow> (estimate_mean b, estimate_error b)
                                             | None \<Rightarrow> (result_value r, result_uncertainty r))
          in Some \<lparr>sum_value = f64_add (sum_value a) (f64_mul k (result_value r)),
                   sum_variance = f64_add (sum_variance a) (f64_mul (f64_square k) (f64_square u)),
                   sum_samples = saturating_add_i64 (sum_samples a) (result_samples r),
                   basic_mean = f64_add (basic_mean a) (f64_mul k mean),
                   basic_variance = (case (basic_variance a, err) of
                       (Some v, Some e) \<Rightarrow> Some (f64_add v (f64_mul (f64_square k) (f64_square e))) | _ \<Rightarrow> None),
                   has_basic = (has_basic a \<or> result_basic r \<noteq> None)\<rparr>)"

fun component_sums :: "measurement_result \<Rightarrow> campaign_state list \<Rightarrow> component_sum \<Rightarrow> component_sum option" where
  "component_sums t [] a = Some a"
| "component_sums t (c # cs) a =
     (case state_results c of None \<Rightarrow> None
      | Some rs \<Rightarrow> (case find (same_metric t) rs of None \<Rightarrow> None
        | Some r \<Rightarrow> (case component_add (cs_coefficient c) r a of None \<Rightarrow> None
          | Some a' \<Rightarrow> component_sums t cs a')))"

definition combined_result :: "(f64 \<Rightarrow> f64) \<Rightarrow> measurement_result \<Rightarrow> component_sum \<Rightarrow> measurement_result" where
  "combined_result sqrt_f t a =
     \<lparr>result_estimator = CombinedEstimate,
      result_basic = (if has_basic a \<and> f64_is_finite (basic_mean a)
        then Some \<lparr>estimate_mean = basic_mean a,
                   estimate_error = (case basic_variance a of None \<Rightarrow> None
                     | Some v \<Rightarrow> if f64_is_finite v then Some (sqrt_f v) else None)\<rparr>
        else None),
      result_name = result_name t, result_component = result_component t, result_value = sum_value a,
      result_uncertainty = Some (sqrt_f (sum_variance a)), result_samples = sum_samples a\<rparr>"

fun combine_templates ::
    "(f64 \<Rightarrow> f64) \<Rightarrow> campaign_state list \<Rightarrow> measurement_result list \<Rightarrow> measurement_result list option" where
  "combine_templates sqrt_f cs [] = Some []"
| "combine_templates sqrt_f cs (t # ts) =
     (case component_sums t cs component_zero of None \<Rightarrow> None
      | Some a \<Rightarrow> (case combine_templates sqrt_f cs ts of None \<Rightarrow> None
        | Some rs \<Rightarrow> Some (combined_result sqrt_f t a # rs)))"

definition combine_measurements :: "(f64 \<Rightarrow> f64) \<Rightarrow> campaign_state list \<Rightarrow> measurement_result list option" where
  "combine_measurements sqrt_f cs =
     (if list_ex (\<lambda>c. state_results c = None) cs then None
      else case cs of [] \<Rightarrow> None
      | c # _ \<Rightarrow> (case state_results c of None \<Rightarrow> None | Some ts \<Rightarrow> combine_templates sqrt_f cs ts))"

definition error_target_met :: "campaign_stop \<Rightarrow> measurement_result \<Rightarrow> bool" where
  "error_target_met stop r =
     (case result_uncertainty r of None \<Rightarrow> False
      | Some e \<Rightarrow>
          (case stop_absolute_error stop of None \<Rightarrow> False | Some x \<Rightarrow> f64_le e x) \<or>
          (case stop_relative_error stop of None \<Rightarrow> False
           | Some x \<Rightarrow> \<not> f64_eq (result_value r) f64_zero \<and> f64_le (f64_div e (f64_abs (result_value r))) x))"

definition campaign_should_stop :: "measurement_result list \<Rightarrow> i64 \<Rightarrow> bool \<Rightarrow> campaign_stop \<Rightarrow> bool" where
  "campaign_should_stop rs samples pilots_complete stop =
     (if samples < min_total_samples stop then False
      else if (case max_total_samples stop of None \<Rightarrow> False | Some m \<Rightarrow> m \<le> samples) then True
      else if \<not> pilots_complete then False
      else (stop_absolute_error stop \<noteq> None \<or> stop_relative_error stop \<noteq> None)
           \<and> list_all (error_target_met stop) rs)"


subsection \<open>Outputs\<close>

record campaign_child_output =
  cco_name :: string
  cco_coefficient :: f64
  cco_child :: "measurement_result child_output"
  cco_selected :: bool
  cco_score :: "f64 option"

record campaign_output =
  co_completed :: usize
  co_running :: usize
  co_total :: usize
  co_samples :: i64
  co_selected :: "i32 list"
  co_max_active :: usize
  co_samplers :: usize
  co_evaluators :: usize
  co_capacity :: usize
  co_draining :: bool
  co_combined :: "measured option"
  co_snapshot :: "string option"
  co_children :: "campaign_child_output list"

datatype 'x controller_task_output =
    ParameterScanOutput 'x
  | HyperparameterTuningOutput 'x
  | IntegrationCampaignOutput campaign_output

fun integration_campaign_output :: "'x controller_task_output \<Rightarrow> campaign_output option" where
  "integration_campaign_output (IntegrationCampaignOutput out) = Some out"
| "integration_campaign_output _ = None"

definition worker_capacity :: "campaign_allocation \<Rightarrow> usize \<times> usize \<Rightarrow> usize" where
  "worker_capacity al workers =
     min (min (max_active_runs al) (fst workers)) (snd workers div min_evaluators_per_run al)"

definition child_output_of :: "campaign_allocation \<Rightarrow> i32 set \<Rightarrow> campaign_state \<Rightarrow> campaign_child_output" where
  "child_output_of al sel c =
     \<lparr>cco_name = cs_name c, cco_coefficient = cs_coefficient c,
      cco_child = \<lparr>child_run_id = Some (cs_run c), child_status = cs_status c, child_result = Some (cs_source c),
        child_throughput = cs_throughput c, child_measurement = cs_measurement c, child_failure = cs_failure c\<rparr>,
      cco_selected = (cs_run c \<in> sel),
      cco_score = (case score (algorithm al) c of None \<Rightarrow> None | Some x \<Rightarrow> if f64_is_finite x then Some x else None)\<rparr>"

definition build_output ::
    "campaign_state list \<Rightarrow> i32 list \<Rightarrow> i64 \<Rightarrow> usize \<times> usize \<Rightarrow> measured option \<Rightarrow> string option
     \<Rightarrow> campaign_allocation \<Rightarrow> campaign_output" where
  "build_output states sel samples workers combined snap al =
     \<lparr>co_completed = length (filter (\<lambda>c. cs_task_state c = TaskCompleted) states), co_running = card (set sel),
      co_total = length states, co_samples = samples, co_selected = sorted_list_of_set (set sel),
      co_max_active = max_active_runs al, co_samplers = fst workers, co_evaluators = snd workers,
      co_capacity = worker_capacity al workers, co_draining = False, co_combined = combined, co_snapshot = snap,
      co_children = map (child_output_of al (set sel)) states\<rparr>"

text \<open>
  The derived result is stored again only when a source or a result changed; \<open>==\<close> on floats
  is not reflexive.
\<close>

definition opt_f64_eq :: "f64 option \<Rightarrow> f64 option \<Rightarrow> bool" where
  "opt_f64_eq a b = (case (a, b) of (None, None) \<Rightarrow> True | (Some x, Some y) \<Rightarrow> f64_eq x y | _ \<Rightarrow> False)"

definition basic_eq :: "basic_estimate option \<Rightarrow> basic_estimate option \<Rightarrow> bool" where
  "basic_eq a b =
     (case (a, b) of (None, None) \<Rightarrow> True
      | (Some x, Some y) \<Rightarrow> f64_eq (estimate_mean x) (estimate_mean y) \<and> opt_f64_eq (estimate_error x) (estimate_error y)
      | _ \<Rightarrow> False)"

definition result_eq :: "measurement_result \<Rightarrow> measurement_result \<Rightarrow> bool" where
  "result_eq a b \<longleftrightarrow> result_estimator a = result_estimator b \<and> basic_eq (result_basic a) (result_basic b)
     \<and> result_name a = result_name b \<and> result_component a = result_component b
     \<and> f64_eq (result_value a) (result_value b) \<and> opt_f64_eq (result_uncertainty a) (result_uncertainty b)
     \<and> result_samples a = result_samples b"

definition derived_unchanged :: "campaign_state list \<Rightarrow> measurement_result list \<Rightarrow> campaign_output option \<Rightarrow> bool" where
  "derived_unchanged states metrics previous =
     (case previous of None \<Rightarrow> False
      | Some out \<Rightarrow>
          list_all2 (\<lambda>old new. child_result (cco_child old) = Some (cs_source new)) (co_children out) states
          \<and> (case co_combined out of Some (MeasurementCompleted rs) \<Rightarrow> list_all2 result_eq rs metrics | _ \<Rightarrow> False))"

definition persist_derived_result ::
    "store_error + string \<Rightarrow> campaign_state list \<Rightarrow> measurement_result list option \<Rightarrow> campaign_output option
     \<Rightarrow> store_error + string option" where
  "persist_derived_result save states metrics previous =
     (let previous_id = (case previous of None \<Rightarrow> None | Some out \<Rightarrow> co_snapshot out)
      in case metrics of None \<Rightarrow> Inr previous_id
      | Some ms \<Rightarrow>
          if derived_unchanged states ms previous
             \<or> list_ex (\<lambda>c. case cs_accumulator c of None \<Rightarrow> True | Some n \<Rightarrow> n \<le> 0) states
          then Inr previous_id
          else and_then save (\<lambda>i. Inr (Some i)))"


subsection \<open>The tables and steps on them\<close>

record ('e, 't, 'p, 'x) plane =
  plane_tasks :: "('e, 't, 'p, measured, 'x controller_task_output) task_store"
  plane_nodes :: node_store

type_synonym ('e, 't, 'p, 'x) controller_task = "('e, 't, 'p, measured, 'x controller_task_output) task_row"

type_synonym ('e, 't, 'p, 'x) loaded_child = "('e, 't, 'p, 'x controller_task_output) child_task_result"

text \<open>Sequencing of fallible steps; what a step wrote stays written when a later one fails.\<close>

definition and_do ::
    "(store_error + 'a) \<times> 'w \<Rightarrow> ('a \<Rightarrow> 'w \<Rightarrow> (store_error + 'b) \<times> 'w) \<Rightarrow> (store_error + 'b) \<times> 'w" where
  "and_do p f = (case p of (Inl e, w) \<Rightarrow> (Inl e, w) | (Inr a, w) \<Rightarrow> f a w)"

definition on_tasks where
  "on_tasks f w = (case f (plane_tasks w) of (r, s) \<Rightarrow> (r, w\<lparr>plane_tasks := s\<rparr>))"

definition on_nodes where
  "on_nodes f w = (case f (plane_nodes w) of (r, s) \<Rightarrow> (r, w\<lparr>plane_nodes := s\<rparr>))"

definition persist_output ::
    "i64 \<Rightarrow> campaign_output \<Rightarrow> ('e, 't, 'p, 'x) plane \<Rightarrow> ('e, 't, 'p, 'x) plane" where
  "persist_output i out w =
     w\<lparr>plane_tasks := persist_task_controller_output i (IntegrationCampaignOutput out) (plane_tasks w)\<rparr>"

text \<open>A controller ends only after the release of its placements has been published.\<close>

definition finish_controller ::
    "int \<Rightarrow> i32 \<Rightarrow> i64 \<Rightarrow> string + unit \<Rightarrow> ('e, 't, 'p, 'x) plane \<Rightarrow> (store_error + bool) \<times> ('e, 't, 'p, 'x) plane" where
  "finish_controller now run i outcome w =
     and_do (on_nodes (apply_controller_assignment_plan now (controller_plan_new run [])) w)
       (\<lambda>published w.
          if \<not> published then (Inr False, w)
          else (Inr True, w\<lparr>plane_tasks := (case outcome of
              Inr _ \<Rightarrow> complete_run_task now i (plane_tasks w)
            | Inl reason \<Rightarrow> fail_run_task now i reason (plane_tasks w))\<rparr>))"


subsection \<open>Observing the children\<close>

text \<open>The arguments of a round: the clock, library functions and the loading of results.\<close>

record ('e, 't, 'p, 'x) campaign_env =
  env_now :: int
  env_nan_low :: bool
  env_sqrt :: "f64 \<Rightarrow> f64"
  env_load :: "i32 \<Rightarrow> string \<Rightarrow> store_error + ('e, 't, 'p, 'x) loaded_child"
  env_history :: "i32 \<Rightarrow> f64 list"
  env_project :: "('e, 't, 'p, 'x) loaded_child \<Rightarrow> task_measurement \<Rightarrow> f64 option \<Rightarrow> measurement_result list option"
  env_save :: "store_error + string"

definition latest_throughput :: "f64 list \<Rightarrow> f64 option" where
  "latest_throughput rates = find (\<lambda>r. f64_is_finite r \<and> f64_lt f64_zero r) rates"

definition previous_throughput :: "campaign_output option \<Rightarrow> i32 \<Rightarrow> f64 option" where
  "previous_throughput previous run =
     (case previous of None \<Rightarrow> None
      | Some out \<Rightarrow> (case find (\<lambda>c. child_run_id (cco_child c) = Some run) (co_children out) of
          None \<Rightarrow> None | Some c \<Rightarrow> child_throughput (cco_child c)))"

definition observe_child ::
    "('e, 't, 'p, 'x) campaign_env \<Rightarrow> task_measurement \<Rightarrow> campaign_output option \<Rightarrow> (string \<times> i32) list
     \<Rightarrow> ('e, 't, 'p, 'x) plane \<Rightarrow> campaign_child \<Rightarrow> store_error + campaign_state" where
  "observe_child env meas previous by_label w c =
     (case map_of by_label (child_name c) of
        None \<Rightarrow> Inl (Internal ''created campaign child is missing'')
      | Some run \<Rightarrow>
          and_then (load_published_child_result (env_load env run) run (plane_tasks w)) (\<lambda>(p, ready, work).
            let rate = (case latest_throughput (env_history env run) of
                          Some r \<Rightarrow> Some r | None \<Rightarrow> previous_throughput previous run);
                projected = (if ctr_accumulator p = None then None
                             else map_option MeasurementCompleted (env_project env p meas rate));
                out = controller_child_output (p\<lparr>ctr_output := (case ctr_output p of
                          Some (MeasurementFailed x) \<Rightarrow> Some (MeasurementFailed x) | _ \<Rightarrow> projected)\<rparr>)
            in Inr \<lparr>final_stage_ready = ready, work_samples = work, cs_name = child_name c,
                 cs_coefficient = coefficient c, cs_run = run, cs_status = child_status out,
                 cs_task_state = ctr_task_state p, cs_source = ctr_source p, cs_accumulator = ctr_accumulator p,
                 cs_throughput = rate, cs_measurement = child_measurement out,
                 cs_failure = map_option (\<lambda>r. ''campaign child '' @ child_name c @ '' failed: '' @ r) (child_failure out)\<rparr>))"

fun push_missing :: "i32 list \<Rightarrow> i32 list \<Rightarrow> i32 list" where
  "push_missing acc [] = acc"
| "push_missing acc (i # is) = push_missing (if i \<in> set acc then acc else acc @ [i]) is"

definition placements_of :: "registered_node list \<Rightarrow> assignment_target list" where
  "placements_of workers = List.map_filter desired_assignment workers"

text \<open>Children with a placed sampler come first, then those of the last output.\<close>

definition campaign_incumbents :: "i32 list \<Rightarrow> registered_node list \<Rightarrow> campaign_output option \<Rightarrow> i32 list" where
  "campaign_incumbents kids workers previous =
     push_missing
       (sorted_list_of_set (set (map target_run
          (filter (\<lambda>t. target_role t = SamplerAggregator \<and> target_run t \<in> set kids) (placements_of workers)))))
       (case previous of None \<Rightarrow> [] | Some out \<Rightarrow> co_selected out)"

definition worker_counts :: "i32 \<Rightarrow> i32 list \<Rightarrow> registered_node list \<Rightarrow> usize \<times> usize" where
  "worker_counts run kids workers =
     (let ts = filter (\<lambda>t. target_run t = run \<or> target_run t \<in> set kids) (placements_of workers)
      in (length (filter (\<lambda>t. target_role t = SamplerAggregator) ts),
          length (filter (\<lambda>t. target_role t = Evaluator) ts)))"


subsection \<open>The decision\<close>

record campaign_view =
  cv_states :: "campaign_state list"
  cv_kids :: "i32 list"
  cv_workers :: "registered_node list"
  cv_counts :: "usize \<times> usize"
  cv_grants :: "(i32 \<times> i64) list"
  cv_incumbents :: "i32 list"
  cv_previous :: "campaign_output option"
  cv_combined :: "measurement_result list option"

datatype campaign_decision =
    FailCampaign string
  | AwaitRelease
  | CompleteCampaign
  | ServeChildren "i32 list" "(i32 \<times> i64) list" bool

definition view_samples :: "campaign_view \<Rightarrow> i64" where
  "view_samples v = sum_list (map work_samples (cv_states v))"

definition view_outstanding :: "campaign_view \<Rightarrow> bool" where
  "view_outstanding v = list_ex (\<lambda>c. cs_task_state c \<noteq> TaskCompleted \<and> unfinished (cv_grants v) c) (cv_states v)"

definition first_failure :: "campaign_state list \<Rightarrow> string option" where
  "first_failure states = (case filter (\<lambda>c. cs_failure c \<noteq> None) states of [] \<Rightarrow> None | c # _ \<Rightarrow> cs_failure c)"

definition view_failure :: "campaign_stop \<Rightarrow> campaign_view \<Rightarrow> string option" where
  "view_failure stop v =
     (case first_failure (cv_states v) of Some x \<Rightarrow> Some x
      | None \<Rightarrow>
          if (cv_combined v = None \<or> \<not> list_all final_stage_ready (cv_states v))
             \<and> (case max_total_samples stop of None \<Rightarrow> False | Some m \<Rightarrow> m \<le> view_samples v)
          then Some ''campaign sample budget exhausted before every child published a usable result''
          else None)"

definition target_reached :: "campaign_stop \<Rightarrow> campaign_allocation \<Rightarrow> campaign_view \<Rightarrow> bool" where
  "target_reached stop al v =
     (case cv_combined v of None \<Rightarrow> False
      | Some rs \<Rightarrow> campaign_should_stop rs (view_samples v)
          (list_all (\<lambda>c. final_stage_ready c \<and> state_samples c \<ge> min_samples_per_child al) (cv_states v)) stop)"

definition view_draining :: "campaign_stop \<Rightarrow> campaign_allocation \<Rightarrow> campaign_view \<Rightarrow> bool" where
  "view_draining stop al v \<longleftrightarrow> view_outstanding v \<and>
     (target_reached stop al v \<or> (case cv_previous v of None \<Rightarrow> False | Some out \<Rightarrow> co_draining out))"

definition can_allocate :: "campaign_stop \<Rightarrow> campaign_allocation \<Rightarrow> campaign_view \<Rightarrow> bool" where
  "can_allocate stop al v \<longleftrightarrow>
     map_option (\<lambda>m. saturating_sub_i64 m (sum_list (map snd (cv_grants v)))) (max_total_samples stop) \<noteq> Some 0
     \<and> \<not> view_draining stop al v"

definition eligible_children :: "campaign_stop \<Rightarrow> campaign_allocation \<Rightarrow> campaign_view \<Rightarrow> i32 list" where
  "eligible_children stop al v =
     map cs_run (filter (\<lambda>c. cs_task_state c \<noteq> TaskCompleted \<and> (can_allocate stop al v \<or> unfinished (cv_grants v) c))
       (cv_states v))"

definition quantum :: "campaign_allocation \<Rightarrow> campaign_state \<Rightarrow> i64" where
  "quantum al c =
     (let pilot_remaining = saturating_sub_i64 (max (min_samples_per_child al) 2)
                              (if final_stage_ready c then state_samples c else 0)
      in if needs_pilot (min_samples_per_child al) c \<and> pilot_remaining > 0
         then min (allocation_window_samples al) pilot_remaining
         else allocation_window_samples al)"

definition request_for ::
    "campaign_allocation \<Rightarrow> (i32 \<times> i64) list \<Rightarrow> campaign_state list \<Rightarrow> i32 \<Rightarrow> (i32 \<times> i64) option" where
  "request_for al grants states i =
     (case find (\<lambda>c. cs_run c = i) states of None \<Rightarrow> None
      | Some c \<Rightarrow> if granted grants i > work_samples c then None
                  else Some (i, saturating_add_i64 (work_samples c) (quantum al c)))"

definition decide :: "bool \<Rightarrow> campaign_stop \<Rightarrow> campaign_allocation \<Rightarrow> campaign_view \<Rightarrow> campaign_decision" where
  "decide nan_low stop al v =
     (case view_failure stop v of Some reason \<Rightarrow> FailCampaign reason
      | None \<Rightarrow>
          if target_reached stop al v \<and> \<not> view_outstanding v
          then if list_ex (\<lambda>n. case current_assignment n of None \<Rightarrow> False | Some t \<Rightarrow> target_run t \<in> set (cv_kids v))
                    (cv_workers v)
               then AwaitRelease else CompleteCampaign
          else if eligible_children stop al v = []
          then FailCampaign ''integration campaign exhausted all child runs before reaching its stop condition''
          else let sel = schedule_children nan_low (cv_states v) (cv_grants v) (cv_incumbents v)
                     (eligible_children stop al v) al (worker_capacity al (cv_counts v))
               in ServeChildren sel
                    (if can_allocate stop al v
                     then List.map_filter (request_for al (cv_grants v) (cv_states v)) sel else [])
                    (view_draining stop al v))"


subsection \<open>The round\<close>

definition carry_out ::
    "int \<Rightarrow> i32 \<Rightarrow> i64 \<Rightarrow> campaign_allocation \<Rightarrow> campaign_view \<Rightarrow> string option \<Rightarrow> campaign_decision
     \<Rightarrow> ('e, 't, 'p, 'x) plane \<Rightarrow> (store_error + bool) \<times> ('e, 't, 'p, 'x) plane" where
  "carry_out now run i al v snap d w =
     (let combined = map_option MeasurementCompleted (cv_combined v);
          out = (\<lambda>sel. build_output (cv_states v) sel (view_samples v) (cv_counts v) combined snap al)
      in case d of
        FailCampaign reason \<Rightarrow> finish_controller now run i (Inl reason) (persist_output i (out []) w)
      | AwaitRelease \<Rightarrow>
          and_do (on_nodes (apply_controller_assignment_plan now (controller_plan_new run []))
                   (persist_output i (out []\<lparr>co_draining := True\<rparr>) w))
            (\<lambda>_ w. (Inr False, w))
      | CompleteCampaign \<Rightarrow>
          (let w = persist_output i (out []) w;
               w = (case combined of None \<Rightarrow> w
                    | Some m \<Rightarrow> w\<lparr>plane_tasks := persist_task_measurement_output i m (plane_tasks w)\<rparr>)
           in finish_controller now run i (Inr ()) w)
      | ServeChildren sel requests draining \<Rightarrow>
          and_do (if requests = [] then (Inr [], w) else on_tasks (allocate_campaign_samples i requests) w)
            (\<lambda>_ w. and_do (on_nodes (apply_controller_assignment_plan now (controller_plan_new run sel)) w)
              (\<lambda>_ w. (Inr False, persist_output i (out sel\<lparr>co_draining := draining\<rparr>) w))))"

definition previous_output :: "('e, 't, 'p, 'x) controller_task \<Rightarrow> campaign_output option" where
  "previous_output task = (case controller_out task of None \<Rightarrow> None | Some out \<Rightarrow> integration_campaign_output out)"

definition observed_view ::
    "('e, 't, 'p, 'x) campaign_env \<Rightarrow> i32 \<Rightarrow> campaign_output option \<Rightarrow> i32 list \<Rightarrow> registered_node list
     \<Rightarrow> campaign_state list \<Rightarrow> (i32 \<times> i64) list \<Rightarrow> campaign_view" where
  "observed_view env run previous kids workers states grants =
     \<lparr>cv_states = states, cv_kids = kids, cv_workers = workers, cv_counts = worker_counts run kids workers,
      cv_grants = grants, cv_incumbents = campaign_incumbents kids workers previous, cv_previous = previous,
      cv_combined = combine_measurements (env_sqrt env) states\<rparr>"

definition campaign_tick ::
    "('e, 't, 'p, 'x) campaign_env \<Rightarrow> i32 \<Rightarrow> ('e, 't, 'p, 'x) controller_task \<Rightarrow> (string \<times> i32) list
     \<Rightarrow> ('e, 't, 'p, 'x) plane \<Rightarrow> (store_error + bool) \<times> ('e, 't, 'p, 'x) plane" where
  "campaign_tick env run task by_label w =
     (case task_spec task of
        IntegrationCampaign children meas stop al \<Rightarrow>
          (let previous = previous_output task; workers = list_nodes (env_now env) None (plane_nodes w)
           in case try_map (observe_child env meas previous by_label w) children of
             Inl e \<Rightarrow> (Inl e, w)
           | Inr states \<Rightarrow>
               and_do (on_tasks (allocate_campaign_samples (task_id task) []) w) (\<lambda>grants w.
                 let v = observed_view env run previous (map snd by_label) workers states grants
                 in case persist_derived_result (env_save env) states (cv_combined v) previous of
                   Inl e \<Rightarrow> (Inl e, w)
                 | Inr snap \<Rightarrow>
                     carry_out (env_now env) run (task_id task) al v snap (decide (env_nan_low env) stop al v) w))
      | _ \<Rightarrow> (Inl (Internal ''integration campaign runner got another task kind''), w))"

end
