(* ===== verification/Campaign_Laws.thy ===== *)
theory Campaign_Laws
  imports Campaign_Tick Task_Laws Node_Laws
begin

section \<open>Laws of the campaign controller\<close>

text \<open>
  The order of the candidates is a total preorder, so that the stable sort picks the best of
  them; what the controller schedules, combines, grants and publishes.
\<close>

subsection \<open>Sorting by an order\<close>

locale total_preorder =
  fixes le :: "'a \<Rightarrow> 'a \<Rightarrow> bool"
  assumes le_total: "le x y \<or> le y x"
    and le_trans: "le x y \<Longrightarrow> le y z \<Longrightarrow> le x z"
begin

lemma set_insort_by: "set (insort_by le x xs) = insert x (set xs)"
  by (induction xs) auto

lemma sorted_insort_by: "sorted_wrt le xs \<Longrightarrow> sorted_wrt le (insort_by le x xs)"
proof (induction xs)
  case (Cons y ys)
  then show ?case using le_total [of x y] le_trans [of x y] by (auto simp: set_insort_by)
qed simp

lemma sorted_sort_by: "sorted_wrt le (sort_by le xs)"
  by (induction xs) (simp_all add: sort_by_def sorted_insort_by)

lemma least_first:
  assumes "x \<in> set (take n (sort_by le xs))" "y \<in> set (drop n (sort_by le xs))"
  shows "le x y"
  using sorted_sort_by [of xs] assms sorted_wrt_append [of le "take n (sort_by le xs)" "drop n (sort_by le xs)"]
  by simp

end

lemma mset_insort_by [simp]: "mset (insort_by le x xs) = add_mset x (mset xs)"
  by (induction xs) auto

lemma mset_sort_by [simp]: "mset (sort_by le xs) = mset xs"
  by (induction xs) (simp_all add: sort_by_def)

lemma set_sort_by [simp]: "set (sort_by le xs) = set xs"
  by (metis mset_sort_by set_mset_mset)

lemma length_sort_by [simp]: "length (sort_by le xs) = length xs"
  by (metis mset_sort_by size_mset)

lemma distinct_map_sort_by [simp]: "distinct (map k (sort_by le xs)) = distinct (map k xs)"
  by (metis mset_map mset_sort_by mset_eq_imp_distinct_iff)

text \<open>
  An order refined by a second one on the classes of the first; the second need not be an
  order across classes.
\<close>

definition preorder_within :: "'a set \<Rightarrow> ('a \<Rightarrow> 'a \<Rightarrow> bool) \<Rightarrow> bool" where
  "preorder_within A le \<longleftrightarrow> (\<forall>x \<in> A. \<forall>y \<in> A. le x y \<or> le y x) \<and>
     (\<forall>x \<in> A. \<forall>y \<in> A. \<forall>z \<in> A. le x y \<longrightarrow> le y z \<longrightarrow> le x z)"

lemma preorder_within_then:
  assumes 1: "preorder_within A le1"
    and 2: "\<And>c. c \<in> A \<Longrightarrow> preorder_within {x \<in> A. le1 x c \<and> le1 c x} le2"
  shows "preorder_within A (then_with le1 le2)"
proof -
  have tot: "le1 x y \<or> le1 y x" if "x \<in> A" "y \<in> A" for x y
    using 1 [unfolded preorder_within_def, THEN conjunct1, rule_format, OF that] .
  have tr: "le1 x z" if "x \<in> A" "y \<in> A" "z \<in> A" "le1 x y" "le1 y z" for x y z
    using 1 [unfolded preorder_within_def, THEN conjunct2, rule_format, OF that] .
  define cls where "cls c = {x \<in> A. le1 x c \<and> le1 c x}" for c
  have 2: "preorder_within (cls c) le2" if "c \<in> A" for c using 2 [OF that] by (simp add: cls_def)
  have self: "c \<in> cls c" if "c \<in> A" for c using tot [OF that that] that by (simp add: cls_def)
  have t2: "le2 x y \<or> le2 y x" if "x \<in> A" "y \<in> A" "le1 x y" "le1 y x" for x y
  proof -
    have "y \<in> cls x" using that by (simp add: cls_def)
    then show ?thesis using 2 [OF that(1)] self [OF that(1)] unfolding preorder_within_def by blast
  qed
  have tr2: "le2 x z"
    if "x \<in> A" "y \<in> A" "z \<in> A" "le1 x y" "le1 y x" "le1 z y" "le1 y z" "le2 x y" "le2 y z" for x y z
  proof -
    have "x \<in> cls y" "z \<in> cls y" using that by (simp_all add: cls_def)
    then show ?thesis using 2 [OF that(2)] self [OF that(2)] that(8,9) unfolding preorder_within_def by blast
  qed
  show ?thesis
    unfolding preorder_within_def
  proof (intro conjI ballI impI)
    fix x y assume a: "x \<in> A" "y \<in> A"
    show "then_with le1 le2 x y \<or> then_with le1 le2 y x"
      using tot [OF a] t2 [OF a] by (auto simp: then_with_def)
  next
    fix x y z
    assume a: "x \<in> A" "y \<in> A" "z \<in> A" and xy: "then_with le1 le2 x y" and yz: "then_with le1 le2 y z"
    have "le1 x z" using xy yz tr [OF a] by (simp add: then_with_def)
    moreover have "le2 x z" if "le1 z x"
    proof -
      have "le1 z y" "le1 y x" using tr [OF a(3,1,2) that] tr [OF a(2,3,1) _ that] xy yz
        by (simp_all add: then_with_def)
      then show ?thesis using tr2 [OF a] xy yz by (simp add: then_with_def)
    qed
    ultimately show "then_with le1 le2 x z" by (simp add: then_with_def)
  qed
qed

lemma preorder_within_flag [simp]: "preorder_within A (\<lambda>a b. P b \<longrightarrow> P a)"
  by (auto simp: preorder_within_def)

lemma preorder_within_key [simp]: "preorder_within A (\<lambda>a b. k a \<le> (k b :: int))"
  by (auto simp: preorder_within_def)

lemma f64_total_le_total: "f64_total_le nan_low a b \<or> f64_total_le nan_low b a"
  by (cases a; cases b) (auto simp: f64_total_le_def f64_signed_def split: if_splits)

lemma f64_total_le_trans: "f64_total_le nan_low a b \<Longrightarrow> f64_total_le nan_low b c \<Longrightarrow> f64_total_le nan_low a c"
  by (cases a; cases b; cases c) (auto simp: f64_total_le_def f64_signed_def split: if_splits)

lemma preorder_within_total [simp]: "preorder_within A (\<lambda>a b. f64_total_le nan_low (k b) (k a))"
  unfolding preorder_within_def by (intro conjI ballI impI f64_total_le_total) (rule f64_total_le_trans)

lemma preorder_within_cong:
  assumes "preorder_within A le" "\<And>x y. x \<in> A \<Longrightarrow> y \<in> A \<Longrightarrow> le' x y = le x y"
  shows "preorder_within A le'"
  unfolding preorder_within_def
proof (intro conjI ballI impI)
  note le = assms(1) [unfolded preorder_within_def]
  fix x y assume xy: "x \<in> A" "y \<in> A"
  show "le' x y \<or> le' y x"
    unfolding assms(2) [OF xy] assms(2) [OF xy(2,1)] by (rule le [THEN conjunct1, rule_format, OF xy])
  fix z assume z: "z \<in> A" and "le' x y" "le' y z"
  then have "le x y" "le y z" using assms(2) [OF xy] assms(2) [OF xy(2) z] by iprover+
  then show "le' x z"
    unfolding assms(2) [OF xy(1) z] by (rule le [THEN conjunct2, rule_format, OF xy z])
qed

lemma preorder_within_choice:
  assumes "\<forall>x \<in> A. \<forall>y \<in> A. P x = P y" "preorder_within A le1" "preorder_within A le2"
  shows "preorder_within A (\<lambda>a b. if P a then le1 a b else le2 a b)"
proof (cases "\<exists>x \<in> A. P x")
  case True
  then have "P x" if "x \<in> A" for x using assms(1) that by blast
  then show ?thesis by (intro preorder_within_cong [OF assms(2)]) simp
next
  case False
  then show ?thesis by (intro preorder_within_cong [OF assms(3)]) simp
qed

lemma priority_preorder: "preorder_within A (priority_le nan_low grants incumbents al)"
  unfolding priority_le_def
proof (intro preorder_within_then preorder_within_flag preorder_within_key)
  fix c d
  let ?pilot = "needs_pilot (min_samples_per_child al)"
  let ?A = "{x \<in> {x \<in> A. (unfinished grants c \<longrightarrow> unfinished grants x) \<and> (unfinished grants x \<longrightarrow> unfinished grants c)}.
    (?pilot d \<longrightarrow> ?pilot x) \<and> (?pilot x \<longrightarrow> ?pilot d)}"
  have "\<forall>x \<in> ?A. \<forall>y \<in> ?A. ?pilot x = ?pilot y" by (cases "?pilot d") simp_all
  then show "preorder_within ?A (\<lambda>a b. if ?pilot a then work_samples a \<le> work_samples b
      else f64_total_le nan_low (score_or_zero (algorithm al) b) (score_or_zero (algorithm al) a))"
    by (rule preorder_within_choice) (rule preorder_within_key preorder_within_total)+
qed

interpretation priority: total_preorder "priority_le nan_low grants incumbents al"
proof
  note order = priority_preorder [of UNIV nan_low grants incumbents al, unfolded preorder_within_def]
  show "priority_le nan_low grants incumbents al x y \<or> priority_le nan_low grants incumbents al y x" for x y
    by (rule order [THEN conjunct1, rule_format, OF UNIV_I UNIV_I])
  show "priority_le nan_low grants incumbents al x z"
    if "priority_le nan_low grants incumbents al x y" "priority_le nan_low grants incumbents al y z" for x y z
    by (rule order [THEN conjunct2, rule_format, OF UNIV_I UNIV_I UNIV_I that])
qed


subsection \<open>Scheduling\<close>

definition kept_incumbents :: "campaign_state list \<Rightarrow> (i32 \<times> i64) list \<Rightarrow> i32 list \<Rightarrow> i32 list \<Rightarrow> i32 list" where
  "kept_incumbents states grants incumbents eligible =
     filter (\<lambda>i. i \<in> set eligible \<and> list_ex (\<lambda>c. cs_run c = i \<and> granted grants i > work_samples c) states) incumbents"

definition challengers :: "campaign_state list \<Rightarrow> i32 list \<Rightarrow> i32 list \<Rightarrow> campaign_state list" where
  "challengers states eligible ks = filter (\<lambda>c. cs_run c \<in> set eligible \<and> cs_run c \<notin> set ks) states"

lemma schedule_children_split:
  "schedule_children nan_low states grants incumbents eligible al cap =
    (let ks = take cap (kept_incumbents states grants incumbents eligible)
     in ks @ map cs_run (take (cap - length ks)
          (sort_by (priority_le nan_low grants incumbents al) (challengers states eligible ks))))"
  by (simp add: schedule_children_def kept_incumbents_def challengers_def Let_def)

lemma kept_incumbents_unfinished:
  assumes "i \<in> set (kept_incumbents states grants incumbents eligible)" "c \<in> set states" "cs_run c = i"
    and "distinct (map cs_run states)"
  shows "unfinished grants c"
proof -
  obtain d where d: "d \<in> set states" "cs_run d = i" "granted grants i > work_samples d"
    using assms(1) by (auto simp: kept_incumbents_def list_ex_iff)
  then have "d = c" using assms(2-4) by (simp add: distinct_map inj_on_def)
  then show ?thesis using d by (simp add: unfinished_def)
qed

lemma card_take_distinct: "distinct xs \<Longrightarrow> card (set (take n xs)) = min n (length xs)"
  by (simp add: distinct_card min.commute)

lemma schedule_members:
  assumes "distinct (map cs_run states)" "distinct incumbents" "set eligible \<subseteq> cs_run ` set states"
    and "schedule_children nan_low states grants incumbents eligible al cap = sel"
  shows "distinct sel \<and> set sel \<subseteq> set eligible \<and> length sel = min cap (card (set eligible))"
proof -
  let ?kept = "take cap (kept_incumbents states grants incumbents eligible)"
  let ?rest = "challengers states eligible ?kept"
  let ?sorted = "sort_by (priority_le nan_low grants incumbents al) ?rest"
  have sel: "sel = ?kept @ map cs_run (take (cap - length ?kept) ?sorted)"
    using assms(4) by (simp add: schedule_children_split Let_def)
  have kept: "distinct ?kept" "set ?kept \<subseteq> set eligible"
    using assms(2) set_take_subset [of cap "kept_incumbents states grants incumbents eligible"]
    by (auto simp: kept_incumbents_def)
  have rest: "distinct (map cs_run ?rest)" "cs_run ` set ?rest = set eligible - set ?kept"
    using assms(1,3) by (auto simp: challengers_def distinct_map_filter)
  have more: "distinct (map cs_run (take n ?sorted))" "cs_run ` set (take n ?sorted) \<subseteq> set eligible - set ?kept" for n
  proof -
    have "distinct (map cs_run ?sorted)" using rest(1) by simp
    from distinct_take [OF this, of n] show "distinct (map cs_run (take n ?sorted))" by (simp add: take_map)
    have "set (take n ?sorted) \<subseteq> set ?rest" using set_take_subset [of n ?sorted] by simp
    then show "cs_run ` set (take n ?sorted) \<subseteq> set eligible - set ?kept" using rest(2) by blast
  qed
  have "card (set eligible - set ?kept) = length ?rest"
    using distinct_card [OF rest(1)] rest(2) by simp
  then have "length ?rest = card (set eligible) - length ?kept"
    using kept by (simp add: card_Diff_subset distinct_card)
  moreover have "length ?kept \<le> card (set eligible)"
    using card_mono [OF _ kept(2)] kept(1) by (simp add: distinct_card)
  moreover have "length ?kept \<le> cap" by simp
  ultimately have "length sel = min cap (card (set eligible))"
    unfolding sel length_append length_map length_take [of "cap - length ?kept"] length_sort_by by arith
  moreover have "set (map cs_run (take (cap - length ?kept) ?sorted)) \<subseteq> set eligible - set ?kept"
    using more(2) by simp
  then have "distinct sel" "set sel \<subseteq> set eligible"
    unfolding sel using kept more(1) by (auto simp del: set_map)
  ultimately show ?thesis by blast
qed



subsection \<open>What a round leaves behind\<close>

definition plane_reachable :: "('e, 't, 'p, 'x) plane \<Rightarrow> bool" where
  "plane_reachable w \<longleftrightarrow> tasks_reachable (plane_tasks w) \<and> nodes_reachable (plane_nodes w)"

lemma and_do_rule:
  assumes "P (snd p)" "\<And>a w. p = (Inr a, w) \<Longrightarrow> P w \<Longrightarrow> P (snd (f a w))"
  shows "P (snd (and_do p f))"
  using assms by (cases p; cases "fst p") (auto simp: and_do_def)

lemmas plane_and_do = and_do_rule [where P = plane_reachable]

lemma tasks_reachable_fold:
  "tasks_reachable s \<Longrightarrow> tasks_reachable (persist_task_controller_output i out s)"
  "tasks_reachable s \<Longrightarrow> tasks_reachable (persist_task_measurement_output i m s)"
  "tasks_reachable s \<Longrightarrow> tasks_reachable (complete_run_task now i s)"
  "tasks_reachable s \<Longrightarrow> tasks_reachable (fail_run_task now i reason s)"
  "tasks_reachable s \<Longrightarrow> tasks_reachable (snd (allocate_campaign_samples i rs s))"
  by (rule tasks_reachable.step, assumption, rule task_step.intros)+

lemma plane_persist_output [simp]:
  "plane_nodes (persist_output i out w) = plane_nodes w"
  "plane_tasks (persist_output i out w) = persist_task_controller_output i (IntegrationCampaignOutput out) (plane_tasks w)"
  by (simp_all add: persist_output_def)

lemma plane_on_nodes [simp]:
  "plane_tasks (snd (on_nodes f w)) = plane_tasks w" "plane_nodes (snd (on_nodes f w)) = snd (f (plane_nodes w))"
  "fst (on_nodes f w) = fst (f (plane_nodes w))"
  by (simp_all add: on_nodes_def split: prod.splits)

lemma plane_on_tasks [simp]:
  "plane_tasks (snd (on_tasks f w)) = snd (f (plane_tasks w))" "plane_nodes (snd (on_tasks f w)) = plane_nodes w"
  "fst (on_tasks f w) = fst (f (plane_tasks w))"
  by (simp_all add: on_tasks_def split: prod.splits)

lemma placement_reachable:
  "nodes_reachable s \<Longrightarrow> nodes_reachable (snd (apply_controller_assignment_plan now p s))"
  unfolding apply_controller_assignment_plan_def Let_def by (rule nodes_reachable.step, assumption, rule update)

lemma plane_reachable_place:
  "plane_reachable w \<Longrightarrow> plane_reachable (snd (on_nodes (apply_controller_assignment_plan now p) w))"
  by (simp add: plane_reachable_def placement_reachable)

lemma plane_reachable_persist: "plane_reachable w \<Longrightarrow> plane_reachable (persist_output i out w)"
  by (simp add: plane_reachable_def tasks_reachable_fold)

lemma plane_reachable_allocate:
  "plane_reachable w \<Longrightarrow> plane_reachable (snd (on_tasks (allocate_campaign_samples i rs) w))"
  by (simp add: plane_reachable_def tasks_reachable_fold)

lemma plane_reachable_finish:
  assumes "plane_reachable w"
  shows "plane_reachable (snd (finish_controller now run i outcome w))"
  unfolding finish_controller_def
proof (rule plane_and_do [OF plane_reachable_place [OF assms]])
  fix published w' assume "plane_reachable w'"
  then show "plane_reachable (snd (if \<not> published then (Inr False, w') else (Inr True, w'\<lparr>plane_tasks :=
      (case outcome of Inr _ \<Rightarrow> complete_run_task now i (plane_tasks w')
        | Inl reason \<Rightarrow> fail_run_task now i reason (plane_tasks w'))\<rparr>)))"
    by (auto simp: plane_reachable_def tasks_reachable_fold split: sum.split)
qed

lemma plane_reachable_carry_out:
  assumes "plane_reachable w"
  shows "plane_reachable (snd (carry_out now run i al v snap d w))"
proof (cases d)
  case (ServeChildren sel requests draining)
  let ?p = "if requests = [] then (Inr [], w) else on_tasks (allocate_campaign_samples i requests) w"
  have "plane_reachable (snd ?p)" using assms plane_reachable_allocate by auto
  then show ?thesis
    unfolding carry_out_def ServeChildren Let_def campaign_decision.case
    by (intro plane_and_do plane_reachable_place)
      (simp_all only: snd_conv, rule plane_reachable_persist)
next
  case CompleteCampaign
  show ?thesis
    using assms unfolding carry_out_def CompleteCampaign Let_def campaign_decision.case
    by (intro plane_reachable_finish) (auto simp: plane_reachable_def tasks_reachable_fold split: option.splits)
qed (use assms in \<open>auto simp: carry_out_def Let_def intro!: plane_reachable_finish plane_reachable_persist
      plane_and_do plane_reachable_place\<close>)

lemma plane_reachable_tick:
  assumes "plane_reachable w"
  shows "plane_reachable (snd (campaign_tick env run task by_label w))"
proof (cases "task_spec task")
  case (IntegrationCampaign children meas stop al)
  show ?thesis
  proof (cases "try_map (observe_child env meas (previous_output task) by_label w) children")
    case (Inr states)
    show ?thesis
      unfolding campaign_tick_def IntegrationCampaign run_task_spec.case Let_def Inr sum.case
      by (rule plane_and_do [OF plane_reachable_allocate [OF assms]])
        (auto intro: plane_reachable_carry_out split: sum.splits)
  qed (use assms in \<open>simp add: campaign_tick_def IntegrationCampaign Let_def\<close>)
qed (use assms in \<open>simp_all add: campaign_tick_def\<close>)


text \<open>The row of the campaign's own task.\<close>

lemma find_task_map:
  assumes "\<And>r. task_id (f r) = task_id r"
  shows "find_task (map f rs) i = map_option f (find_task rs i)"
  by (induction rs) (auto simp: assms)

lemma find_task_updates:
  "find_task (tasks (persist_task_controller_output i out s)) j =
    map_option (\<lambda>r. if task_id r = i then r\<lparr>controller_out := Some out\<rparr> else r) (find_task (tasks s) j)"
  "find_task (tasks (persist_task_measurement_output i m s)) j =
    map_option (\<lambda>r. if task_id r = i then r\<lparr>measurement_out := Some m\<rparr> else r) (find_task (tasks s) j)"
  "find_task (tasks (complete_run_task now i s)) j =
    map_option (\<lambda>r. if task_id r = i \<and> task_state r = TaskActive then r\<lparr>task_state := TaskCompleted,
      completed_at := Some now, failure_reason := None, failed_at := None\<rparr> else r) (find_task (tasks s) j)"
  "find_task (tasks (fail_run_task now i reason s)) j =
    map_option (\<lambda>r. if task_id r = i \<and> task_state r \<in> {TaskPending, TaskActive} then r\<lparr>task_state := TaskFailed,
      failure_reason := Some reason, failed_at := Some now\<rparr> else r) (find_task (tasks s) j)"
  by (simp_all add: persist_task_controller_output_def persist_task_measurement_output_def complete_run_task_def
      fail_run_task_def find_task_map)

lemma find_task_id: "find_task rs i = Some r \<Longrightarrow> task_id r = i"
  by (induction rs) (auto split: if_splits)

lemma tasks_allocate [simp]: "tasks (snd (allocate_campaign_samples i rs s)) = tasks s"
  by (simp add: allocate_campaign_samples_def Let_def split: option.splits sum.splits)

lemma budgets_updates [simp]:
  "budgets (persist_task_controller_output i out s) = budgets s"
  "budgets (persist_task_measurement_output i m s) = budgets s"
  "budgets (complete_run_task now i s) = budgets s" "budgets (fail_run_task now i reason s) = budgets s"
  by (simp_all add: persist_task_controller_output_def persist_task_measurement_output_def complete_run_task_def
      fail_run_task_def)

definition campaign_row :: "i64 \<Rightarrow> ('e, 't, 'p, 'x) plane \<Rightarrow> ('e, 't, 'p, 'x) controller_task option" where
  "campaign_row i w = find_task (tasks (plane_tasks w)) i"

definition row_standing where
  "row_standing r = (task_spec r, task_state r, failure_reason r)"

definition campaign_standing where
  "campaign_standing i w = map_option row_standing (campaign_row i w)"

lemma campaign_standing_same [simp]:
  "campaign_standing i (persist_output j out w) = campaign_standing i w"
  "campaign_standing i (w\<lparr>plane_tasks := persist_task_measurement_output j m (plane_tasks w)\<rparr>) = campaign_standing i w"
  "campaign_standing i (snd (on_nodes f w)) = campaign_standing i w"
  "campaign_standing i (snd (on_tasks (allocate_campaign_samples j rs) w)) = campaign_standing i w"
  "campaign_standing i (w\<lparr>plane_nodes := ns\<rparr>) = campaign_standing i w"
  by (auto simp: campaign_standing_def campaign_row_def find_task_updates row_standing_def option.map_comp comp_def
      intro!: map_option_cong)


lemma and_do_Inr:
  assumes "and_do p f = (Inr b, w')"
  obtains a w where "p = (Inr a, w)" "f a w = (Inr b, w')"
  using assms by (cases p; cases "fst p") (auto simp: and_do_def)

lemma campaign_tick_split:
  assumes "campaign_tick env run task by_label w = (Inr ended, w')"
    and "task_spec task = IntegrationCampaign children meas stop al"
  obtains states grants snap v w1 where
    "try_map (observe_child env meas (previous_output task) by_label w) children = Inr states"
    "on_tasks (allocate_campaign_samples (task_id task) []) w = (Inr grants, w1)"
    "v = observed_view env run (previous_output task) (map snd by_label)
       (list_nodes (env_now env) None (plane_nodes w)) states grants"
    "carry_out (env_now env) run (task_id task) al v snap (decide (env_nan_low env) stop al v) w1 = (Inr ended, w')"
proof (cases "try_map (observe_child env meas (previous_output task) by_label w) children")
  case (Inr states)
  have "and_do (on_tasks (allocate_campaign_samples (task_id task) []) w) (\<lambda>grants w1.
      let v = observed_view env run (previous_output task) (map snd by_label)
         (list_nodes (env_now env) None (plane_nodes w)) states grants
      in case persist_derived_result (env_save env) states (cv_combined v) (previous_output task) of
        Inl e \<Rightarrow> (Inl e, w1)
      | Inr snap \<Rightarrow> carry_out (env_now env) run (task_id task) al v snap (decide (env_nan_low env) stop al v) w1)
    = (Inr ended, w')"
    using assms(1) unfolding campaign_tick_def assms(2) run_task_spec.case Let_def Inr sum.case .
  then show ?thesis
    by (rule and_do_Inr) (auto simp: Let_def Inr intro: that split: sum.splits)
qed (use assms in \<open>simp add: campaign_tick_def Let_def\<close>)

lemma finish_controller_standing:
  assumes "finish_controller now run i outcome w = (Inr ended, w')"
  shows "campaign_standing i w' = (if \<not> ended then campaign_standing i w
    else map_option (\<lambda>(spec, st, reason). case outcome of
        Inr _ \<Rightarrow> if st = TaskActive then (spec, TaskCompleted, None) else (spec, st, reason)
      | Inl x \<Rightarrow> if st \<in> {TaskPending, TaskActive} then (spec, TaskFailed, Some x) else (spec, st, reason))
      (campaign_standing i w))"
proof -
  obtain published w1 where w1: "on_nodes (apply_controller_assignment_plan now (controller_plan_new run [])) w = (Inr published, w1)"
    and w': "(if \<not> published then (Inr False, w1) else (Inr True, w1\<lparr>plane_tasks := (case outcome of
              Inr _ \<Rightarrow> complete_run_task now i (plane_tasks w1)
            | Inl reason \<Rightarrow> fail_run_task now i reason (plane_tasks w1))\<rparr>)) = (Inr ended :: store_error + bool, w')"
    using assms unfolding finish_controller_def by (rule and_do_Inr) (rule that)
  have same: "campaign_standing i w1 = campaign_standing i w"
    using campaign_standing_same(3) [of i _ w] w1 by (metis snd_conv)
  show ?thesis
  proof (cases published)
    case False
    then show ?thesis using w' same by auto
  next
    case True
    show ?thesis
    proof (cases "campaign_row i w1")
      case None
      then show ?thesis using True w' unfolding same [symmetric]
        by (cases outcome) (auto simp: campaign_standing_def campaign_row_def find_task_updates)
    next
      case (Some r)
      then have "task_id r = i" unfolding campaign_row_def by (rule find_task_id)
      then show ?thesis using True w' Some unfolding same [symmetric]
        by (cases outcome) (auto simp: campaign_standing_def campaign_row_def find_task_updates row_standing_def)
    qed
  qed
qed


lemma carry_out_standing:
  assumes "carry_out now run i al v snap d w = (Inr ended, w')"
  shows "campaign_standing i w' = (case (ended, d) of
      (True, FailCampaign reason) \<Rightarrow>
        map_option (\<lambda>(spec, st, r). if st \<in> {TaskPending, TaskActive} then (spec, TaskFailed, Some reason) else (spec, st, r))
          (campaign_standing i w)
    | (True, CompleteCampaign) \<Rightarrow>
        map_option (\<lambda>(spec, st, r). if st = TaskActive then (spec, TaskCompleted, None) else (spec, st, r))
          (campaign_standing i w)
    | _ \<Rightarrow> campaign_standing i w) \<and> (ended \<longrightarrow> d = CompleteCampaign \<or> (\<exists>reason. d = FailCampaign reason))"
proof (cases d)
  case (FailCampaign reason)
  then show ?thesis
    using assms finish_controller_standing unfolding carry_out_def Let_def FailCampaign campaign_decision.case
    by (fastforce split: bool.split)
next
  case AwaitRelease
  obtain a w1 where "on_nodes (apply_controller_assignment_plan now (controller_plan_new run []))
      (persist_output i (build_output (cv_states v) [] (view_samples v) (cv_counts v)
        (map_option MeasurementCompleted (cv_combined v)) snap al\<lparr>co_draining := True\<rparr>) w) = (Inr a, w1)"
    and "(Inr False, w1) = (Inr ended :: store_error + bool, w')"
    using assms unfolding carry_out_def Let_def AwaitRelease campaign_decision.case by (rule and_do_Inr) (rule that)
  then show ?thesis using AwaitRelease campaign_standing_same(1,3) by (metis (no_types, lifting) bool.case(2) old.prod.case prod.inject snd_conv sum.inject(2))
next
  case CompleteCampaign
  define out where "out = build_output (cv_states v) [] (view_samples v) (cv_counts v)
    (map_option MeasurementCompleted (cv_combined v)) snap al"
  have same: "campaign_standing i (case map_option MeasurementCompleted (cv_combined v) of None \<Rightarrow> persist_output i out w
      | Some m \<Rightarrow> (persist_output i out w)\<lparr>plane_tasks := persist_task_measurement_output i m (plane_tasks (persist_output i out w))\<rparr>)
    = campaign_standing i w"
    by (cases "cv_combined v") (simp_all only: option.map option.case campaign_standing_same)
  show ?thesis
    using finish_controller_standing [OF assms [unfolded carry_out_def Let_def CompleteCampaign campaign_decision.case, folded out_def]]
    unfolding same CompleteCampaign by (auto split: bool.split)
next
  case (ServeChildren sel requests draining)
  obtain a w1 where 1: "(if requests = [] then (Inr [], w) else on_tasks (allocate_campaign_samples i requests) w) = (Inr a, w1)"
    and 2: "and_do (on_nodes (apply_controller_assignment_plan now (controller_plan_new run sel)) w1)
      (\<lambda>_ w. (Inr False, persist_output i (build_output (cv_states v) sel (view_samples v) (cv_counts v)
        (map_option MeasurementCompleted (cv_combined v)) snap al\<lparr>co_draining := draining\<rparr>) w)) = (Inr ended :: store_error + bool, w')"
    using assms unfolding carry_out_def Let_def ServeChildren campaign_decision.case by (rule and_do_Inr) (rule that)
  obtain b w2 where 3: "on_nodes (apply_controller_assignment_plan now (controller_plan_new run sel)) w1 = (Inr b, w2)"
    and 4: "(Inr False, persist_output i (build_output (cv_states v) sel (view_samples v) (cv_counts v)
        (map_option MeasurementCompleted (cv_combined v)) snap al\<lparr>co_draining := draining\<rparr>) w2) = (Inr ended :: store_error + bool, w')"
    using 2 by (rule and_do_Inr) (rule that)
  have "campaign_standing i w1 = campaign_standing i w"
    using 1 campaign_standing_same(4) [of i i requests w] by (metis snd_conv)
  moreover have "campaign_standing i w2 = campaign_standing i w1" using 3 campaign_standing_same(3) by (metis snd_conv)
  ultimately show ?thesis using 4 ServeChildren by auto
qed


lemma decide_complete:
  assumes "decide nan_low stop al v = CompleteCampaign"
  shows "view_failure stop v = None \<and> target_reached stop al v \<and> \<not> view_outstanding v \<and>
    \<not> list_ex (\<lambda>n. case current_assignment n of None \<Rightarrow> False | Some t \<Rightarrow> target_run t \<in> set (cv_kids v)) (cv_workers v)"
  using assms by (simp add: decide_def Let_def split: option.splits if_splits)

lemma first_failure_None: "first_failure states = None \<longleftrightarrow> list_all (\<lambda>c. cs_failure c = None) states"
  by (induction states) (auto simp: first_failure_def)

text \<open>C5. A campaign completes only when it is done: a round that turns its task from another state into
  completed has seen a usable result of every child, their combination satisfies the stop
  condition, no child has failed, every child that is not completed has worked off its grant,
  and no worker still works on a child.\<close>

theorem campaign_completes_when_drained:
  assumes "campaign_tick env run task by_label w = (Inr ended, w')"
    and "task_spec task = IntegrationCampaign children meas stop al"
    and "campaign_row (task_id task) w = Some t" "task_state t \<noteq> TaskCompleted"
    and "campaign_row (task_id task) w' = Some t'" "task_state t' = TaskCompleted"
  shows "\<exists>states grants rs.
    try_map (observe_child env meas (previous_output task) by_label w) children = Inr states \<and>
    fst (allocate_campaign_samples (task_id task) [] (plane_tasks w)) = Inr grants \<and>
    combine_measurements (env_sqrt env) states = Some rs \<and>
    campaign_should_stop rs (sum_list (map work_samples states))
      (list_all (\<lambda>c. final_stage_ready c \<and> min_samples_per_child al \<le> state_samples c) states) stop \<and>
    list_all (\<lambda>c. cs_failure c = None \<and> (cs_task_state c = TaskCompleted \<or> granted grants (cs_run c) \<le> work_samples c)) states \<and>
    list_all (\<lambda>n. case current_assignment n of None \<Rightarrow> True | Some a \<Rightarrow> target_run a \<notin> snd ` set by_label)
      (list_nodes (env_now env) None (plane_nodes w))"
proof (rule campaign_tick_split [OF assms(1,2)])
  fix states grants snap v w1
  assume states: "try_map (observe_child env meas (previous_output task) by_label w) children = Inr states"
    and alloc: "on_tasks (allocate_campaign_samples (task_id task) []) w = (Inr grants, w1)"
    and v: "v = observed_view env run (previous_output task) (map snd by_label)
       (list_nodes (env_now env) None (plane_nodes w)) states grants"
    and act: "carry_out (env_now env) run (task_id task) al v snap (decide (env_nan_low env) stop al v) w1 = (Inr ended, w')"
  let ?d = "decide (env_nan_low env) stop al v"
  have "campaign_standing (task_id task) w1 = campaign_standing (task_id task) w"
    using campaign_standing_same(4) [of "task_id task" "task_id task" "[]" w] alloc by (metis snd_conv)
  then have before: "campaign_standing (task_id task) w1 = Some (row_standing t)"
    using assms(3) by (simp add: campaign_standing_def)
  have after: "campaign_standing (task_id task) w' = Some (row_standing t')"
    using assms(5) by (simp add: campaign_standing_def)
  have "?d = CompleteCampaign"
    using carry_out_standing [OF act] before after assms(4,6)
    by (cases ?d; cases ended) (auto simp: row_standing_def split: if_splits)
  then have over: "view_failure stop v = None" "target_reached stop al v" "\<not> view_outstanding v"
    "\<not> list_ex (\<lambda>n. case current_assignment n of None \<Rightarrow> False | Some t \<Rightarrow> target_run t \<in> set (cv_kids v)) (cv_workers v)"
    using decide_complete by blast+
  have grants: "fst (allocate_campaign_samples (task_id task) [] (plane_tasks w)) = Inr grants"
    using alloc plane_on_tasks(3) by (metis fst_conv)
  obtain rs where rs: "combine_measurements (env_sqrt env) states = Some rs"
    and stop: "campaign_should_stop rs (sum_list (map work_samples states))
      (list_all (\<lambda>c. final_stage_ready c \<and> min_samples_per_child al \<le> state_samples c) states) stop"
    using over(2) by (auto simp: target_reached_def v observed_view_def view_samples_def split: option.splits)
  have "list_all (\<lambda>c. cs_failure c = None) states"
    using over(1) unfolding first_failure_None [symmetric]
    by (simp add: view_failure_def v observed_view_def split: option.splits)
  then have kids: "list_all (\<lambda>c. cs_failure c = None \<and>
      (cs_task_state c = TaskCompleted \<or> granted grants (cs_run c) \<le> work_samples c)) states"
    using over(3) by (auto simp: view_outstanding_def v observed_view_def unfinished_def list_all_iff list_ex_iff)
  have "list_all (\<lambda>n. case current_assignment n of None \<Rightarrow> True | Some a \<Rightarrow> target_run a \<notin> snd ` set by_label)
      (list_nodes (env_now env) None (plane_nodes w))"
    using over(4) by (auto simp: v observed_view_def list_all_iff list_ex_iff split: option.splits)
  then show ?thesis using states grants rs stop kids by blast
qed



text \<open>The budget of a campaign under its cap.\<close>

definition within_cap :: "i64 \<Rightarrow> i64 \<Rightarrow> ('e, 't, 'p, 'x) plane \<Rightarrow> bool" where
  "within_cap i cap w \<longleftrightarrow> plane_reachable w \<and> map_option (\<lambda>r. campaign_cap (task_spec r)) (campaign_row i w) = Some (Some cap)
     \<and> granted_total i (budgets (plane_tasks w)) \<le> cap"

lemma standing_cap:
  "map_option (\<lambda>r. campaign_cap (task_spec r)) (campaign_row i w) =
   map_option (\<lambda>(spec, _). campaign_cap spec) (campaign_standing i w)"
  by (simp add: campaign_standing_def option.map_comp comp_def row_standing_def)

lemma allocation_error_keeps:
  "fst (allocate_campaign_samples i rs s) = Inl e \<Longrightarrow> snd (allocate_campaign_samples i rs s) = s"
  by (auto simp: allocate_campaign_samples_def Let_def split: option.splits sum.splits if_splits)

lemma within_cap_allocate:
  assumes "plane_reachable w" "map_option (\<lambda>r. campaign_cap (task_spec r)) (campaign_row i w) = Some (Some cap)"
    and "on_tasks (allocate_campaign_samples i rs) w = (Inr grants, w')"
  shows "within_cap i cap w'"
proof -
  let ?s = "plane_tasks w" and ?a = "allocate_campaign_samples i rs (plane_tasks w)"
  obtain t where t: "find_task (tasks ?s) i = Some t" "campaign_cap (task_spec t) = Some cap"
    using assms(2) by (auto simp: campaign_row_def)
  have w': "w' = snd (on_tasks (allocate_campaign_samples i rs) w)" "fst ?a = Inr grants"
    using assms(3) plane_on_tasks(3) by (metis snd_conv, metis fst_conv)
  have "tasks_reachable ?s" using assms(1) by (simp add: plane_reachable_def)
  moreover have "?a = (Inr grants, snd ?a)" using w'(2) by (simp add: prod_eq_iff)
  ultimately have "sum_list (map snd grants) \<le> cap" and eq: "grants = campaign_grants i (budgets (snd ?a))"
    using allocation_within_cap [OF _ t] by blast+
  then have "granted_total i (budgets (snd ?a)) \<le> cap" unfolding granted_total_def eq [symmetric] by simp
  then show ?thesis
    using assms(1,2) plane_reachable_allocate unfolding within_cap_def standing_cap w'(1)
    by (simp add: plane_reachable_allocate)
qed

lemma within_cap_same:
  assumes "within_cap i cap w" "plane_reachable w'" "budgets (plane_tasks w') = budgets (plane_tasks w)"
    and "map_option fst (campaign_standing i w') = map_option fst (campaign_standing i w)"
  shows "within_cap i cap w'"
  using assms unfolding within_cap_def standing_cap
  by (cases "campaign_standing i w"; cases "campaign_standing i w'") auto

lemma budgets_finish: "budgets (plane_tasks (snd (finish_controller now run i outcome w))) = budgets (plane_tasks w)"
proof -
  let ?P = "\<lambda>u. budgets (plane_tasks u) = budgets (plane_tasks w)"
  show ?thesis
    unfolding finish_controller_def
    by (rule and_do_rule [where P = ?P]) (auto split: sum.split)
qed

lemma carry_out_within_cap:
  assumes "within_cap i cap w" "carry_out now run i al v snap d w = (Inr ended, w')"
  shows "within_cap i cap w'"
proof -
  have reach: "plane_reachable w'"
    using plane_reachable_carry_out [of w now run i al v snap d] assms by (simp add: within_cap_def)
  have spec: "map_option fst (campaign_standing i w') = map_option fst (campaign_standing i w)"
    using carry_out_standing [OF assms(2)]
    by (cases ended; cases d; cases "campaign_standing i w") (auto split: prod.splits if_splits)
  show ?thesis
  proof (cases "\<exists>sel requests draining. d = ServeChildren sel requests draining")
    case False
    let ?P = "\<lambda>u. budgets (plane_tasks u) = budgets (plane_tasks w)"
    have "?P (snd (carry_out now run i al v snap d w))"
    proof (cases d)
      case AwaitRelease
      then show ?thesis
        unfolding carry_out_def Let_def AwaitRelease campaign_decision.case by (intro and_do_rule [where P = ?P]) auto
    qed (use False in \<open>auto simp: carry_out_def Let_def budgets_finish split: option.splits\<close>)
    then show ?thesis using within_cap_same [OF assms(1) reach _ spec] assms(2) by simp
  next
    case True
    then obtain sel requests draining where d: "d = ServeChildren sel requests draining" by blast
    obtain a w1 where 1: "(if requests = [] then (Inr [], w) else on_tasks (allocate_campaign_samples i requests) w) = (Inr a, w1)"
      and 2: "and_do (on_nodes (apply_controller_assignment_plan now (controller_plan_new run sel)) w1)
        (\<lambda>_ w. (Inr False, persist_output i (build_output (cv_states v) sel (view_samples v) (cv_counts v)
          (map_option MeasurementCompleted (cv_combined v)) snap al\<lparr>co_draining := draining\<rparr>) w)) = (Inr ended :: store_error + bool, w')"
      using assms(2) unfolding carry_out_def Let_def d campaign_decision.case by (rule and_do_Inr) (rule that)
    have w1: "within_cap i cap w1"
    proof (cases "requests = []")
      case True
      then show ?thesis using 1 assms(1) by simp
    next
      case False
      then show ?thesis using 1 assms(1) within_cap_allocate [of w i cap requests] by (simp add: within_cap_def)
    qed
    have "budgets (plane_tasks w') = budgets (plane_tasks w1)"
      using 2 by (rule and_do_Inr) (auto dest: arg_cong [where f = "\<lambda>p. plane_tasks (snd p)"])
    moreover have "campaign_standing i w1 = campaign_standing i w"
      using 1 campaign_standing_same(4) [of i i requests w] by (metis snd_conv)
    ultimately show ?thesis using within_cap_same [OF w1 reach] spec by simp
  qed
qed

text \<open>C6. A round of a campaign is a step of both stores that keeps all their invariants, and however it
  ends without an error, the samples granted to the children together stay within the cap.\<close>

theorem campaign_round_stays_within_cap:
  assumes "tasks_reachable (plane_tasks w)" "nodes_reachable (plane_nodes w)"
    and "campaign_tick env run task by_label w = (r, w')"
    and "task_spec task = IntegrationCampaign children meas stop al" "campaign_row (task_id task) w = Some t"
    and "campaign_cap (task_spec t) = Some cap"
  shows "tasks_reachable (plane_tasks w') \<and> nodes_reachable (plane_nodes w') \<and>
    (is_ok r \<longrightarrow> sum_list (map snd (campaign_grants (task_id task) (budgets (plane_tasks w')))) \<le> cap)"
proof -
  have w: "plane_reachable w" using assms(1,2) by (simp add: plane_reachable_def)
  have "plane_reachable w'"
    using plane_reachable_tick [OF w, of env run task by_label] assms(3) by simp
  moreover have "within_cap (task_id task) cap w'" if "r = Inr ended" for ended
  proof (rule campaign_tick_split [OF assms(3) [unfolded that] assms(4)])
    fix states grants snap v w1
    assume alloc: "on_tasks (allocate_campaign_samples (task_id task) []) w = (Inr grants, w1)"
      and act: "carry_out (env_now env) run (task_id task) al v snap (decide (env_nan_low env) stop al v) w1 = (Inr ended, w')"
    show "within_cap (task_id task) cap w'"
      by (rule carry_out_within_cap [OF within_cap_allocate [OF w _ alloc] act]) (simp add: assms(5,6))
  qed
  ultimately show ?thesis
    by (cases r) (auto simp: plane_reachable_def within_cap_def granted_total_def)
qed


subsection \<open>The combined measurement\<close>

definition entry_of :: "measurement_result \<Rightarrow> campaign_state \<Rightarrow> measurement_result option" where
  "entry_of t c = (case state_results c of None \<Rightarrow> None | Some rs \<Rightarrow> find (same_metric t) rs)"

definition complete_for :: "campaign_state list \<Rightarrow> measurement_result \<Rightarrow> bool" where
  "complete_for cs t \<longleftrightarrow>
     list_all (\<lambda>c. case entry_of t c of None \<Rightarrow> False | Some r \<Rightarrow> result_uncertainty r \<noteq> None) cs"

definition weighted_value :: "campaign_state list \<Rightarrow> measurement_result \<Rightarrow> f64 \<Rightarrow> f64" where
  "weighted_value cs t v =
     foldl (\<lambda>v c. f64_add v (f64_mul (cs_coefficient c) (result_value (the (entry_of t c))))) v cs"

definition weighted_error :: "campaign_state list \<Rightarrow> measurement_result \<Rightarrow> f64 \<Rightarrow> f64" where
  "weighted_error cs t v =
     foldl (\<lambda>v c. f64_add v (f64_mul (f64_square (cs_coefficient c))
       (f64_square (the (result_uncertainty (the (entry_of t c))))))) v cs"

lemma component_sums_entry:
  "component_sums t (c # cs) a = (case entry_of t c of None \<Rightarrow> None
    | Some r \<Rightarrow> (case component_add (cs_coefficient c) r a of None \<Rightarrow> None | Some a' \<Rightarrow> component_sums t cs a'))"
  by (simp add: entry_of_def split: option.splits)

lemma component_add_sums:
  "map_option (\<lambda>b. (sum_value b, sum_variance b)) (component_add k r a) =
    (case result_uncertainty r of None \<Rightarrow> None
     | Some u \<Rightarrow> Some (f64_add (sum_value a) (f64_mul k (result_value r)),
                       f64_add (sum_variance a) (f64_mul (f64_square k) (f64_square u))))"
  by (simp add: component_add_def Let_def split: option.splits prod.splits)

lemma component_sums_weighted:
  "map_option (\<lambda>b. (sum_value b, sum_variance b)) (component_sums t cs a) =
    (if complete_for cs t then Some (weighted_value cs t (sum_value a), weighted_error cs t (sum_variance a)) else None)"
proof (induction cs arbitrary: a)
  case (Cons c cs)
  show ?case
  proof (cases "entry_of t c")
    case None
    then show ?thesis by (simp add: component_sums_entry complete_for_def del: component_sums.simps)
  next
    case (Some r)
    show ?thesis
    proof (cases "component_add (cs_coefficient c) r a")
      case None
      then have "result_uncertainty r = None" using component_add_sums [of "cs_coefficient c" r a] by (simp split: option.splits)
      then show ?thesis using Some None by (simp add: component_sums_entry complete_for_def del: component_sums.simps)
    next
      case b: (Some b)
      obtain u where u: "result_uncertainty r = Some u"
        "sum_value b = f64_add (sum_value a) (f64_mul (cs_coefficient c) (result_value r))"
        "sum_variance b = f64_add (sum_variance a) (f64_mul (f64_square (cs_coefficient c)) (f64_square u))"
        using component_add_sums [of "cs_coefficient c" r a] b by (auto split: option.splits)
      have "component_sums t (c # cs) a = component_sums t cs b"
        using Some b by (simp add: component_sums_entry del: component_sums.simps)
      moreover have "complete_for (c # cs) t = complete_for cs t" using Some u(1) by (simp add: complete_for_def)
      moreover have "weighted_value (c # cs) t (sum_value a) = weighted_value cs t (sum_value b)"
        "weighted_error (c # cs) t (sum_variance a) = weighted_error cs t (sum_variance b)"
        using Some u by (simp_all add: weighted_value_def weighted_error_def)
      ultimately show ?thesis using Cons.IH [of b] by (simp only:)
    qed
  qed
qed (simp add: complete_for_def weighted_value_def weighted_error_def)

lemma combine_templates_weighted:
  "map_option (map (\<lambda>r. (result_value r, result_uncertainty r))) (combine_templates sqrt_f cs ts) =
    (if list_all (complete_for cs) ts
     then Some (map (\<lambda>t. (weighted_value cs t f64_zero, Some (sqrt_f (weighted_error cs t f64_zero)))) ts) else None)"
proof (induction ts)
  case (Cons t ts)
  have zero: "sum_value component_zero = f64_zero" "sum_variance component_zero = f64_zero"
    by (simp_all add: component_zero_def)
  show ?case
    using Cons component_sums_weighted [of t cs component_zero] unfolding zero
    by (cases "component_sums t cs component_zero"; cases "combine_templates sqrt_f cs ts")
      (auto simp: combined_result_def split: if_splits)
qed simp


end
