(* ===== verification/Campaign_Demo.thy ===== *)
theory Campaign_Demo
  imports Campaign_Laws Task_Demo
begin

section \<open>A campaign with two integrals\<close>

text \<open>
  Concrete rounds of a campaign over the children ''x'' (run 2) and ''y'' (run 3), one in
  which both have done their share of 100 samples and one in which a child has failed.
\<close>

type_synonym sum_row = "(unit, unit, unit, unit) controller_task"

type_synonym sum_plane = "(unit, unit, unit, unit) plane"

definition sum_child :: "string \<Rightarrow> campaign_child" where
  "sum_child n = \<lparr>child_name = n, coefficient = f64_one, child_source = Inline ''x'', child_replacements = []\<rparr>"

definition sum_stop :: campaign_stop where
  "sum_stop = \<lparr>min_total_samples = 0, max_total_samples = Some 100, stop_absolute_error = None, stop_relative_error = None\<rparr>"

definition sum_campaign :: "(unit, unit, unit) run_task_spec" where
  "sum_campaign = IntegrationCampaign [sum_child ''x'', sum_child ''y''] task_measurement_default sum_stop allocation_default"

definition sum_sample :: "(unit, unit, unit) run_task_spec" where
  "sum_sample = Sample Stratification.Pooled True
     \<lparr>min_samples = None, max_samples = Some 50, absolute_error = None, relative_error = None, stop_metric = None\<rparr>
     None None None None None None"

definition sum_none :: "(unit, unit, unit, measured, unit controller_task_output) task_store" where
  "sum_none = \<lparr>tasks = [], next_id = 1, task_runs = [], live_observables = [], budgets = []\<rparr>"

definition sum_runs :: "(unit, unit, unit, measured, unit controller_task_output) task_store" where
  "sum_runs = sum_none\<lparr>task_runs := [demo_task_run 1 None, demo_task_run 2 (Some 1), demo_task_run 3 (Some 1)]\<rparr>"

definition sum_entry :: "i64 \<Rightarrow> (unit, unit, unit) run_task_spec \<Rightarrow> string \<Rightarrow> run_task_state \<Rightarrow> i64 \<Rightarrow> int option
    \<Rightarrow> string option \<Rightarrow> int option \<Rightarrow> sum_row" where
  "sum_entry i spec name st n finished reason failed =
     \<lparr>task_id = i, task_run = i, task_name = name, sequence_nr = 1, task_spec = spec, spawned_from = None,
      task_state = st, nr_produced_samples = n, nr_completed_samples = n, failure_reason = reason,
      started_at = Some 5, completed_at = finished, failed_at = failed, measurement_out = None, controller_out = None\<rparr>"

definition sum_store :: "sum_row list \<Rightarrow> (unit, unit, unit, measured, unit controller_task_output) task_store" where
  "sum_store rs = sum_runs\<lparr>tasks := rs, next_id := 4\<rparr>"

definition sum_queued :: "(unit, unit, unit, measured, unit controller_task_output) task_store" where
  "sum_queued = sum_store [sum_entry 1 sum_campaign ''c'' TaskActive 0 None None None,
     sum_entry 2 sum_sample ''s'' TaskActive 0 None None None, sum_entry 3 sum_sample ''s'' TaskActive 0 None None None]"

definition sum_worked :: "(unit, unit, unit, measured, unit controller_task_output) task_store" where
  "sum_worked = sum_store [sum_entry 1 sum_campaign ''c'' TaskActive 0 None None None,
     sum_entry 2 sum_sample ''s'' TaskCompleted 50 (Some 6) None None,
     sum_entry 3 sum_sample ''s'' TaskCompleted 50 (Some 7) None None]"

definition sum_failed :: "(unit, unit, unit, measured, unit controller_task_output) task_store" where
  "sum_failed = sum_store [sum_entry 1 sum_campaign ''c'' TaskActive 0 None None None,
     sum_entry 2 sum_sample ''s'' TaskActive 0 None None None,
     sum_entry 3 sum_sample ''s'' TaskFailed 0 None (Some ''overflow'') (Some 7)]"

lemma sum_queued_steps:
  "snd (activate_next_run_task 5 3 (snd (activate_next_run_task 5 2 (snd (activate_next_run_task 5 1
    (snd (append_run_tasks 3 [demo_input ''s'' sum_sample] (snd (append_run_tasks 2 [demo_input ''s'' sum_sample]
      (snd (append_run_tasks 1 [demo_input ''c'' sum_campaign] sum_runs))))))))))) = sum_queued"
  by code_simp

lemma sum_worked_steps:
  "complete_run_task 7 3 (snd (update_run_task_progress 3 50 50
    (complete_run_task 6 2 (snd (update_run_task_progress 2 50 50 sum_queued))))) = sum_worked"
  by code_simp

definition sum_nodes :: node_store where
  "sum_nodes = \<lparr>nodes = [], runs = [], launches = [], externals = [], max_connections = 100, reserved_connections = 3\<rparr>"

definition sum_worked_plane :: sum_plane where
  "sum_worked_plane = \<lparr>plane_tasks = sum_worked, plane_nodes = sum_nodes\<rparr>"

definition sum_failed_plane :: sum_plane where
  "sum_failed_plane = \<lparr>plane_tasks = sum_failed, plane_nodes = sum_nodes\<rparr>"

definition sum_task :: "sum_plane \<Rightarrow> sum_row" where
  "sum_task w = the (campaign_row 1 w)"

definition sum_result :: measurement_result where
  "sum_result = \<lparr>result_estimator = PooledEstimate, result_basic = None, result_name = Mean, result_component = None,
     result_value = f64_one, result_uncertainty = Some f64_one, result_samples = 50\<rparr>"

definition sum_loaded :: "i32 \<Rightarrow> (unit, unit, unit, unit) loaded_child" where
  "sum_loaded i = \<lparr>ctr_task_state = TaskActive, ctr_output = None,
     ctr_source = \<lparr>rs_run_id = i, rs_task_id = i, rs_snapshot_id = None, rs_sample_count = 50\<rparr>,
     ctr_accumulator = Some 50, ctr_source_task = sum_task sum_worked_plane\<rparr>"

definition sum_env :: "(unit, unit, unit, unit) campaign_env" where
  "sum_env = \<lparr>env_now = 8, env_nan_low = True, env_sqrt = (\<lambda>x. x), env_load = (\<lambda>i _. Inr (sum_loaded i)),
     env_history = (\<lambda>_. []), env_project = (\<lambda>_ _ _. Some [sum_result]), env_save = Inr ''9''\<rparr>"

definition sum_labels :: "(string \<times> i32) list" where
  "sum_labels = [(''x'', 2), (''y'', 3)]"

definition sum_after :: "sum_plane \<Rightarrow> sum_plane" where
  "sum_after w = snd (campaign_tick sum_env 1 (sum_task w) sum_labels w)"


definition sum_state :: "string \<Rightarrow> i32 \<Rightarrow> run_task_state \<Rightarrow> i64 \<Rightarrow> bool \<Rightarrow> string option \<Rightarrow> campaign_state" where
  "sum_state n i st work ready failed =
     \<lparr>final_stage_ready = ready, work_samples = work, cs_name = n, cs_coefficient = f64_one, cs_run = i,
      cs_status = (if failed = None then child_state_of_task st else ChildFailed), cs_task_state = st,
      cs_source = \<lparr>rs_run_id = i, rs_task_id = i, rs_snapshot_id = None, rs_sample_count = 50\<rparr>,
      cs_accumulator = Some 50, cs_throughput = None,
      cs_measurement = Some (case failed of None \<Rightarrow> MeasurementCompleted [sum_result]
        | Some r \<Rightarrow> MeasurementFailed ''child task s failed: overflow''), cs_failure = failed\<rparr>"

definition sum_states :: "campaign_state list" where
  "sum_states = [sum_state ''x'' 2 TaskCompleted 50 True None, sum_state ''y'' 3 TaskCompleted 50 True None]"

definition failed_states :: "campaign_state list" where
  "failed_states = [sum_state ''x'' 2 TaskActive 0 False None,
     sum_state ''y'' 3 TaskFailed 0 False (Some ''campaign child y failed: child task s failed: overflow'')]"

lemma sum_observed:
  "try_map (observe_child sum_env task_measurement_default None sum_labels sum_worked_plane)
    [sum_child ''x'', sum_child ''y''] = Inr sum_states"
  by code_simp

lemma failed_observed:
  "try_map (observe_child sum_env task_measurement_default None sum_labels sum_failed_plane)
    [sum_child ''x'', sum_child ''y''] = Inr failed_states"
  by code_simp

definition sum_allocated :: "sum_plane" where
  "sum_allocated = sum_worked_plane\<lparr>plane_tasks := sum_worked\<lparr>budgets :=
     [\<lparr>child_run = 2, campaign_task = 1, granted_samples = 50\<rparr>, \<lparr>child_run = 3, campaign_task = 1, granted_samples = 50\<rparr>]\<rparr>\<rparr>"

lemma sum_allocation:
  "on_tasks (allocate_campaign_samples 1 []) sum_worked_plane = (Inr [(2, 50), (3, 50)], sum_allocated)"
  by code_simp

lemma sum_floats:
  "f64_mul f64_one f64_one = f64_one" "f64_add f64_zero f64_one = f64_one" "f64_add f64_one f64_one = F_Num False 2"
  using f64_round_nat [of 1 False] f64_round_nat [of 2 False]
  by (simp_all add: f64_one_def f64_zero_def f64_signed_def f64_of_rat_def)

definition sum_total :: measurement_result where
  "sum_total = \<lparr>result_estimator = CombinedEstimate, result_basic = None, result_name = Mean, result_component = None,
     result_value = F_Num False 2, result_uncertainty = Some (F_Num False 2), result_samples = 100\<rparr>"

lemma sum_combined: "combine_measurements (\<lambda>x. x) sum_states = Some [sum_total]"
  by (simp add: combine_measurements_def sum_states_def sum_state_def state_results_def sum_result_def same_metric_def
      component_add_def component_zero_def f64_square_def sum_floats combined_result_def sum_total_def
      saturating_add_i64_def i64_max_def)

definition sum_view :: "campaign_view" where
  "sum_view = \<lparr>cv_states = sum_states, cv_kids = [2, 3], cv_workers = [], cv_counts = (0, 0), cv_grants = [(2, 50), (3, 50)],
     cv_incumbents = [], cv_previous = None, cv_combined = Some [sum_total]\<rparr>"

lemma sum_viewed: "observed_view sum_env 1 None [2, 3] [] sum_states [(2, 50), (3, 50)] = sum_view"
  by (simp add: observed_view_def sum_view_def sum_env_def sum_combined worker_counts_def placements_of_def
      campaign_incumbents_def List.map_filter_simps)

lemma sum_decision: "decide True sum_stop allocation_default sum_view = CompleteCampaign"
  by code_simp

lemma sum_derived: "persist_derived_result (Inr ''9'') sum_states (Some [sum_total]) None = Inr (Some ''9'')"
  by code_simp

lemma sum_workers: "list_nodes 8 None sum_nodes = []"
  by code_simp

lemma sum_released: "apply_controller_assignment_plan 8 (controller_plan_new 1 []) sum_nodes = (Inr True, sum_nodes)"
  by code_simp

definition sum_final :: sum_plane where
  "sum_final = snd (carry_out 8 1 1 allocation_default sum_view (Some ''9'') CompleteCampaign sum_allocated)"

lemma sum_carried:
  "carry_out 8 1 1 allocation_default sum_view (Some ''9'') CompleteCampaign sum_allocated = (Inr True, sum_final)"
proof -
  have "fst (carry_out 8 1 1 allocation_default sum_view (Some ''9'') CompleteCampaign sum_allocated) = Inr True"
    using sum_released by (simp add: carry_out_def finish_controller_def on_nodes_def and_do_def Let_def sum_view_def
        sum_allocated_def sum_worked_plane_def)
  then show ?thesis by (simp add: sum_final_def prod_eq_iff)
qed

lemma sum_task_row:
  "campaign_row 1 sum_worked_plane = Some (sum_entry 1 sum_campaign ''c'' TaskActive 0 None None None)"
  "campaign_row 1 sum_failed_plane = Some (sum_entry 1 sum_campaign ''c'' TaskActive 0 None None None)"
  by code_simp+

lemma sum_task_fields:
  "task_id (sum_task sum_worked_plane) = 1" "task_spec (sum_task sum_worked_plane) = sum_campaign"
  "task_id (sum_task sum_failed_plane) = 1" "task_spec (sum_task sum_failed_plane) = sum_campaign"
  "previous_output (sum_task sum_worked_plane) = None" "previous_output (sum_task sum_failed_plane) = None"
  by (simp_all add: sum_task_def sum_task_row sum_entry_def previous_output_def)

lemma sum_round: "campaign_tick sum_env 1 (sum_task sum_worked_plane) sum_labels sum_worked_plane = (Inr True, sum_final)"
proof -
  have env: "env_now sum_env = 8" "env_nan_low sum_env = True" "env_save sum_env = Inr ''9''" "map snd sum_labels = [2, 3]"
    "list_nodes 8 None (plane_nodes sum_worked_plane) = []" "cv_combined sum_view = Some [sum_total]"
    by (simp_all add: sum_env_def sum_labels_def sum_worked_plane_def sum_workers sum_view_def)
  show ?thesis
    unfolding campaign_tick_def sum_task_fields sum_campaign_def run_task_spec.case Let_def env sum_observed sum.case
      sum_allocation and_do_def prod.case sum_viewed sum_derived sum_decision sum_carried ..
qed

lemma sum_rows:
  "campaign_standing 1 sum_worked_plane = Some (sum_campaign, TaskActive, None)"
  "campaign_standing 1 sum_final = Some (sum_campaign, TaskCompleted, None)"
proof -
  show before: "campaign_standing 1 sum_worked_plane = Some (sum_campaign, TaskActive, None)"
    by (simp add: campaign_standing_def sum_task_row row_standing_def sum_entry_def)
  have "campaign_standing 1 sum_allocated = campaign_standing 1 sum_worked_plane"
    using campaign_standing_same(4) [of 1 1 "[]" sum_worked_plane] unfolding sum_allocation snd_conv .
  then show "campaign_standing 1 sum_final = Some (sum_campaign, TaskCompleted, None)"
    using carry_out_standing [OF sum_carried] before by simp
qed

lemma standing_row: "campaign_standing i w = Some (a, b, c) \<Longrightarrow>
    \<exists>r. campaign_row i w = Some r \<and> task_spec r = a \<and> task_state r = b \<and> failure_reason r = c"
  by (auto simp: campaign_standing_def row_standing_def)

lemma sum_final_row: "\<exists>t'. campaign_row (task_id (sum_task sum_worked_plane)) sum_final = Some t' \<and> task_state t' = TaskCompleted"
  using standing_row [OF sum_rows(2)] by (auto simp: sum_task_fields)

theorem campaign_completes_when_drained_witness:
  "\<exists>states. try_map (observe_child sum_env task_measurement_default (previous_output (sum_task sum_worked_plane))
       sum_labels sum_worked_plane) [sum_child ''x'', sum_child ''y''] = Inr states"
proof -
  obtain t' where t': "campaign_row (task_id (sum_task sum_worked_plane)) sum_final = Some t'" "task_state t' = TaskCompleted"
    using sum_final_row by blast
  have spec: "task_spec (sum_task sum_worked_plane) = IntegrationCampaign [sum_child ''x'', sum_child ''y'']
      task_measurement_default sum_stop allocation_default"
    by (simp add: sum_task_fields sum_campaign_def)
  have row: "campaign_row (task_id (sum_task sum_worked_plane)) sum_worked_plane =
      Some (sum_entry 1 sum_campaign ''c'' TaskActive 0 None None None)"
    by (simp add: sum_task_fields sum_task_row)
  from campaign_completes_when_drained [OF sum_round spec row _ t'] show ?thesis by (auto simp: sum_entry_def)
qed


lemma sum_worked_reachable: "tasks_reachable sum_worked"
proof -
  have "tasks_reachable sum_none" by (rule tasks_reachable.empty) (simp_all add: sum_none_def)
  note this [THEN tasks_reachable.step, OF create, of "demo_task_run 1 None"]
  then have "tasks_reachable (sum_none\<lparr>task_runs := [demo_task_run 1 None]\<rparr>)" by (simp add: sum_none_def)
  note this [THEN tasks_reachable.step, OF create, of "demo_task_run 2 (Some 1)"]
  then have "tasks_reachable (sum_none\<lparr>task_runs := [demo_task_run 1 None, demo_task_run 2 (Some 1)]\<rparr>)"
    by (simp add: sum_none_def demo_task_run_def)
  note this [THEN tasks_reachable.step, OF create, of "demo_task_run 3 (Some 1)"]
  then have "tasks_reachable sum_runs"
    by (simp add: sum_runs_def sum_none_def demo_task_run_def)
  then show ?thesis
    unfolding sum_worked_steps [symmetric] sum_queued_steps [symmetric]
    by (intro tasks_reachable.step [OF _ complete] tasks_reachable.step [OF _ progress]
        tasks_reachable.step [OF _ activate] tasks_reachable.step [OF _ append])
qed

lemma sum_nodes_reachable: "nodes_reachable sum_nodes"
  by (rule nodes_reachable.empty) (simp_all add: sum_nodes_def)

theorem campaign_round_stays_within_cap_witness:
  "tasks_reachable (plane_tasks sum_final) \<and> nodes_reachable (plane_nodes sum_final) \<and>
    sum_list (map snd (campaign_grants (task_id (sum_task sum_worked_plane)) (budgets (plane_tasks sum_final)))) \<le> 100"
proof -
  have planes: "tasks_reachable (plane_tasks sum_worked_plane)" "nodes_reachable (plane_nodes sum_worked_plane)"
    using sum_worked_reachable sum_nodes_reachable by (simp_all add: sum_worked_plane_def)
  have spec: "task_spec (sum_task sum_worked_plane) = IntegrationCampaign [sum_child ''x'', sum_child ''y'']
      task_measurement_default sum_stop allocation_default"
    by (simp add: sum_task_fields sum_campaign_def)
  have row: "campaign_row (task_id (sum_task sum_worked_plane)) sum_worked_plane =
      Some (sum_entry 1 sum_campaign ''c'' TaskActive 0 None None None)"
    by (simp add: sum_task_fields sum_task_row)
  have cap: "campaign_cap (task_spec (sum_entry 1 sum_campaign ''c'' TaskActive 0 None None None)) = Some 100"
    by (simp add: sum_entry_def sum_campaign_def sum_stop_def)
  show ?thesis using campaign_round_stays_within_cap [OF planes sum_round spec row cap] by simp
qed

text \<open>The round that sees the failed child.\<close>

definition failed_allocated :: sum_plane where
  "failed_allocated = sum_failed_plane\<lparr>plane_tasks := sum_failed\<lparr>budgets :=
     [\<lparr>child_run = 2, campaign_task = 1, granted_samples = 0\<rparr>, \<lparr>child_run = 3, campaign_task = 1, granted_samples = 0\<rparr>]\<rparr>\<rparr>"

lemma failed_allocation:
  "on_tasks (allocate_campaign_samples 1 []) sum_failed_plane = (Inr [(2, 0), (3, 0)], failed_allocated)"
  by code_simp

lemma failed_first: "first_failure failed_states = Some ''campaign child y failed: child task s failed: overflow''"
  by (simp add: first_failure_def failed_states_def sum_state_def)

definition failed_view :: campaign_view where
  "failed_view = observed_view sum_env 1 None [2, 3] [] failed_states [(2, 0), (3, 0)]"

lemma failed_combined: "cv_combined failed_view = None"
  by (simp add: failed_view_def observed_view_def combine_measurements_def failed_states_def sum_state_def state_results_def)

lemma failed_decision:
  "decide True sum_stop allocation_default failed_view = FailCampaign ''campaign child y failed: child task s failed: overflow''"
  by (simp add: decide_def view_failure_def failed_view_def observed_view_def failed_first)

definition failed_final :: sum_plane where
  "failed_final = snd (campaign_tick sum_env 1 (sum_task sum_failed_plane) sum_labels sum_failed_plane)"

lemma failed_round: "campaign_tick sum_env 1 (sum_task sum_failed_plane) sum_labels sum_failed_plane = (Inr True, failed_final)"
proof -
  have env: "env_now sum_env = 8" "env_nan_low sum_env = True" "env_save sum_env = Inr ''9''" "map snd sum_labels = [2, 3]"
    "list_nodes 8 None (plane_nodes sum_failed_plane) = []"
    by (simp_all add: sum_env_def sum_labels_def sum_failed_plane_def sum_workers)
  have "fst (campaign_tick sum_env 1 (sum_task sum_failed_plane) sum_labels sum_failed_plane) = Inr True"
    unfolding campaign_tick_def sum_task_fields sum_campaign_def run_task_spec.case Let_def env failed_observed sum.case
      failed_allocation and_do_def prod.case failed_view_def [symmetric] failed_combined failed_decision
    using sum_released by (simp add: persist_derived_result_def carry_out_def finish_controller_def on_nodes_def
        and_do_def Let_def failed_allocated_def sum_failed_plane_def)
  then show ?thesis by (simp add: failed_final_def prod_eq_iff)
qed



text \<open>Two children compete for one place.\<close>

lemma schedule_demo:
  "schedule_children True failed_states [(2, 10), (3, 0)] [3, 2] [2, 3] allocation_default 1 = [2]"
  by code_simp


end
