(* ===== verification/Spec2Isabelle.thy ===== *)
theory Spec2Isabelle
  imports Domain_Laws Sample_Batch Feedback_Values Latent_Laws Generation_Laws Batch_Ids
    Accumulator_Config Stratification Queue_Protocol Metrics Sampler_Queue_Laws Queue_System Queue_Order
    Queue_Demo Queue_Flush Raster_Laws Hyperparameter_Laws
    Controller_Demo Task_Demo Campaign_Demo
begin

text \<open>
  Gammaboard runs Monte Carlo integrations on a fleet of workers. One \<^emph>\<open>sampler\<close> per run
  draws samples, cuts them into batches and ingests the results; any number of \<^emph>\<open>evaluators\<close>
  claim batches, evaluate the integrand and submit results; all of them meet in a
  PostgreSQL store. This development models the core of that pipeline in HOL and proves
  what makes it correct: every sample is evaluated for one place in the sequence, and the
  sampler ingests results in production order without a gap or a repetition.

  \<^bold>\<open>Data.\<close> \<open>Domain_Tree\<close> is \<open>src/utils/domain.rs\<close>: the tree of discrete axes over continuous
  leaves. A complete discrete path is a list of \<open>i64\<close>; stratum axes come first. \<open>Domain_Laws\<close>
  gives the tree its meaning as the set \<open>is_leaf\<close> of complete paths with their widths and
  proves validation, enumeration of strata, lookups and \<open>with_integrand\<close> against it. \<open>F64\<close> is
  binary64 arithmetic over exact rationals with one rounding per operation. \<open>Sample_Batch\<close>
  (\<open>src/evaluation/batch.rs\<close>), \<open>Feedback_Values\<close> (\<open>src/sampling/feedback.rs\<close>), \<open>Latent_Batch\<close>
  and \<open>Latent_Laws\<close> (\<open>src/sampling/latent_batch.rs\<close>) are the values that travel: concrete
  points, training values, and the indexed or replayable form of a batch in the queue.
  A latent batch stands for the list \<open>samples_of\<close>; slicing and decoding are related to it.

  \<^bold>\<open>Sampler side.\<close> \<open>Generation\<close> and \<open>Generation_Laws\<close> are \<open>src/sampling/generation.rs\<close>; the
  interface \<open>draw_slicing\<close> states what the buffer needs of a batch. \<open>Batch_Ids\<close> is
  \<open>src/core/batch_ids.rs\<close>. \<open>Stratification\<close> covers \<open>src/core/stratification.rs\<close> and
  \<open>integrand_batch\<close> of \<open>src/evaluation/stratification.rs\<close>; \<open>Accumulator_Config\<close> covers the
  accumulator configuration of \<open>src/core/run_spec.rs\<close> with its two wire forms. \<open>Metrics\<close> and
  \<open>Sampler_Queue\<close> are \<open>src/runners/{window_metric,rolling_metric,queue}.rs\<close>;
  \<open>Sampler_Queue_Laws\<close> bounds the adaptive batch size.

  \<^bold>\<open>Store side.\<close> \<open>Work_Queue\<close> has one state transformer per statement of
  \<open>src/stores/queries/work_queue.rs\<close> on lists of rows; the row locks of \<open>SKIP LOCKED\<close> are the
  predicate \<open>locked\<close>, time is an argument. \<open>Work_Queue_Laws\<close> has the table invariant
  \<open>store_ok\<close> and its preservation by each operation; \<open>Queue_Protocol\<close> has the step relation
  of all workers and the protocol guarantees: exclusive and idempotent claims, final results,
  fencing of stale owners, exact retry counts, consumption in order.

  \<^bold>\<open>Both sides.\<close> \<open>Queue_System\<close> puts one sampler queue, the store and all other workers into
  one step relation; asynchronous statements take effect at any later moment, or fail, or
  lose their acknowledgement. The source of identifiers is the interface \<open>id_source\<close>.

  \<^bold>\<open>Conventions.\<close> A \<open>usize\<close> is a \<open>nat\<close> whose checked additions are compared with \<open>2^64 - 1\<close>;
  an \<open>i64\<close> is an \<open>int\<close>, and casts between widths go through words. A fallible function returns
  a sum, a panic is the error \<open>Panicked\<close>. Error messages are constant strings without the
  formatted values. After an error the runner drops its state, so errors carry none.
  Loops that are structural are \<open>fun\<close>; the loops of \<open>drain_finished_insert\<close> and \<open>flush\<close> count
  rounds. Batch identifiers have 41 bits of milliseconds left of the sign bit, which last
  until the year 2039; the laws of the generator assume a clock below that bound.

  \<^bold>\<open>Not modelled.\<close> Encoding by serde, bincode and PostgreSQL, the random number generators,
  third-party integrands and Havana grids, tracing, HTTP, command line and dashboard code.
  Controllers, campaigns, the control plane, the runners above the queue and the
  accumulators are the plan for the continuation of this development, in that order.
\<close>

end
